(* ===== verification/Prelude.thy ===== *)
theory Prelude
  imports Main "HOL-Library.Word" "HOL-Library.List_Lexorder" "HOL-Library.Char_ord"
    "HOL-Library.Sublist" "HOL-Library.Countable" "HOL-Library.Finite_Map"
begin

text \<open>
  What every component of the development shares: the fragment of Go's semantics the code
  relies on (byte strings, slice indexing that panics out of range, errors as values, codecs
  of the standard library), and the generic lemmas on lists and results that carry the
  component proofs.

  A Go \<^verbatim>\<open>string\<close> and a Go \<^verbatim>\<open>[]byte\<close> are both \<^typ>\<open>string\<close>: a HOL character is exactly one
  byte, and the lexicographic order of \<^verbatim>\<open>HOL-Library.List_Lexorder\<close> over
  \<^verbatim>\<open>HOL-Library.Char_ord\<close> is Go's byte-wise comparison. A nil and an empty slice are the
  same value. A Go \<^verbatim>\<open>int\<close> or \<^verbatim>\<open>int64\<close> that only counts upwards from zero (terms, indexes,
  lease identifiers, times in milliseconds) is \<^typ>\<open>int\<close>; the widths are kept where the code
  converts or wraps (\<^verbatim>\<open>uint32\<close> record lengths, the CRC, the \<^verbatim>\<open>uint64\<close> file sequence, the
  \<^verbatim>\<open>int32\<close> request offset).
\<close>

section \<open>Types\<close>

type_synonym bytes = string

text \<open>
  A run-time panic of Go, a call of the logger that ends the process, or (\<open>Deadlock\<close>) a channel
  operation that no other goroutine will ever complete or a loop that never ends.
\<close>

datatype panic = IndexOutOfRange | SliceBounds | DivideByZero | NilDereference
  | LoggerPanic | LoggerFatal | TickerPanic | WaitGroupPanic | Deadlock

text \<open>What a call that may panic yields: the panic, or the value.\<close>

type_synonym 'a res = "panic + 'a"

text \<open>
  An encoder of the standard library (\<^verbatim>\<open>encoding/gob\<close> or \<^verbatim>\<open>encoding/json\<close>) at one type:
  the bytes of a value, and the value bytes decode to, \<open>None\<close> for a decoding error.
\<close>

record 'a codec =
  enc :: "'a \<Rightarrow> bytes"
  dec :: "bytes \<Rightarrow> 'a option"

text \<open>Decoding what was encoded gives the value back: what both packages document.\<close>

definition codec_ok :: "'a codec \<Rightarrow> bool" where
  "codec_ok c \<longleftrightarrow> (\<forall>x. dec c (enc c x) = Some x)"

text \<open>A codec at any countable type, for the witnesses: a value is the length of its bytes.\<close>

definition count_codec :: "('a::countable) codec" where
  "count_codec = \<lparr>enc = (\<lambda>x. replicate (to_nat x) CHR ''0''), dec = (\<lambda>b. Some (from_nat (length b)))\<rparr>"

text \<open>The same with short encodings for the values of a list.\<close>

definition pin_codec :: "('a::countable) list \<Rightarrow> 'a codec" where
  "pin_codec xs =
     \<lparr>enc = (\<lambda>x. replicate (if x \<in> set xs then length (takeWhile (\<lambda>y. y \<noteq> x) xs) else length xs + to_nat x) CHR ''0''),
      dec = (\<lambda>b. Some (if length b < length xs then xs ! length b else from_nat (length b - length xs)))\<rparr>"

section \<open>Sequencing and slices\<close>

definition res_bind :: "'e + 'a \<Rightarrow> ('a \<Rightarrow> 'e + 'b) \<Rightarrow> 'e + 'b" where
  "res_bind m f = (case m of Inl e \<Rightarrow> Inl e | Inr x \<Rightarrow> f x)"

text \<open>\<^verbatim>\<open>xs[i]\<close>, \<^verbatim>\<open>xs[i:]\<close> and \<^verbatim>\<open>xs[:i]\<close> on a slice; out of range is a panic.\<close>

definition go_nth :: "'a list \<Rightarrow> int \<Rightarrow> 'a res" where
  "go_nth xs i = (if 0 \<le> i \<and> i < int (length xs) then Inr (xs ! nat i) else Inl IndexOutOfRange)"

definition go_from :: "'a list \<Rightarrow> int \<Rightarrow> 'a list res" where
  "go_from xs i = (if 0 \<le> i \<and> i \<le> int (length xs) then Inr (drop (nat i) xs) else Inl SliceBounds)"

definition go_upto :: "'a list \<Rightarrow> int \<Rightarrow> 'a list res" where
  "go_upto xs i = (if 0 \<le> i \<and> i \<le> int (length xs) then Inr (take (nat i) xs) else Inl SliceBounds)"

text \<open>\<^verbatim>\<open>xs[i] = v\<close> on a slice.\<close>

definition go_set :: "'a list \<Rightarrow> int \<Rightarrow> 'a \<Rightarrow> 'a list res" where
  "go_set xs i v = (if 0 \<le> i \<and> i < int (length xs) then Inr (xs[nat i := v]) else Inl IndexOutOfRange)"

text \<open>Integer division truncates towards zero; the divisors of the code are positive constants.\<close>

definition go_quot :: "int \<Rightarrow> int \<Rightarrow> int" where
  "go_quot a b = (if 0 \<le> a then a div b else - ((- a) div b))"

text \<open>\<^verbatim>\<open>%d\<close> of \<^verbatim>\<open>fmt\<close>, and \<^verbatim>\<open>strconv.FormatInt(n, 10)\<close>.\<close>

fun nat_string :: "nat \<Rightarrow> string" where
  "nat_string n = (if n < 10 then [char_of (48 + n)] else nat_string (n div 10) @ [char_of (48 + n mod 10)])"

declare nat_string.simps [simp del]

definition itoa :: "int \<Rightarrow> string" where
  "itoa i = (if i < 0 then CHR ''-'' # nat_string (nat (- i)) else nat_string (nat i))"

text \<open>
  \<^verbatim>\<open>strconv.ParseInt(s, 10, 64)\<close>: the number and whether there was no error; out of range gives the nearest
  number, a syntax error gives 0.
\<close>

definition is_digit :: "char \<Rightarrow> bool" where
  "is_digit c \<longleftrightarrow> 48 \<le> (of_char c :: nat) \<and> (of_char c :: nat) \<le> 57"

fun parse_digits :: "nat \<Rightarrow> string \<Rightarrow> nat option" where
  "parse_digits acc [] = Some acc"
| "parse_digits acc (c # cs) =
     (if is_digit c then parse_digits (acc * 10 + (of_char c - 48)) cs else None)"

definition ParseInt :: "string \<Rightarrow> int \<times> bool" where
  "ParseInt s =
     (let neg = (s \<noteq> [] \<and> hd s = CHR ''-'');
          ds = (if s \<noteq> [] \<and> (hd s = CHR ''-'' \<or> hd s = CHR ''+'') then tl s else s) in
      if ds = [] then (0, False)
      else case parse_digits 0 ds of
        None \<Rightarrow> (0, False)
      | Some n \<Rightarrow>
          if neg then (if int n > 2 ^ 63 then (- (2 ^ 63), False) else (- int n, True))
          else (if int n > 2 ^ 63 - 1 then (2 ^ 63 - 1, False) else (int n, True)))"

section \<open>Lemma collections\<close>

named_theorems res_simps \<open>sequencing of results and slice accesses\<close>
named_theorems frame_simps \<open>fields an operation leaves alone\<close>
named_theorems inv_intros \<open>operations preserve the invariant of their component\<close>

section \<open>Generic lemmas\<close>

lemma codec_okD [simp]: "codec_ok c \<Longrightarrow> dec c (enc c x) = Some x"
  by (simp add: codec_ok_def)

lemma count_codec_ok [simp, intro]: "codec_ok count_codec"
  by (simp add: codec_ok_def count_codec_def)

lemma pin_position: "x \<in> set xs \<Longrightarrow> length (takeWhile (\<lambda>y. y \<noteq> x) xs) < length xs \<and> xs ! length (takeWhile (\<lambda>y. y \<noteq> x) xs) = x"
  by (induction xs) auto

lemma pin_codec_ok [simp, intro]: "codec_ok (pin_codec xs)"
  by (simp add: codec_ok_def pin_codec_def pin_position)

lemma pin_codec_length: "x \<in> set xs \<Longrightarrow> length (enc (pin_codec xs) x) < length xs"
  by (simp add: pin_codec_def pin_position)

lemma res_bind_simps [simp, res_simps]:
  "res_bind (Inr x) f = f x"
  "res_bind (Inl e) f = Inl e"
  by (simp_all add: res_bind_def)

lemma res_bind_Inr_iff [res_simps]:
  "res_bind m f = Inr y \<longleftrightarrow> (\<exists>x. m = Inr x \<and> f x = Inr y)"
  by (cases m) auto

lemma res_bind_Inl_iff [res_simps]:
  "res_bind m f = Inl e \<longleftrightarrow> m = Inl e \<or> (\<exists>x. m = Inr x \<and> f x = Inl e)"
  by (cases m) auto

lemma go_nth_Inr_iff [res_simps]:
  "go_nth xs i = Inr x \<longleftrightarrow> 0 \<le> i \<and> i < int (length xs) \<and> x = xs ! nat i"
  by (auto simp: go_nth_def)

lemma go_from_Inr_iff [res_simps]:
  "go_from xs i = Inr ys \<longleftrightarrow> 0 \<le> i \<and> i \<le> int (length xs) \<and> ys = drop (nat i) xs"
  by (auto simp: go_from_def)

lemma go_upto_Inr_iff [res_simps]:
  "go_upto xs i = Inr ys \<longleftrightarrow> 0 \<le> i \<and> i \<le> int (length xs) \<and> ys = take (nat i) xs"
  by (auto simp: go_upto_def)

lemma go_set_Inr_iff [res_simps]:
  "go_set xs i v = Inr ys \<longleftrightarrow> 0 \<le> i \<and> i < int (length xs) \<and> ys = xs[nat i := v]"
  by (auto simp: go_set_def)

lemma parse_digits_append:
  "parse_digits acc (xs @ [c]) =
     (case parse_digits acc xs of None \<Rightarrow> None | Some n \<Rightarrow> if is_digit c then Some (n * 10 + (of_char c - 48)) else None)"
  by (induction xs arbitrary: acc) auto

lemma digit_char: "m < 10 \<Longrightarrow> (of_char (char_of (48 + m) :: char) :: nat) = 48 + m"
  by (simp add: of_char_of)

lemma parse_nat_string: "parse_digits 0 (nat_string n) = Some n"
proof (induction n rule: less_induct)
  case (less n)
  show ?case
  proof (cases "n < 10")
    case True
    then show ?thesis by (subst nat_string.simps) (simp add: is_digit_def digit_char)
  next
    case False
    then have "parse_digits 0 (nat_string (n div 10)) = Some (n div 10)" using less by simp
    with False show ?thesis by (subst nat_string.simps) (simp add: parse_digits_append is_digit_def digit_char)
  qed
qed

lemma nat_string_neq [simp]: "nat_string n \<noteq> []"
  by (subst nat_string.simps) simp

lemma hd_nat_string_digit: "is_digit (hd (nat_string n))"
proof (induction n rule: less_induct)
  case (less n)
  show ?case
  proof (cases "n < 10")
    case True
    then show ?thesis by (subst nat_string.simps) (simp add: is_digit_def digit_char)
  next
    case False
    then have "is_digit (hd (nat_string (n div 10)))" using less by simp
    with False show ?thesis by (subst nat_string.simps) (simp add: hd_append)
  qed
qed

lemma ParseInt_itoa:
  assumes "- (2 ^ 63) \<le> i" "i < 2 ^ 63"
  shows "ParseInt (itoa i) = (i, True)"
proof -
  have d: "hd (nat_string n) \<noteq> CHR ''-''" "hd (nat_string n) \<noteq> CHR ''+''" for n
    using hd_nat_string_digit [of n] by (auto simp: is_digit_def)
  show ?thesis using assms d by (auto simp: ParseInt_def itoa_def parse_nat_string Let_def)
qed

lemma map_of_filter_key:
  "map_of (filter (\<lambda>p. P (fst p)) xs) k = (if P k then map_of xs k else None)"
  by (induction xs) auto

lemma filter_take_while_prefix:
  assumes "\<And>i j. i < j \<Longrightarrow> j < length xs \<Longrightarrow> P (xs ! j) \<Longrightarrow> P (xs ! i)"
  shows "takeWhile P xs = filter P xs"
  using assms
proof (induction xs)
  case (Cons x xs)
  show ?case
  proof (cases "P x")
    case True
    have "takeWhile P xs = filter P xs"
    proof (rule Cons.IH)
      fix i j assume "i < j" "j < length xs" "P (xs ! j)"
      then show "P (xs ! i)" using Cons.prems [of "Suc i" "Suc j"] by simp
    qed
    with True show ?thesis by simp
  next
    case False
    have "\<not> P y" if y: "y \<in> set xs" for y
    proof
      assume "P y"
      from y obtain j where "j < length xs" "xs ! j = y" by (auto simp: in_set_conv_nth)
      with \<open>P y\<close> have "P x" using Cons.prems [of 0 "Suc j"] by simp
      with False show False by simp
    qed
    with False show ?thesis by simp
  qed
qed simp

end
