(* ===== verification/Config.thy ===== *)
theory Config
  imports Prelude
begin

text \<open>
  The configuration of the servers, the gateway and the clients: the package \<^verbatim>\<open>src/pkg/firconfig\<close>.

  The structures of \<^verbatim>\<open>common.go\<close>, \<^verbatim>\<open>clerk.go\<close>, \<^verbatim>\<open>gateway.go\<close>, \<^verbatim>\<open>kvend.go\<close> and \<^verbatim>\<open>raftend.go\<close> are records; a
  pointer to a structure is an option. An \<^verbatim>\<open>error\<close> is the text of its message, \<open>None\<close> for \<^verbatim>\<open>nil\<close>. The
  interface \<^verbatim>\<open>Firconfig\<close> is the record \<open>firconfig\<close>: besides \<^verbatim>\<open>Default\<close> and \<^verbatim>\<open>Validate\<close> it has what
  \<^verbatim>\<open>reflect.ValueOf\<close> shows of a value of the type and the value that memory of that shape is. The file
  system is a record of what the system calls answer, the environment a function from names to values (empty for
  a variable that is not set), and \<^verbatim>\<open>gopkg.in/yaml.v3\<close> a parameter with its documented behaviour \<open>yaml_ok\<close>.
\<close>

section \<open>Definitions\<close>

subsection \<open>Paths and files\<close>

text \<open>\<^verbatim>\<open>strings.Split(s, "/")\<close> and \<^verbatim>\<open>strings.Join(parts, "/")\<close>.\<close>

fun split_slash :: "string \<Rightarrow> string list" where
  "split_slash [] = [[]]"
| "split_slash (c # cs) =
     (if c = CHR ''/'' then [] # split_slash cs
      else case split_slash cs of [] \<Rightarrow> [[c]] | p # ps \<Rightarrow> (c # p) # ps)"

fun join_slash :: "string list \<Rightarrow> string" where
  "join_slash [] = []"
| "join_slash [p] = p"
| "join_slash (p # q # ps) = p @ CHR ''/'' # join_slash (q # ps)"

text \<open>\<^verbatim>\<open>filepath.IsAbs\<close>, \<^verbatim>\<open>filepath.Clean\<close> and \<^verbatim>\<open>filepath.Join\<close> on Unix; the stack of elements is kept reversed.\<close>

definition IsAbs :: "string \<Rightarrow> bool" where
  "IsAbs p \<longleftrightarrow> p \<noteq> [] \<and> hd p = CHR ''/''"

fun clean_parts :: "bool \<Rightarrow> string list \<Rightarrow> string list \<Rightarrow> string list" where
  "clean_parts rooted st [] = rev st"
| "clean_parts rooted st (p # ps) =
     (if p = [] \<or> p = ''.'' then clean_parts rooted st ps
      else if p = ''..'' then
        (if st \<noteq> [] \<and> hd st \<noteq> ''..'' then clean_parts rooted (tl st) ps
         else if rooted then clean_parts rooted st ps
         else clean_parts rooted (p # st) ps)
      else clean_parts rooted (p # st) ps)"

definition Clean :: "string \<Rightarrow> string" where
  "Clean p =
     (let ps = clean_parts (IsAbs p) [] (split_slash p) in
      if IsAbs p then CHR ''/'' # join_slash ps
      else if ps = [] then ''.'' else join_slash ps)"

definition filepath_Join :: "string list \<Rightarrow> string" where
  "filepath_Join es = (case dropWhile (\<lambda>e. e = []) es of [] \<Rightarrow> [] | fs \<Rightarrow> Clean (join_slash fs))"

text \<open>
  What the system calls answer for a path: the contents of the file; whether asking for it or reading it fails for
  another reason than that it does not exist; and how a write ends. \<^verbatim>\<open>os.WriteFile\<close> that fails may leave the
  file as it was or truncated to what it had written.
\<close>

datatype write_outcome = Written | Partial nat | Refused

record disk =
  files :: "string \<rightharpoonup> bytes"
  statFails :: "string \<Rightarrow> bool"
  readFails :: "string \<Rightarrow> bool"
  writeEnds :: "string \<Rightarrow> write_outcome"

datatype stat_result = Exists | NotExist | StatError

definition Stat :: "disk \<Rightarrow> string \<Rightarrow> stat_result" where
  "Stat d p = (if statFails d p then StatError else if files d p = None then NotExist else Exists)"

definition ReadFile :: "disk \<Rightarrow> string \<Rightarrow> bytes option" where
  "ReadFile d p = (if readFails d p then None else files d p)"

definition WriteFile :: "disk \<Rightarrow> string \<Rightarrow> bytes \<Rightarrow> disk \<times> bool" where
  "WriteFile d p b =
     (case writeEnds d p of
        Written \<Rightarrow> (d\<lparr>files := (files d)(p \<mapsto> b)\<rparr>, True)
      | Partial n \<Rightarrow> (d\<lparr>files := (files d)(p \<mapsto> take n b)\<rparr>, False)
      | Refused \<Rightarrow> (d, False))"

subsection \<open>The structures\<close>

type_synonym error = "string option"

record TLSConfig =
  CertFile :: string
  KeyFile :: string
  CAFile :: string
  ClientAuth :: bool
  MinVersion :: string
  MaxVersion :: string
  InsecureSkipVerify :: bool
  skipFileCheck :: bool

definition zero_TLSConfig :: TLSConfig where
  "zero_TLSConfig = \<lparr>CertFile = [], KeyFile = [], CAFile = [], ClientAuth = False, MinVersion = [], MaxVersion = [],
     InsecureSkipVerify = False, skipFileCheck = False\<rparr>"

definition DefaultTLSConfig :: TLSConfig where
  "DefaultTLSConfig = zero_TLSConfig\<lparr>CertFile := ''certs/ca.crt'', KeyFile := ''certs/ca.key'', CAFile := ''certs/ca.crt'',
     ClientAuth := True, MinVersion := ''1.2'', MaxVersion := ''1.3'', InsecureSkipVerify := False\<rparr>"

record Clerk =
  EtcdAddrs :: "string list"
  cTLS :: "TLSConfig option"

record RaftEnd =
  rAddr :: string
  rPort :: string

record RaftEnds =
  Me :: int
  Endpoints :: "RaftEnd list"

record Kvserver =
  kAddr :: string
  kPort :: string
  Rafts :: RaftEnds
  DataBasePath :: string
  Maxraftstate :: int
  kTLS :: "TLSConfig option"

record GatewayConf =
  gClerk :: Clerk
  gAddr :: string
  gPort :: string
  BaseUrl :: string
  gTLS :: "TLSConfig option"

definition DefaultClerk :: Clerk where
  "DefaultClerk = \<lparr>EtcdAddrs = [''127.0.0.1:51240'', ''127.0.0.1:51241'', ''127.0.0.1:51242''], cTLS = Some DefaultTLSConfig\<rparr>"

definition DefaultRaftEnds :: RaftEnds where
  "DefaultRaftEnds = \<lparr>Me = 0, Endpoints =
     [\<lparr>rAddr = ''127.0.0.1'', rPort = '':32300''\<rparr>, \<lparr>rAddr = ''127.0.0.1'', rPort = '':32301''\<rparr>,
      \<lparr>rAddr = ''127.0.0.1'', rPort = '':32302''\<rparr>]\<rparr>"

definition DefaultKVServer :: Kvserver where
  "DefaultKVServer = \<lparr>kAddr = ''127.0.0.1'', kPort = '':51242'', Rafts = DefaultRaftEnds, DataBasePath = ''data'',
     Maxraftstate = 100000, kTLS = Some (zero_TLSConfig\<lparr>CertFile := ''certs/server.crt'', KeyFile := ''certs/server.key'',
       CAFile := ''certs/ca.crt'', ClientAuth := True\<rparr>)\<rparr>"

definition DefaultGateway :: GatewayConf where
  "DefaultGateway = \<lparr>gClerk = DefaultClerk, gAddr = ''127.0.0.1'', gPort = '':51030'', BaseUrl = ''/firEtcd'',
     gTLS = Some (zero_TLSConfig\<lparr>CertFile := ''certs/gateway.crt'', KeyFile := ''certs/gateway.key'',
       CAFile := ''certs/ca.crt'', ClientAuth := True\<rparr>)\<rparr>"

text \<open>The zero values \<^verbatim>\<open>firconfig.Kvserver{}\<close> and \<^verbatim>\<open>var conf firconfig.Gateway\<close> that \<^verbatim>\<open>Init\<close> is called with.\<close>

definition zero_Clerk :: Clerk where
  "zero_Clerk = \<lparr>EtcdAddrs = [], cTLS = None\<rparr>"

definition zero_RaftEnds :: RaftEnds where
  "zero_RaftEnds = \<lparr>Me = 0, Endpoints = []\<rparr>"

definition zero_Kvserver :: Kvserver where
  "zero_Kvserver = \<lparr>kAddr = [], kPort = [], Rafts = zero_RaftEnds, DataBasePath = [], Maxraftstate = 0, kTLS = None\<rparr>"

definition zero_Gateway :: GatewayConf where
  "zero_Gateway = \<lparr>gClerk = zero_Clerk, gAddr = [], gPort = [], BaseUrl = [], gTLS = None\<rparr>"

subsection \<open>Validation\<close>

definition IsEnabled :: "TLSConfig option \<Rightarrow> bool" where
  "IsEnabled t = (case t of None \<Rightarrow> False | Some c \<Rightarrow> CertFile c \<noteq> [] \<and> KeyFile c \<noteq> [] \<and> CAFile c \<noteq> [])"

definition isValidTLSVersion :: "string \<Rightarrow> bool" where
  "isValidTLSVersion v \<longleftrightarrow> v \<in> set [''1.0'', ''1.1'', ''1.2'', ''1.3'']"

definition commonPaths :: "string list" where
  "commonPaths = [''certs'', ''certificates'', ''/etc/ssl/certs'', ''/usr/local/share/ca-certificates'']"

definition checkFileExists :: "disk \<Rightarrow> string \<Rightarrow> error" where
  "checkFileExists d p =
     (if p = [] then Some ''file path is empty''
      else if \<not> IsAbs p then
        (if Stat d p = Exists then None
         else if list_ex (\<lambda>dir. Stat d (filepath_Join [dir, p]) = Exists) commonPaths then None
         else Some (''file not found: '' @ p))
      else if Stat d p \<noteq> Exists then Some (''file not found: '' @ p)
      else None)"

definition wrap :: "string \<Rightarrow> error \<Rightarrow> error" where
  "wrap msg e = map_option (\<lambda>m. msg @ m) e"

definition tls_Validate :: "disk \<Rightarrow> TLSConfig option \<Rightarrow> error" where
  "tls_Validate d t =
     (if \<not> IsEnabled t then None
      else let c = the t;
        e1 = wrap ''certificate file: '' (checkFileExists d (CertFile c));
        e2 = wrap ''private key file: '' (checkFileExists d (KeyFile c));
        e3 = wrap ''CA certificate file: '' (checkFileExists d (CAFile c)) in
      if \<not> skipFileCheck c \<and> e1 \<noteq> None then e1
      else if \<not> skipFileCheck c \<and> e2 \<noteq> None then e2
      else if \<not> skipFileCheck c \<and> e3 \<noteq> None then e3
      else if MinVersion c \<noteq> [] \<and> \<not> isValidTLSVersion (MinVersion c)
        then Some (''invalid min TLS version: '' @ MinVersion c)
      else if MaxVersion c \<noteq> [] \<and> \<not> isValidTLSVersion (MaxVersion c)
        then Some (''invalid max TLS version: '' @ MaxVersion c)
      else None)"

definition SkipFileCheck :: "TLSConfig \<Rightarrow> TLSConfig" where
  "SkipFileCheck c = c\<lparr>skipFileCheck := True\<rparr>"

definition clerk_Validate :: "disk \<Rightarrow> Clerk \<Rightarrow> error" where
  "clerk_Validate d c = (if cTLS c \<noteq> None then tls_Validate d (cTLS c) else None)"

definition gateway_Validate :: "disk \<Rightarrow> GatewayConf \<Rightarrow> error" where
  "gateway_Validate d g =
     (if gTLS g \<noteq> None \<and> IsEnabled (gTLS g)
      then wrap ''gateway TLS config validation failed: '' (tls_Validate d (gTLS g)) else None)"

definition kvserver_Validate :: "disk \<Rightarrow> Kvserver \<Rightarrow> error" where
  "kvserver_Validate d c =
     (if kTLS c \<noteq> None \<and> IsEnabled (kTLS c)
      then wrap ''kvserver TLS config validation failed: '' (tls_Validate d (kTLS c)) else None)"

definition raftends_Validate :: "disk \<Rightarrow> RaftEnds \<Rightarrow> error" where
  "raftends_Validate d c = None"

subsection \<open>Environment variables\<close>

text \<open>
  A \<^verbatim>\<open>reflect.Value\<close> of the kinds the structures have. A field of a structure has its \<^verbatim>\<open>env\<close> tag (empty
  when there is none) and whether it can be set, which an unexported field cannot.
\<close>

datatype rvalue = RString string | RBool bool | RInt int | RSlice "rvalue list"
  | RStruct "(string \<times> bool \<times> rvalue) list" | RPtr "rvalue option"

text \<open>The \<^verbatim>\<open>switch\<close> on the kind of a field whose variable is set.\<close>

definition set_env :: "(string \<Rightarrow> string) \<Rightarrow> string \<Rightarrow> bool \<Rightarrow> rvalue \<Rightarrow> rvalue" where
  "set_env env tag canSet v =
     (if tag \<noteq> [] \<and> canSet \<and> env tag \<noteq> [] then
        (case v of
           RString s \<Rightarrow> RString (env tag)
         | RBool b \<Rightarrow> (if env tag = ''true'' \<or> env tag = ''1'' then RBool True
                      else if env tag = ''false'' \<or> env tag = ''0'' then RBool False else v)
         | _ \<Rightarrow> v)
      else v)"

text \<open>
  The recursion over structures. \<open>set_env\<close> changes strings and booleans only, and the recursion goes into
  structures and pointers to structures only, so that a field is treated by the one or the other.
\<close>

fun applyEnvOverridesRecursive :: "(string \<Rightarrow> string) \<Rightarrow> rvalue \<Rightarrow> rvalue"
and env_fields :: "(string \<Rightarrow> string) \<Rightarrow> (string \<times> bool \<times> rvalue) list \<Rightarrow> (string \<times> bool \<times> rvalue) list" where
  "applyEnvOverridesRecursive env (RStruct fs) = RStruct (env_fields env fs)"
| "applyEnvOverridesRecursive env (RString s) = RString s"
| "applyEnvOverridesRecursive env (RBool b) = RBool b"
| "applyEnvOverridesRecursive env (RInt i) = RInt i"
| "applyEnvOverridesRecursive env (RSlice vs) = RSlice vs"
| "applyEnvOverridesRecursive env (RPtr q) = RPtr q"
| "env_fields env [] = []"
| "env_fields env ((tag, canSet, v) # fs) =
     (tag, canSet,
       (case v of
          RStruct gs \<Rightarrow> applyEnvOverridesRecursive env v
        | RPtr (Some w) \<Rightarrow> RPtr (Some (applyEnvOverridesRecursive env w))
        | _ \<Rightarrow> set_env env tag canSet v)) # env_fields env fs"

text \<open>What \<^verbatim>\<open>reflect.ValueOf\<close> shows of the structures, and what memory of that shape is.\<close>

fun the_string :: "rvalue \<Rightarrow> string" where
  "the_string (RString s) = s" | "the_string _ = []"

fun the_bool :: "rvalue \<Rightarrow> bool" where
  "the_bool (RBool b) = b" | "the_bool _ = False"

fun the_int :: "rvalue \<Rightarrow> int" where
  "the_int (RInt i) = i" | "the_int _ = 0"

fun the_elems :: "rvalue \<Rightarrow> rvalue list" where
  "the_elems (RSlice vs) = vs" | "the_elems _ = []"

fun the_ptr :: "rvalue \<Rightarrow> rvalue option" where
  "the_ptr (RPtr q) = q" | "the_ptr _ = None"

fun the_fields :: "rvalue \<Rightarrow> rvalue list" where
  "the_fields (RStruct fs) = map (\<lambda>(t, c, v). v) fs" | "the_fields _ = []"

definition tls_value :: "TLSConfig \<Rightarrow> rvalue" where
  "tls_value c = RStruct
     [(''TLS_CERT_FILE'', True, RString (CertFile c)), (''TLS_KEY_FILE'', True, RString (KeyFile c)),
      (''TLS_CA_FILE'', True, RString (CAFile c)), (''TLS_CLIENT_AUTH'', True, RBool (ClientAuth c)),
      (''TLS_MIN_VERSION'', True, RString (MinVersion c)), (''TLS_MAX_VERSION'', True, RString (MaxVersion c)),
      (''TLS_INSECURE_SKIP_VERIFY'', True, RBool (InsecureSkipVerify c)), ([], False, RBool (skipFileCheck c))]"

definition value_tls :: "rvalue \<Rightarrow> TLSConfig" where
  "value_tls v = (let fs = the_fields v in
     \<lparr>CertFile = the_string (fs ! 0), KeyFile = the_string (fs ! 1), CAFile = the_string (fs ! 2),
      ClientAuth = the_bool (fs ! 3), MinVersion = the_string (fs ! 4), MaxVersion = the_string (fs ! 5),
      InsecureSkipVerify = the_bool (fs ! 6), skipFileCheck = the_bool (fs ! 7)\<rparr>)"

definition clerk_value :: "Clerk \<Rightarrow> rvalue" where
  "clerk_value c = RStruct
     [([], True, RSlice (map RString (EtcdAddrs c))), ([], True, RPtr (map_option tls_value (cTLS c)))]"

definition value_clerk :: "rvalue \<Rightarrow> Clerk" where
  "value_clerk v = (let fs = the_fields v in
     \<lparr>EtcdAddrs = map the_string (the_elems (fs ! 0)), cTLS = map_option value_tls (the_ptr (fs ! 1))\<rparr>)"

definition raftend_value :: "RaftEnd \<Rightarrow> rvalue" where
  "raftend_value e = RStruct [([], True, RString (rAddr e)), ([], True, RString (rPort e))]"

definition value_raftend :: "rvalue \<Rightarrow> RaftEnd" where
  "value_raftend v = (let fs = the_fields v in \<lparr>rAddr = the_string (fs ! 0), rPort = the_string (fs ! 1)\<rparr>)"

definition raftends_value :: "RaftEnds \<Rightarrow> rvalue" where
  "raftends_value c = RStruct
     [([], True, RInt (Me c)), ([], True, RSlice (map raftend_value (Endpoints c)))]"

definition value_raftends :: "rvalue \<Rightarrow> RaftEnds" where
  "value_raftends v = (let fs = the_fields v in
     \<lparr>Me = the_int (fs ! 0), Endpoints = map value_raftend (the_elems (fs ! 1))\<rparr>)"

definition kvserver_value :: "Kvserver \<Rightarrow> rvalue" where
  "kvserver_value c = RStruct
     [([], True, RString (kAddr c)), ([], True, RString (kPort c)), ([], True, raftends_value (Rafts c)),
      ([], True, RString (DataBasePath c)), ([], True, RInt (Maxraftstate c)),
      ([], True, RPtr (map_option tls_value (kTLS c)))]"

definition value_kvserver :: "rvalue \<Rightarrow> Kvserver" where
  "value_kvserver v = (let fs = the_fields v in
     \<lparr>kAddr = the_string (fs ! 0), kPort = the_string (fs ! 1), Rafts = value_raftends (fs ! 2),
      DataBasePath = the_string (fs ! 3), Maxraftstate = the_int (fs ! 4), kTLS = map_option value_tls (the_ptr (fs ! 5))\<rparr>)"

definition gateway_value :: "GatewayConf \<Rightarrow> rvalue" where
  "gateway_value g = RStruct
     [([], True, clerk_value (gClerk g)), ([], True, RString (gAddr g)), ([], True, RString (gPort g)),
      ([], True, RString (BaseUrl g)), ([], True, RPtr (map_option tls_value (gTLS g)))]"

definition value_gateway :: "rvalue \<Rightarrow> GatewayConf" where
  "value_gateway v = (let fs = the_fields v in
     \<lparr>gClerk = value_clerk (fs ! 0), gAddr = the_string (fs ! 1), gPort = the_string (fs ! 2),
      BaseUrl = the_string (fs ! 3), gTLS = map_option value_tls (the_ptr (fs ! 4))\<rparr>)"

subsection \<open>Reading and writing the configuration\<close>

record 'c firconfig =
  fDefault :: 'c
  fValidate :: "disk \<Rightarrow> 'c \<Rightarrow> error"
  fValue :: "'c \<Rightarrow> rvalue"
  fOf :: "rvalue \<Rightarrow> 'c"

definition kvserver_conf :: "Kvserver firconfig" where
  "kvserver_conf = \<lparr>fDefault = DefaultKVServer, fValidate = kvserver_Validate, fValue = kvserver_value, fOf = value_kvserver\<rparr>"

definition gateway_conf :: "GatewayConf firconfig" where
  "gateway_conf = \<lparr>fDefault = DefaultGateway, fValidate = gateway_Validate, fValue = gateway_value, fOf = value_gateway\<rparr>"

definition clerk_conf :: "Clerk firconfig" where
  "clerk_conf = \<lparr>fDefault = DefaultClerk, fValidate = clerk_Validate, fValue = clerk_value, fOf = value_clerk\<rparr>"

definition raftends_conf :: "RaftEnds firconfig" where
  "raftends_conf = \<lparr>fDefault = DefaultRaftEnds, fValidate = raftends_Validate, fValue = raftends_value, fOf = value_raftends\<rparr>"

text \<open>
  \<^verbatim>\<open>yaml.Marshal\<close>, and \<^verbatim>\<open>yaml.Unmarshal\<close> into a value that is there already; \<open>None\<close> is an error.
\<close>

record 'c yaml =
  yMarshal :: "'c \<Rightarrow> bytes option"
  yUnmarshal :: "bytes \<Rightarrow> 'c \<Rightarrow> 'c option"

text \<open>
  What the package documents: the document of a value, decoded into that value or into the zero value, is the value
  again. Unexported fields are not part of a document, so that the second holds for the values in \<open>exported\<close>.
\<close>

definition yaml_ok :: "'c yaml \<Rightarrow> 'c \<Rightarrow> ('c \<Rightarrow> bool) \<Rightarrow> bool" where
  "yaml_ok y z exported \<longleftrightarrow>
     (\<forall>c b. yMarshal y c = Some b \<longrightarrow> yUnmarshal y b c = Some c \<and> (exported c \<longrightarrow> yUnmarshal y b z = Some c))"

definition applyEnvOverrides :: "'c firconfig \<Rightarrow> (string \<Rightarrow> string) \<Rightarrow> 'c \<Rightarrow> 'c" where
  "applyEnvOverrides f env c = fOf f (applyEnvOverridesRecursive env (fValue f c))"

definition WriteLocal :: "'c yaml \<Rightarrow> disk \<Rightarrow> string \<Rightarrow> 'c \<Rightarrow> disk \<times> unit res" where
  "WriteLocal y d p c =
     (case yMarshal y c of
        None \<Rightarrow> (d, Inl LoggerFatal)
      | Some out \<Rightarrow> (case WriteFile d p out of (d', ok) \<Rightarrow> (d', if ok then Inr () else Inl LoggerFatal)))"

definition ReadLocal :: "'c yaml \<Rightarrow> disk \<Rightarrow> string \<Rightarrow> 'c \<Rightarrow> 'c res" where
  "ReadLocal y d p c =
     (case ReadFile d p of
        None \<Rightarrow> Inl LoggerFatal
      | Some data \<Rightarrow> (case yUnmarshal y data c of None \<Rightarrow> Inl LoggerFatal | Some c' \<Rightarrow> Inr c'))"

text \<open>\<^verbatim>\<open>Init\<close> after the file is there: the file, the environment, the validation.\<close>

definition init_read :: "'c firconfig \<Rightarrow> 'c yaml \<Rightarrow> (string \<Rightarrow> string) \<Rightarrow> disk \<Rightarrow> string \<Rightarrow> 'c \<Rightarrow> 'c res" where
  "init_read f y env d p c =
     res_bind (ReadLocal y d p c) (\<lambda>c1.
       let c2 = applyEnvOverrides f env c1 in
       if fValidate f d c2 \<noteq> None then Inl LoggerFatal else Inr c2)"

definition Init :: "'c firconfig \<Rightarrow> 'c yaml \<Rightarrow> (string \<Rightarrow> string) \<Rightarrow> disk \<Rightarrow> string \<Rightarrow> 'c \<Rightarrow> disk \<times> 'c res" where
  "Init f y env d p c =
     (case Stat d p of
        Exists \<Rightarrow> (d, init_read f y env d p c)
      | NotExist \<Rightarrow>
          (case WriteLocal y d p (fDefault f) of
             (d', Inl e) \<Rightarrow> (d', Inl e)
           | (d', Inr _) \<Rightarrow> (d', init_read f y env d' p (fDefault f)))
      | StatError \<Rightarrow> (d, Inl LoggerFatal))"

subsection \<open>The overrides, field by field\<close>

text \<open>What the environment does to a structure, as a reference for the recursion over reflected values.\<close>

definition env_string :: "(string \<Rightarrow> string) \<Rightarrow> string \<Rightarrow> string \<Rightarrow> string" where
  "env_string env tag s = (if env tag = [] then s else env tag)"

definition env_bool :: "(string \<Rightarrow> string) \<Rightarrow> string \<Rightarrow> bool \<Rightarrow> bool" where
  "env_bool env tag b = (if env tag \<in> {''true'', ''1''} then True else if env tag \<in> {''false'', ''0''} then False else b)"

definition tls_override :: "(string \<Rightarrow> string) \<Rightarrow> TLSConfig \<Rightarrow> TLSConfig" where
  "tls_override env c =
     \<lparr>CertFile = env_string env ''TLS_CERT_FILE'' (CertFile c), KeyFile = env_string env ''TLS_KEY_FILE'' (KeyFile c),
      CAFile = env_string env ''TLS_CA_FILE'' (CAFile c), ClientAuth = env_bool env ''TLS_CLIENT_AUTH'' (ClientAuth c),
      MinVersion = env_string env ''TLS_MIN_VERSION'' (MinVersion c),
      MaxVersion = env_string env ''TLS_MAX_VERSION'' (MaxVersion c),
      InsecureSkipVerify = env_bool env ''TLS_INSECURE_SKIP_VERIFY'' (InsecureSkipVerify c), skipFileCheck = skipFileCheck c\<rparr>"

definition kvserver_override :: "(string \<Rightarrow> string) \<Rightarrow> Kvserver \<Rightarrow> Kvserver" where
  "kvserver_override env c = c\<lparr>kTLS := map_option (tls_override env) (kTLS c)\<rparr>"

definition clerk_override :: "(string \<Rightarrow> string) \<Rightarrow> Clerk \<Rightarrow> Clerk" where
  "clerk_override env c = c\<lparr>cTLS := map_option (tls_override env) (cTLS c)\<rparr>"

definition gateway_override :: "(string \<Rightarrow> string) \<Rightarrow> GatewayConf \<Rightarrow> GatewayConf" where
  "gateway_override env g =
     g\<lparr>gClerk := clerk_override env (gClerk g), gTLS := map_option (tls_override env) (gTLS g)\<rparr>"

text \<open>What a start with a configuration comes to once it is validated.\<close>

definition accepted :: "'c firconfig \<Rightarrow> disk \<Rightarrow> 'c \<Rightarrow> 'c res" where
  "accepted f d c = (if fValidate f d c = None then Inr c else Inl LoggerFatal)"

text \<open>A \<^verbatim>\<open>yaml\<close> that knows the default configuration only, and a disk with its certificates, for the witnesses.\<close>

definition demo_yaml :: "Kvserver yaml" where
  "demo_yaml = \<lparr>yMarshal = (\<lambda>c. if c = DefaultKVServer then Some ''default'' else None),
     yUnmarshal = (\<lambda>b c. if b = ''default'' then Some DefaultKVServer else None)\<rparr>"

definition demo_disk :: disk where
  "demo_disk = \<lparr>files = [''certs/server.crt'' \<mapsto> [], ''certs/server.key'' \<mapsto> [], ''certs/ca.crt'' \<mapsto> []],
     statFails = (\<lambda>_. False), readFails = (\<lambda>_. False), writeEnds = (\<lambda>_. Written)\<rparr>"

section \<open>Lemmas\<close>

subsection \<open>Reflected values\<close>

lemma set_env_string: "tag \<noteq> [] \<Longrightarrow> set_env env tag True (RString s) = RString (env_string env tag s)"
  by (simp add: set_env_def env_string_def)

lemma set_env_bool: "tag \<noteq> [] \<Longrightarrow> set_env env tag True (RBool b) = RBool (env_bool env tag b)"
  by (auto simp: set_env_def env_bool_def)

lemma set_env_untagged: "set_env env [] canSet v = v"
  by (simp add: set_env_def)

lemma env_walk_idem:
  "applyEnvOverridesRecursive env (applyEnvOverridesRecursive env v) = applyEnvOverridesRecursive env v"
  "env_fields env (env_fields env fs) = env_fields env fs"
proof (induction env v and env fs rule: applyEnvOverridesRecursive_env_fields.induct)
  case (8 env tag canSet v fs)
  show ?case
  proof (cases v)
    case (RPtr q)
    with 8 show ?thesis by (cases q) (auto simp: set_env_def)
  qed (use 8 in \<open>auto simp: set_env_def\<close>)
qed auto

lemmas env_set_simps = set_env_string set_env_bool set_env_untagged

lemma value_tls_inverse [simp]: "value_tls (tls_value c) = c"
  by (simp add: value_tls_def tls_value_def)

lemma value_raftend_inverse [simp]: "value_raftend (raftend_value e) = e"
  by (simp add: value_raftend_def raftend_value_def)

lemma map_value_inverse [simp]:
  "map (the_string \<circ> RString) xs = xs" "map (value_raftend \<circ> raftend_value) es = es"
  by (simp_all add: comp_def)

lemma map_option_value_inverse [simp]: "map_option (value_tls \<circ> tls_value) t = t"
  by (simp add: comp_def option.map_ident)

lemma value_raftends_inverse [simp]: "value_raftends (raftends_value c) = c"
  by (simp add: value_raftends_def raftends_value_def)

lemma value_clerk_inverse [simp]: "value_clerk (clerk_value c) = c"
  by (simp add: value_clerk_def clerk_value_def option.map_comp)

lemma value_kvserver_inverse: "value_kvserver (kvserver_value c) = c"
  by (simp add: value_kvserver_def kvserver_value_def option.map_comp)

lemma value_gateway_inverse: "value_gateway (gateway_value g) = g"
  by (simp add: value_gateway_def gateway_value_def option.map_comp)

lemma walk_tls: "applyEnvOverridesRecursive env (tls_value c) = tls_value (tls_override env c)"
  by (simp add: tls_value_def tls_override_def env_set_simps)

lemma walk_raftends: "applyEnvOverridesRecursive env (raftends_value c) = raftends_value c"
  by (simp add: raftends_value_def env_set_simps)

lemma walk_clerk: "applyEnvOverridesRecursive env (clerk_value c) = clerk_value (clerk_override env c)"
  by (cases "cTLS c") (simp_all add: clerk_value_def clerk_override_def env_set_simps walk_tls)

lemma struct_value: "\<exists>fs. clerk_value c = RStruct fs" "\<exists>fs. raftends_value r = RStruct fs"
  by (simp_all add: clerk_value_def raftends_value_def)

lemma walk_kvserver: "applyEnvOverridesRecursive env (kvserver_value c) = kvserver_value (kvserver_override env c)"
  using walk_raftends [of env "Rafts c"] struct_value(2) [of "Rafts c"]
  by (cases "kTLS c") (auto simp: kvserver_value_def kvserver_override_def env_set_simps walk_tls)

lemma walk_gateway: "applyEnvOverridesRecursive env (gateway_value g) = gateway_value (gateway_override env g)"
  using walk_clerk [of env "gClerk g"] struct_value(1) [of "gClerk g"]
  by (cases "gTLS g") (auto simp: gateway_value_def gateway_override_def env_set_simps walk_tls)

subsection \<open>Files\<close>

lemma Stat_Exists_iff: "Stat d p = Exists \<longleftrightarrow> \<not> statFails d p \<and> files d p \<noteq> None"
  by (auto simp: Stat_def)

lemma Stat_NotExist_iff: "Stat d p = NotExist \<longleftrightarrow> \<not> statFails d p \<and> files d p = None"
  by (auto simp: Stat_def)

lemma checkFileExists_None_iff:
  "checkFileExists d p = None \<longleftrightarrow>
     p \<noteq> [] \<and> (Stat d p = Exists \<or> \<not> IsAbs p \<and> (\<exists>dir \<in> set commonPaths. Stat d (filepath_Join [dir, p]) = Exists))"
  by (auto simp: checkFileExists_def list_ex_iff)

lemma wrap_None_iff [simp]: "wrap m e = None \<longleftrightarrow> e = None"
  by (simp add: wrap_def)

lemma tls_Validate_None_iff:
  "tls_Validate d (Some c) = None \<longleftrightarrow>
     \<not> IsEnabled (Some c) \<or>
     (skipFileCheck c \<or> (\<forall>p \<in> {CertFile c, KeyFile c, CAFile c}. checkFileExists d p = None)) \<and>
     (\<forall>v \<in> {MinVersion c, MaxVersion c}. v = [] \<or> isValidTLSVersion v)"
  by (simp add: tls_Validate_def Let_def del: not_None_eq)

subsection \<open>The interface Firconfig\<close>

text \<open>
  A type of configurations: its values are determined by what reflection shows of them, and \<open>override\<close> is what the
  recursion over the environment variables does to them.
\<close>

locale configuration =
  fixes f :: "'c firconfig"
    and override :: "(string \<Rightarrow> string) \<Rightarrow> 'c \<Rightarrow> 'c"
  assumes of_value: "fOf f (fValue f c) = c"
    and walk: "applyEnvOverridesRecursive env (fValue f c) = fValue f (override env c)"
begin

lemma overrides: "applyEnvOverrides f env c = override env c"
  by (simp add: applyEnvOverrides_def walk of_value)

lemma override_idem: "override env (override env c) = override env c"
proof -
  have "fValue f (override env (override env c)) = fValue f (override env c)"
    using env_walk_idem(1) [of env "fValue f c"] by (simp add: walk)
  then have "fOf f (fValue f (override env (override env c))) = fOf f (fValue f (override env c))" by simp
  then show ?thesis by (simp add: of_value)
qed

lemma read_back:
  assumes "files d p = Some out" "\<not> readFails d p" "yUnmarshal y out c = Some c'"
  shows "init_read f y env d p c = accepted f d (override env c')"
  using assms by (simp add: init_read_def ReadLocal_def ReadFile_def overrides accepted_def Let_def)

lemma first_start:
  assumes y: "yaml_ok y z exported" "exported (fDefault f)" "yMarshal y (fDefault f) = Some out"
    and d: "Stat d p = NotExist" "writeEnds d p = Written" "\<not> readFails d p"
    and d': "d' = d\<lparr>files := (files d)(p \<mapsto> out)\<rparr>"
  shows "Init f y env d p z = (d', accepted f d' (override env (fDefault f)))"
    and "Init f y env d' p z = (d', accepted f d' (override env (fDefault f)))"
proof -
  let ?r = "accepted f d' (override env (fDefault f))"
  have "yUnmarshal y out (fDefault f) = Some (fDefault f)" "yUnmarshal y out z = Some (fDefault f)"
    using y by (auto simp: yaml_ok_def)
  then have "init_read f y env d' p (fDefault f) = ?r" "init_read f y env d' p z = ?r"
    using d by (auto simp: d' intro!: read_back)
  moreover have "Stat d' p = Exists" using d by (simp add: d' Stat_NotExist_iff Stat_Exists_iff)
  moreover have "WriteLocal y d p (fDefault f) = (d', Inr ())"
    using y(3) d(2) by (simp add: WriteLocal_def WriteFile_def d')
  ultimately show "Init f y env d p z = (d', ?r)" "Init f y env d' p z = (d', ?r)"
    using d(1) by (simp_all add: Init_def)
qed

lemma init_valid:
  assumes "Init f y env d p c = (d', Inr c')"
  shows "fValidate f d' c' = None" "override env c' = c'"
proof -
  have *: "fValidate f e c' = None \<and> override env c' = c'" if "init_read f y env e p c0 = Inr c'" for e c0
    using that by (auto simp: init_read_def res_bind_Inr_iff Let_def overrides override_idem split: if_splits)
  show "fValidate f d' c' = None" "override env c' = c'"
    using assms * by (auto simp: Init_def split: stat_result.splits prod.splits sum.splits)
qed

end

interpretation kvconf: configuration kvserver_conf kvserver_override
  by unfold_locales (simp_all add: kvserver_conf_def value_kvserver_inverse walk_kvserver)

interpretation gwconf: configuration gateway_conf gateway_override
  by unfold_locales (simp_all add: gateway_conf_def value_gateway_inverse walk_gateway)

interpretation clconf: configuration clerk_conf clerk_override
  by unfold_locales (simp_all add: clerk_conf_def walk_clerk)

interpretation rconf: configuration raftends_conf "\<lambda>_ c. c"
  by unfold_locales (simp_all add: raftends_conf_def walk_raftends)

section \<open>Properties\<close>

text \<open>
  C28: the environment variables \<^verbatim>\<open>TLS_*\<close> override exactly the fields they name, through pointers and nested
  structures, and only in the TLS sections that are there: the recursion over reflected values is, for a server,
  for a gateway with its clerk and for a clerk, the field by field override, and doing it again changes nothing.
\<close>

theorem env_overrides_fields:
  "applyEnvOverrides kvserver_conf env c = c\<lparr>kTLS := map_option (tls_override env) (kTLS c)\<rparr> \<and>
   applyEnvOverrides gateway_conf env g =
     g\<lparr>gClerk := clerk_override env (gClerk g), gTLS := map_option (tls_override env) (gTLS g)\<rparr> \<and>
   applyEnvOverrides clerk_conf env k = k\<lparr>cTLS := map_option (tls_override env) (cTLS k)\<rparr> \<and>
   applyEnvOverrides kvserver_conf env (applyEnvOverrides kvserver_conf env c) = applyEnvOverrides kvserver_conf env c"
  by (simp add: kvconf.overrides gwconf.overrides clconf.overrides kvconf.override_idem
      kvserver_override_def [symmetric] gateway_override_def [symmetric] clerk_override_def [symmetric])

text \<open>
  C27: starting a server where there is no configuration file writes the defaults to the file and goes on with
  them and the environment, if the certificates they name are there; starting it again from the zero value reads
  the file back with the same result. A start that fails on the certificates leaves the file behind as well.
\<close>

theorem config_first_start:
  assumes "yaml_ok y zero_Kvserver (\<lambda>c. \<forall>t. kTLS c = Some t \<longrightarrow> \<not> skipFileCheck t)"
    and "yMarshal y DefaultKVServer = Some out"
    and "Stat d p = NotExist" "writeEnds d p = Written" "\<not> readFails d p"
    and "d' = d\<lparr>files := (files d)(p \<mapsto> out)\<rparr>"
  shows "Init kvserver_conf y env d p zero_Kvserver =
       (d', accepted kvserver_conf d' (kvserver_override env DefaultKVServer)) \<and>
     Init kvserver_conf y env d' p zero_Kvserver = Init kvserver_conf y env d p zero_Kvserver"
proof -
  have *: "fDefault kvserver_conf = DefaultKVServer"
    by (simp add: kvserver_conf_def)
  have "\<forall>t. kTLS DefaultKVServer = Some t \<longrightarrow> \<not> skipFileCheck t"
    by (simp add: DefaultKVServer_def zero_TLSConfig_def)
  then show ?thesis
    using kvconf.first_start [OF assms(1), unfolded *, OF _ assms(2-6)] by simp
qed

lemma demo_yaml_ok: "yaml_ok demo_yaml z (\<lambda>c. True)"
  by (simp add: yaml_ok_def demo_yaml_def)

lemma no_override [simp]: "kvserver_override (\<lambda>_. []) c = c"
proof -
  have "tls_override (\<lambda>_. []) = id" by (simp add: tls_override_def env_string_def env_bool_def fun_eq_iff)
  then show ?thesis by (simp add: kvserver_override_def option.map_id)
qed

theorem config_first_start_witness:
  "Init kvserver_conf demo_yaml (\<lambda>_. []) demo_disk ''config.yml'' zero_Kvserver =
     (demo_disk\<lparr>files := (files demo_disk)(''config.yml'' \<mapsto> ''default'')\<rparr>, Inr DefaultKVServer) \<and>
   Init kvserver_conf demo_yaml (\<lambda>_. []) (demo_disk\<lparr>files := (files demo_disk)(''config.yml'' \<mapsto> ''default'')\<rparr>) ''config.yml''
     zero_Kvserver = Init kvserver_conf demo_yaml (\<lambda>_. []) demo_disk ''config.yml'' zero_Kvserver"
proof -
  let ?d = "demo_disk\<lparr>files := (files demo_disk)(''config.yml'' \<mapsto> ''default'')\<rparr>"
  have "accepted kvserver_conf ?d DefaultKVServer = Inr DefaultKVServer"
    by (simp add: accepted_def kvserver_conf_def kvserver_Validate_def tls_Validate_None_iff DefaultKVServer_def
        zero_TLSConfig_def checkFileExists_None_iff Stat_def demo_disk_def)
  moreover have "yaml_ok demo_yaml zero_Kvserver (\<lambda>c. \<forall>t. kTLS c = Some t \<longrightarrow> \<not> skipFileCheck t)"
    using demo_yaml_ok [of zero_Kvserver] by (simp add: yaml_ok_def)
  ultimately show ?thesis
    using config_first_start [of demo_yaml "''default''" demo_disk "''config.yml''" ?d "\<lambda>_. []"]
    by (simp add: demo_yaml_def demo_disk_def Stat_def)
qed

end
