(* ===== verification/Tls.thy ===== *)
theory Tls
  imports Config
begin

text \<open>
  Certificates and transport security: the package \<^verbatim>\<open>src/pkg/tls\<close>, and what the server
  (\<^verbatim>\<open>StartKVServer\<close>), the gateway (\<^verbatim>\<open>Run\<close>) and the clients (\<^verbatim>\<open>NewKvConn\<close>) hand to \<^verbatim>\<open>crypto/tls\<close>.

  Parsing certificates and verifying them is \<^verbatim>\<open>crypto/x509\<close>, a parameter: \<open>X509KeyPair\<close> and
  \<open>AppendCertsFromPEM\<close> on the contents of files, and whether the certificates of a pool verify a certificate.
  Which handshakes succeed is written down from the documentation of the fields of \<^verbatim>\<open>tls.Config\<close>.
\<close>

section \<open>Definitions\<close>

subsection \<open>The standard library\<close>

record ('cert, 'pool) x509 =
  X509KeyPair :: "bytes \<Rightarrow> bytes \<Rightarrow> 'cert option"
  AppendCertsFromPEM :: "bytes \<Rightarrow> 'pool option"
  verifies :: "'pool \<Rightarrow> 'cert \<Rightarrow> bool"

definition LoadX509KeyPair :: "('cert, 'pool) x509 \<Rightarrow> disk \<Rightarrow> string \<Rightarrow> string \<Rightarrow> 'cert option" where
  "LoadX509KeyPair X d certFile keyFile =
     (case ReadFile d certFile of
        None \<Rightarrow> None
      | Some c \<Rightarrow> (case ReadFile d keyFile of None \<Rightarrow> None | Some k \<Rightarrow> X509KeyPair X c k))"

text \<open>\<^verbatim>\<open>tls.Config\<close>: a nil pool is \<open>None\<close>, \<open>tClientAuth\<close> is \<^verbatim>\<open>RequireAndVerifyClientCert\<close> against \<^verbatim>\<open>NoClientCert\<close>.\<close>

record ('cert, 'pool) tls_config =
  tCertificates :: "'cert list"
  tClientCAs :: "'pool option"
  tRootCAs :: "'pool option"
  tClientAuth :: bool
  tServerName :: string
  tMinVersion :: "16 word"
  tMaxVersion :: "16 word"
  tInsecureSkipVerify :: bool
  tNextProtos :: "string list"

definition zero_tls_config :: "('cert, 'pool) tls_config" where
  "zero_tls_config = \<lparr>tCertificates = [], tClientCAs = None, tRootCAs = None, tClientAuth = False, tServerName = [],
     tMinVersion = 0, tMaxVersion = 0, tInsecureSkipVerify = False, tNextProtos = []\<rparr>"

definition VersionTLS10 :: "16 word" where "VersionTLS10 = 0x0301"
definition VersionTLS11 :: "16 word" where "VersionTLS11 = 0x0302"
definition VersionTLS12 :: "16 word" where "VersionTLS12 = 0x0303"
definition VersionTLS13 :: "16 word" where "VersionTLS13 = 0x0304"

text \<open>The versions a configuration supports; a minimum of 0 is TLS 1.2, a maximum of 0 is the newest version.\<close>

definition supportedVersions :: "('cert, 'pool) tls_config \<Rightarrow> (16 word) list" where
  "supportedVersions t =
     filter (\<lambda>v. (if tMinVersion t = 0 then VersionTLS12 else tMinVersion t) \<le> v \<and> (tMaxVersion t = 0 \<or> v \<le> tMaxVersion t))
       [VersionTLS13, VersionTLS12, VersionTLS11, VersionTLS10]"

text \<open>
  Whether a handshake can succeed: a version in common, a certificate of the server that the client accepts, and,
  if the server requires it, a certificate of the client that the server's pool verifies. A server without a pool
  uses the one of the host, \<open>host\<close>; so does a client. The name in the certificate is not looked at here.
\<close>

definition handshake :: "('cert, 'pool) x509 \<Rightarrow> 'pool \<Rightarrow> ('cert, 'pool) tls_config \<Rightarrow> ('cert, 'pool) tls_config \<Rightarrow> bool" where
  "handshake X host server client \<longleftrightarrow>
     list_ex (\<lambda>v. v \<in> set (supportedVersions client)) (supportedVersions server) \<and>
     tCertificates server \<noteq> [] \<and>
     (tInsecureSkipVerify client \<or>
        verifies X (case tRootCAs client of None \<Rightarrow> host | Some p \<Rightarrow> p) (hd (tCertificates server))) \<and>
     (tClientAuth server \<longrightarrow> tCertificates client \<noteq> [] \<and>
        verifies X (case tClientCAs server of None \<Rightarrow> host | Some p \<Rightarrow> p) (hd (tCertificates client)))"

subsection \<open>pkg/tls\<close>

definition parseTLSVersion :: "string \<Rightarrow> string + 16 word" where
  "parseTLSVersion version =
     (if version = [] then Inr VersionTLS12
      else if version = ''1.0'' then Inr VersionTLS10
      else if version = ''1.1'' then Inr VersionTLS11
      else if version = ''1.2'' then Inr VersionTLS12
      else if version = ''1.3'' then Inr VersionTLS13
      else Inl (''unsupported TLS version: '' @ version))"

definition resolvePath :: "string \<Rightarrow> string \<Rightarrow> string" where
  "resolvePath certPath basePath = (if IsAbs certPath then certPath else filepath_Join [basePath, certPath])"

text \<open>A call that may fail, and the error wrapped in the message of its caller.\<close>

definition orFail :: "string \<Rightarrow> 'a option \<Rightarrow> string + 'a" where
  "orFail msg v = (case v of None \<Rightarrow> Inl msg | Some x \<Rightarrow> Inr x)"

definition wrapFail :: "string \<Rightarrow> string + 'a \<Rightarrow> string + 'a" where
  "wrapFail msg v = (case v of Inl e \<Rightarrow> Inl (msg @ e) | Inr x \<Rightarrow> Inr x)"

definition LoadTLSConfig ::
  "('cert, 'pool) x509 \<Rightarrow> disk \<Rightarrow> TLSConfig option \<Rightarrow> string \<Rightarrow> string + ('cert, 'pool) tls_config option" where
  "LoadTLSConfig X d config basePath =
     (case config of
        None \<Rightarrow> Inr None
      | Some c \<Rightarrow>
          res_bind (orFail ''failed to load certificate''
              (LoadX509KeyPair X d (resolvePath (CertFile c) basePath) (resolvePath (KeyFile c) basePath))) (\<lambda>certificate.
          res_bind (orFail ''failed to read CA certificate'' (ReadFile d (resolvePath (CAFile c) basePath))) (\<lambda>caCert.
          res_bind (orFail ''failed to append CA certificate to pool'' (AppendCertsFromPEM X caCert)) (\<lambda>certPool.
          res_bind (wrapFail ''invalid min TLS version: '' (parseTLSVersion (MinVersion c))) (\<lambda>minVersion.
          res_bind (wrapFail ''invalid max TLS version: '' (parseTLSVersion (MaxVersion c))) (\<lambda>maxVersion.
            Inr (Some (zero_tls_config\<lparr>tCertificates := [certificate], tClientCAs := Some certPool,
              tClientAuth := ClientAuth c, tMinVersion := minVersion, tMaxVersion := maxVersion,
              tInsecureSkipVerify := InsecureSkipVerify c\<rparr>))))))))"

definition LoadClientTLSConfig ::
  "('cert, 'pool) x509 \<Rightarrow> disk \<Rightarrow> TLSConfig option \<Rightarrow> string \<Rightarrow> string + ('cert, 'pool) tls_config option" where
  "LoadClientTLSConfig X d config basePath =
     (case config of
        None \<Rightarrow> Inr None
      | Some c \<Rightarrow>
          res_bind (orFail ''failed to load client certificate''
              (LoadX509KeyPair X d (resolvePath (CertFile c) basePath) (resolvePath (KeyFile c) basePath))) (\<lambda>certificate.
          res_bind (orFail ''failed to read CA certificate'' (ReadFile d (resolvePath (CAFile c) basePath))) (\<lambda>caCert.
          res_bind (orFail ''failed to append CA certificate to pool'' (AppendCertsFromPEM X caCert)) (\<lambda>certPool.
          res_bind (wrapFail ''invalid min TLS version: '' (parseTLSVersion (MinVersion c))) (\<lambda>minVersion.
          res_bind (wrapFail ''invalid max TLS version: '' (parseTLSVersion (MaxVersion c))) (\<lambda>maxVersion.
            Inr (Some (zero_tls_config\<lparr>tCertificates := [certificate], tRootCAs := Some certPool,
              tMinVersion := minVersion, tMaxVersion := maxVersion,
              tInsecureSkipVerify := InsecureSkipVerify c\<rparr>))))))))"

subsection \<open>Client, server and gateway\<close>

text \<open>
  The credentials of \<^verbatim>\<open>NewKvConn\<close>; \<open>None\<close> is where it gives up and returns nil. They are made from the files as
  named, and with verification switched off.
\<close>

definition kvconn_creds :: "('cert, 'pool) x509 \<Rightarrow> disk \<Rightarrow> TLSConfig option \<Rightarrow> ('cert, 'pool) tls_config option" where
  "kvconn_creds X d t =
     (if t \<noteq> None \<and> IsEnabled t then
        (case LoadX509KeyPair X d (CertFile (the t)) (KeyFile (the t)) of
           None \<Rightarrow> None
         | Some certificate \<Rightarrow>
             (case ReadFile d (CAFile (the t)) of
                None \<Rightarrow> None
              | Some ca \<Rightarrow>
                  (case AppendCertsFromPEM X ca of
                     None \<Rightarrow> None
                   | Some certPool \<Rightarrow>
                       Some (zero_tls_config\<lparr>tCertificates := [certificate], tRootCAs := Some certPool,
                         tServerName := ''localhost'', tMinVersion := VersionTLS12, tInsecureSkipVerify := True\<rparr>))))
      else Some (zero_tls_config\<lparr>tInsecureSkipVerify := True\<rparr>))"

definition certs_dir :: string where
  "certs_dir = ''/home/wanggang/firEtcd/pkg/tls/certs/''"

text \<open>The credentials of \<^verbatim>\<open>StartKVServer\<close> and of \<^verbatim>\<open>Run\<close>: a failure ends the process.\<close>

definition serving_creds ::
  "('cert, 'pool) x509 \<Rightarrow> disk \<Rightarrow> string \<Rightarrow> string list \<Rightarrow> ('cert, 'pool) tls_config res" where
  "serving_creds X d name protos =
     (case LoadX509KeyPair X d (certs_dir @ name @ ''.crt'') (certs_dir @ name @ ''.key'') of
        None \<Rightarrow> Inl LoggerFatal
      | Some certificate \<Rightarrow>
          (case ReadFile d (certs_dir @ ''ca.crt'') of
             None \<Rightarrow> Inl LoggerFatal
           | Some ca \<Rightarrow>
               (case AppendCertsFromPEM X ca of
                  None \<Rightarrow> Inl LoggerFatal
                | Some certPool \<Rightarrow>
                    Inr (zero_tls_config\<lparr>tCertificates := [certificate], tClientCAs := Some certPool,
                      tClientAuth := True, tMinVersion := VersionTLS12, tNextProtos := protos\<rparr>))))"

definition server_creds :: "('cert, 'pool) x509 \<Rightarrow> disk \<Rightarrow> ('cert, 'pool) tls_config res" where
  "server_creds X d = serving_creds X d ''server'' [''h2'']"

definition gateway_creds :: "('cert, 'pool) x509 \<Rightarrow> disk \<Rightarrow> ('cert, 'pool) tls_config res" where
  "gateway_creds X d = serving_creds X d ''gateway'' []"

text \<open>An authority that has signed two certificates, and the files of a server and a client, for the witness.\<close>

definition demo_x509 :: "(bytes, bytes) x509" where
  "demo_x509 = \<lparr>X509KeyPair = (\<lambda>c k. if k = ''key'' then Some c else None), AppendCertsFromPEM = (\<lambda>b. if b = [] then None else Some b),
     verifies = (\<lambda>pool cert. pool = ''ca'' \<and> cert \<in> {''server'', ''client''})\<rparr>"

definition demo_certs :: disk where
  "demo_certs = demo_disk\<lparr>files := map_of
     [(certs_dir @ ''server.crt'', ''server''), (certs_dir @ ''server.key'', ''key''), (certs_dir @ ''ca.crt'', ''ca''),
      (''certs/client.crt'', ''client''), (''certs/client.key'', ''key''), (''certs/ca.crt'', ''ca'')]\<rparr>"

definition demo_tls :: TLSConfig where
  "demo_tls = DefaultTLSConfig\<lparr>CertFile := ''certs/client.crt'', KeyFile := ''certs/client.key''\<rparr>"

section \<open>Lemmas\<close>

lemmas tls_versions = VersionTLS10_def VersionTLS11_def VersionTLS12_def VersionTLS13_def

lemma parse_valid:
  assumes "v = [] \<or> isValidTLSVersion v"
  shows "\<exists>w. parseTLSVersion v = Inr w \<and> VersionTLS10 \<le> w \<and> w \<le> VersionTLS13"
  using assms by (auto simp: parseTLSVersion_def isValidTLSVersion_def tls_versions)

lemma orFail_Inr_iff [res_simps]: "orFail m v = Inr x \<longleftrightarrow> v = Some x"
  by (auto simp: orFail_def split: option.splits)

lemma wrapFail_Inr_iff [res_simps]: "wrapFail m v = Inr x \<longleftrightarrow> v = Inr x"
  by (auto simp: wrapFail_def split: sum.splits)

lemma LoadTLSConfig_loads:
  assumes "LoadX509KeyPair X d (resolvePath (CertFile c) base) (resolvePath (KeyFile c) base) = Some cert"
    "ReadFile d (resolvePath (CAFile c) base) = Some ca" "AppendCertsFromPEM X ca = Some pool"
    "parseTLSVersion (MinVersion c) = Inr lo" "parseTLSVersion (MaxVersion c) = Inr hi"
  shows "LoadTLSConfig X d (Some c) base = Inr (Some (zero_tls_config\<lparr>tCertificates := [cert], tClientCAs := Some pool,
     tClientAuth := ClientAuth c, tMinVersion := lo, tMaxVersion := hi, tInsecureSkipVerify := InsecureSkipVerify c\<rparr>))"
  using assms by (simp add: LoadTLSConfig_def orFail_def wrapFail_def)

lemma server_creds_Inr:
  assumes "server_creds X d = Inr s"
  obtains cert ca pool where "LoadX509KeyPair X d (certs_dir @ ''server.crt'') (certs_dir @ ''server.key'') = Some cert"
    "ReadFile d (certs_dir @ ''ca.crt'') = Some ca" "AppendCertsFromPEM X ca = Some pool"
    "s = zero_tls_config\<lparr>tCertificates := [cert], tClientCAs := Some pool, tClientAuth := True, tMinVersion := VersionTLS12,
       tNextProtos := [''h2'']\<rparr>"
  using assms by (auto simp: server_creds_def serving_creds_def split: option.splits)

text \<open>Two configurations from TLS 1.2 on without a maximum have TLS 1.3 in common.\<close>

lemma modern_versions:
  assumes "tMinVersion t \<in> {0, VersionTLS12}" "tMaxVersion t = 0"
  shows "supportedVersions t = [VersionTLS13, VersionTLS12]"
  using assms by (auto simp: supportedVersions_def tls_versions)

lemma supported_empty_iff:
  assumes "tMinVersion t \<in> {VersionTLS10, VersionTLS11, VersionTLS12, VersionTLS13}"
    "tMaxVersion t \<in> {VersionTLS10, VersionTLS11, VersionTLS12, VersionTLS13}"
  shows "supportedVersions t = [] \<longleftrightarrow> tMaxVersion t < tMinVersion t"
  using assms unfolding insert_iff empty_iff
  by (elim disjE) (simp_all add: supportedVersions_def tls_versions)

lemma parse_range: "parseTLSVersion v = Inr w \<Longrightarrow> w \<in> {VersionTLS10, VersionTLS11, VersionTLS12, VersionTLS13}"
  by (auto simp: parseTLSVersion_def split: if_splits)

lemma kvconn_creds_enabled:
  assumes "kvconn_creds X d t = Some k" "IsEnabled t"
  obtains c cert ca pool where "t = Some c" "LoadX509KeyPair X d (CertFile c) (KeyFile c) = Some cert"
    "ReadFile d (CAFile c) = Some ca" "AppendCertsFromPEM X ca = Some pool"
    "k = zero_tls_config\<lparr>tCertificates := [cert], tRootCAs := Some pool, tServerName := ''localhost'',
       tMinVersion := VersionTLS12, tInsecureSkipVerify := True\<rparr>"
  using assms by (cases t) (auto simp: kvconn_creds_def IsEnabled_def split: option.splits if_splits)

lemma kvconn_creds_disabled:
  "kvconn_creds X d t = Some k \<Longrightarrow> \<not> IsEnabled t \<Longrightarrow> k = zero_tls_config\<lparr>tInsecureSkipVerify := True\<rparr>"
  by (simp add: kvconn_creds_def)

section \<open>Properties\<close>

text \<open>
  A validated TLS section never fails to load for its versions: when the certificate, its key and the CA are there,
  \<^verbatim>\<open>LoadTLSConfig\<close> gives a configuration with them, with the client authentication asked for, and versions
  between TLS 1.0 and 1.3. It supports no version at all exactly when the maximum is below the minimum, which
  \<^verbatim>\<open>Validate\<close> does not look at.
\<close>

theorem validated_tls_loads:
  assumes "tls_Validate d (Some c) = None" "IsEnabled (Some c)"
    and "LoadX509KeyPair X d (resolvePath (CertFile c) base) (resolvePath (KeyFile c) base) = Some cert"
    and "ReadFile d (resolvePath (CAFile c) base) = Some ca" "AppendCertsFromPEM X ca = Some pool"
  shows "\<exists>t. LoadTLSConfig X d (Some c) base = Inr (Some t) \<and> tCertificates t = [cert] \<and> tClientCAs t = Some pool \<and>
     tClientAuth t = ClientAuth c \<and> VersionTLS10 \<le> tMinVersion t \<and> tMinVersion t \<le> VersionTLS13 \<and>
     VersionTLS10 \<le> tMaxVersion t \<and> tMaxVersion t \<le> VersionTLS13 \<and>
     (supportedVersions t = [] \<longleftrightarrow> tMaxVersion t < tMinVersion t)"
proof -
  have "v = [] \<or> isValidTLSVersion v" if "v \<in> {MinVersion c, MaxVersion c}" for v
    using assms(1,2) that by (auto simp: tls_Validate_None_iff)
  then obtain lo hi where v: "parseTLSVersion (MinVersion c) = Inr lo" "VersionTLS10 \<le> lo" "lo \<le> VersionTLS13"
    "parseTLSVersion (MaxVersion c) = Inr hi" "VersionTLS10 \<le> hi" "hi \<le> VersionTLS13"
    using parse_valid [of "MinVersion c"] parse_valid [of "MaxVersion c"] by auto
  let ?t = "zero_tls_config\<lparr>tCertificates := [cert], tClientCAs := Some pool, tClientAuth := ClientAuth c, tMinVersion := lo,
    tMaxVersion := hi, tInsecureSkipVerify := InsecureSkipVerify c\<rparr>"
  have "supportedVersions ?t = [] \<longleftrightarrow> tMaxVersion ?t < tMinVersion ?t"
    by (rule supported_empty_iff) (use parse_range v(1,4) in simp_all)
  with v show ?thesis by (intro exI [of _ ?t]) (simp add: LoadTLSConfig_loads [OF assms(3-5) v(1) v(4)])
qed

text \<open>
  A TLS section with minimum version 1.3 and no maximum passes \<^verbatim>\<open>Validate\<close> and loads, as the maximum is taken
  for TLS 1.2; no client ever completes a handshake with it.
\<close>

theorem min_version_13_refuses_all:
  assumes "MinVersion c = ''1.3''" "MaxVersion c = []" "LoadTLSConfig X d (Some c) base = Inr (Some t)"
  shows "\<not> handshake X host t client"
proof -
  have "tMinVersion t = VersionTLS13 \<and> tMaxVersion t = VersionTLS12"
    using assms by (auto simp: LoadTLSConfig_def res_simps parseTLSVersion_def)
  then have "supportedVersions t = []"
    by (simp add: supportedVersions_def tls_versions)
  then show ?thesis by (simp add: handshake_def)
qed

text \<open>
  C26: who can talk to a server: a client whose connection the code has set up completes the handshake with a server
  exactly when its TLS section is enabled and the server's CA verifies the certificate that section names, whatever
  certificate the server has and whatever the section says of versions and verification. A client without a TLS
  section, or with an incomplete one, never does.
\<close>

theorem client_handshake:
  assumes "server_creds X d = Inr s" "kvconn_creds X d' t = Some k"
  shows "handshake X host s k \<longleftrightarrow> IsEnabled t \<and> (\<exists>c cert ca pool. t = Some c \<and>
     LoadX509KeyPair X d' (CertFile c) (KeyFile c) = Some cert \<and>
     ReadFile d (certs_dir @ ''ca.crt'') = Some ca \<and> AppendCertsFromPEM X ca = Some pool \<and> verifies X pool cert)"
proof -
  obtain cert ca pool where s: "ReadFile d (certs_dir @ ''ca.crt'') = Some ca" "AppendCertsFromPEM X ca = Some pool"
    "s = zero_tls_config\<lparr>tCertificates := [cert], tClientCAs := Some pool, tClientAuth := True, tMinVersion := VersionTLS12,
       tNextProtos := [''h2'']\<rparr>"
    using server_creds_Inr [OF assms(1)] by metis
  show ?thesis
  proof (cases "IsEnabled t")
    case True
    then obtain c crt p where k: "t = Some c" "LoadX509KeyPair X d' (CertFile c) (KeyFile c) = Some crt"
      "k = zero_tls_config\<lparr>tCertificates := [crt], tRootCAs := Some p, tServerName := ''localhost'',
       tMinVersion := VersionTLS12, tInsecureSkipVerify := True\<rparr>"
      using kvconn_creds_enabled [OF assms(2)] by metis
    with s True show ?thesis by (simp add: handshake_def modern_versions zero_tls_config_def)
  next
    case False
    with s kvconn_creds_disabled [OF assms(2)] show ?thesis by (simp add: handshake_def zero_tls_config_def)
  qed
qed

lemmas demo_tls_defs = demo_x509_def demo_certs_def demo_disk_def demo_tls_def DefaultTLSConfig_def zero_TLSConfig_def
  certs_dir_def LoadX509KeyPair_def ReadFile_def IsEnabled_def

theorem client_handshake_witness:
  "\<exists>s k k'. server_creds demo_x509 demo_certs = Inr s \<and> kvconn_creds demo_x509 demo_certs (Some demo_tls) = Some k \<and>
     kvconn_creds demo_x509 demo_certs None = Some k' \<and> handshake demo_x509 [] s k \<and> \<not> handshake demo_x509 [] s k'"
proof -
  obtain s k k' where c: "server_creds demo_x509 demo_certs = Inr s" "kvconn_creds demo_x509 demo_certs (Some demo_tls) = Some k"
    "kvconn_creds demo_x509 demo_certs None = Some k'"
    by (simp add: server_creds_def serving_creds_def kvconn_creds_def demo_tls_defs)
  have "handshake demo_x509 [] s k"
    unfolding client_handshake [OF c(1,2)] by (simp add: demo_tls_defs)
  moreover have "\<not> handshake demo_x509 [] s k'"
    unfolding client_handshake [OF c(1,3)] by (simp add: IsEnabled_def)
  ultimately show ?thesis using c by blast
qed

end
