(* ===== verification/Types.thy ===== *)
theory Types
  imports Prelude
begin

text \<open>
  The data the components exchange: the stored entries of \<^verbatim>\<open>src/common/common.go\<close>, the replicated
  operation \<^verbatim>\<open>Op\<close> of \<^verbatim>\<open>src/raft/common.go\<close>, and the messages of \<^verbatim>\<open>src/proto/pb\<close> that the Raft
  and key-value services send (their generated accessors and registration are not modelled).
\<close>

section \<open>Stored data\<close>

record entry =
  Value :: bytes
  DeadTime :: int

record pair =
  PairKey :: string
  PairEntry :: entry

text \<open>\<^verbatim>\<open>StringToBytes\<close> and \<^verbatim>\<open>BytesToString\<close> reinterpret the same memory.\<close>

definition StringToBytes :: "string \<Rightarrow> bytes" where "StringToBytes s = s"

definition BytesToString :: "bytes \<Rightarrow> string" where "BytesToString b = b"

section \<open>Operations\<close>

text \<open>\<^verbatim>\<open>pb.OpType\<close>; an \<^verbatim>\<open>int32\<close> that is none of its values is \<open>OtherT\<close>.\<close>

datatype optype = GetT | PutT | AppendT | DelT | DelWithPrefixT | BatchT | CAST | EmptyT
  | GetKeysT | GetKVsT | OtherT int

record op =
  ClientId :: int
  Offset :: "32 word"
  OpType :: optype
  Key :: string
  OriValue :: bytes
  OpEntry :: entry
  LeaseId :: int

definition zero_entry :: entry where
  "zero_entry = \<lparr>Value = [], DeadTime = 0\<rparr>"

definition empty_op :: op where
  "empty_op = \<lparr>ClientId = 0, Offset = 0, OpType = EmptyT, Key = [], OriValue = [],
     OpEntry = zero_entry, LeaseId = 0\<rparr>"

text \<open>\<^verbatim>\<open>unsafe.Sizeof\<close> of an \<^verbatim>\<open>Op\<close> and of an \<^verbatim>\<open>Entry\<close> on a 64-bit machine, and \<^verbatim>\<open>Op.Size\<close>.\<close>

definition sizeof_Op :: nat where "sizeof_Op = 8 + 4 + 4 + 16 + 24 + (24 + 8) + 8"

definition sizeof_Entry :: nat where "sizeof_Entry = 24 + 8"

definition op_Size :: "op \<Rightarrow> nat" where
  "op_Size o' = sizeof_Op + length (Key o') + sizeof_Entry + length (Value (OpEntry o'))"

text \<open>\<^verbatim>\<open>Op.Marshal\<close> and \<^verbatim>\<open>Op.Unmarshal\<close>; a decoding failure ends the process.\<close>

definition op_Marshal :: "op codec \<Rightarrow> op \<Rightarrow> bytes" where
  "op_Marshal c o' = enc c o'"

definition op_Unmarshal :: "op codec \<Rightarrow> bytes \<Rightarrow> op res" where
  "op_Unmarshal c d = (case dec c d of None \<Rightarrow> Inl LoggerFatal | Some o' \<Rightarrow> Inr o')"

section \<open>Raft messages\<close>

record log_type =
  LogTerm :: int
  LogValue :: bytes

record rv_args =
  rvTerm :: int
  rvCandidateId :: int
  rvLastLogIndex :: int
  rvLastLogTerm :: int

record rv_reply =
  rvrTerm :: int
  rvrVoteGranted :: bool

record ae_args =
  aeTerm :: int
  aeLeaderId :: int
  aePrevLogIndex :: int
  aePrevLogTerm :: int
  aeLeaderCommit :: int
  aeEntries :: "log_type list"

record ae_reply =
  aerTerm :: int
  aerSuccess :: bool
  aerConflictIndex :: int
  aerConflictTerm :: int

record si_args =
  siTerm :: int
  siLeaderId :: int
  siLastIncludeIndex :: int
  siLastIncludeTerm :: int
  siData :: bytes

record si_reply =
  sirTerm :: int

section \<open>Properties\<close>

lemma op_marshal_unmarshal [simp]: "codec_ok c \<Longrightarrow> op_Unmarshal c (op_Marshal c o') = Inr o'"
  by (simp add: op_Unmarshal_def op_Marshal_def)

text \<open>The types the codecs are used at are countable, so codecs exist for the witnesses.\<close>

instance optype :: countable
  by countable_datatype

instance entry_ext :: (countable) countable
proof (rule countable_classI [of "\<lambda>e. to_nat (Value e, DeadTime e, entry.more e)"])
  fix x y :: "'a entry_scheme"
  assume "to_nat (Value x, DeadTime x, entry.more x) = to_nat (Value y, DeadTime y, entry.more y)"
  then show "x = y" by (cases x; cases y) simp
qed

instance pair_ext :: (countable) countable
proof (rule countable_classI [of "\<lambda>p. to_nat (PairKey p, PairEntry p, pair.more p)"])
  fix x y :: "'a pair_scheme"
  assume "to_nat (PairKey x, PairEntry x, pair.more x) = to_nat (PairKey y, PairEntry y, pair.more y)"
  then show "x = y" by (cases x; cases y) simp
qed

instance op_ext :: (countable) countable
proof (rule countable_classI [of "\<lambda>r. to_nat ((ClientId r, unat (Offset r), OpType r), (Key r, OriValue r), (OpEntry r, LeaseId r, op.more r))"])
  fix x y :: "'a op_scheme"
  assume "to_nat ((ClientId x, unat (Offset x), OpType x), (Key x, OriValue x), (OpEntry x, LeaseId x, op.more x))
    = to_nat ((ClientId y, unat (Offset y), OpType y), (Key y, OriValue y), (OpEntry y, LeaseId y, op.more y))"
  then show "x = y" by (cases x; cases y) (simp add: word_unat_eq_iff)
qed

instance log_type_ext :: (countable) countable
proof (rule countable_classI [of "\<lambda>e. to_nat (LogTerm e, LogValue e, log_type.more e)"])
  fix x y :: "'a log_type_scheme"
  assume "to_nat (LogTerm x, LogValue x, log_type.more x) = to_nat (LogTerm y, LogValue y, log_type.more y)"
  then show "x = y" by (cases x; cases y) simp
qed

end
