(* ===== verification/Wal.thy ===== *)
theory Wal
  imports Prelude
begin

text \<open>
  The write-ahead log, \<^verbatim>\<open>src/pkg/wal/wal.go\<close>, down to its bytes: the record header with its
  big-endian length and CRC-32, the directory with one inode per file (so that a file removed
  while it is open keeps receiving writes nobody can read back), and the operations
  \<^verbatim>\<open>Open\<close>, \<^verbatim>\<open>Create\<close>, \<^verbatim>\<open>Write\<close>, \<^verbatim>\<open>ReadAll\<close>, \<^verbatim>\<open>Truncate\<close>, \<^verbatim>\<open>Close\<close> and \<^verbatim>\<open>Size\<close>. The operating
  system either serves a call or fails it (\<open>io_fail\<close>); a failed write leaves the file as it was.
  \<^verbatim>\<open>src/raft/wal.go\<close> is an unused copy of the same code whose \<^verbatim>\<open>Open\<close> also creates the directory.
\<close>

unbundle bit_operations_syntax

section \<open>Definitions\<close>

subsection \<open>CRC-32 and integers on the wire\<close>

text \<open>\<^verbatim>\<open>hash/crc32\<close> with the IEEE polynomial: the running sum and one \<^verbatim>\<open>Write\<close> of bytes.\<close>

definition crc_bit :: "32 word \<Rightarrow> 32 word" where
  "crc_bit c = (if bit c 0 then drop_bit 1 c XOR 0xEDB88320 else drop_bit 1 c)"

definition crc_byte :: "32 word \<Rightarrow> char \<Rightarrow> 32 word" where
  "crc_byte c b = (crc_bit ^^ 8) (c XOR of_char b)"

definition crc_write :: "32 word \<Rightarrow> bytes \<Rightarrow> 32 word" where
  "crc_write c bs = NOT (fold (\<lambda>b c. crc_byte c b) bs (NOT c))"

text \<open>\<^verbatim>\<open>binary.BigEndian\<close>: four bytes of a \<^verbatim>\<open>uint32\<close>, most significant first.\<close>

definition put_uint32 :: "32 word \<Rightarrow> bytes" where
  "put_uint32 w = map (\<lambda>k. char_of (unat (drop_bit (8 * k) w))) [3, 2, 1, 0]"

definition get_uint32 :: "bytes \<Rightarrow> 32 word" where
  "get_uint32 bs = foldl (\<lambda>w b. push_bit 8 w OR of_char b) 0 bs"

subsection \<open>Files\<close>

datatype wal_error = ErrCorrupt | ErrNotFound | ErrClosed | ErrEOF | ErrUnexpectedEOF | ErrIO

datatype dirent = RegFile nat | SubDir

text \<open>
  The data directory of one node: its entries, the contents of the inodes, the next free inode,
  whether the directory exists, and whether the operating system fails the next call.
\<close>

record fs =
  dirents :: "(string \<times> dirent) list"
  inodes :: "nat \<Rightarrow> bytes"
  next_inode :: nat
  dir_exists :: bool
  io_fail :: bool

definition is_file :: "dirent \<Rightarrow> bool" where
  "is_file e = (case e of RegFile _ \<Rightarrow> True | SubDir \<Rightarrow> False)"

text \<open>\<^verbatim>\<open>os.ReadFile\<close>, \<^verbatim>\<open>os.WriteFile\<close> (create or truncate) and \<^verbatim>\<open>os.Remove\<close> on a name in the directory.\<close>

definition fs_read :: "fs \<Rightarrow> string \<Rightarrow> wal_error + bytes" where
  "fs_read f n =
     (if io_fail f then Inl ErrIO
      else case map_of (dirents f) n of
        Some (RegFile i) \<Rightarrow> Inr (inodes f i)
      | Some SubDir \<Rightarrow> Inl ErrIO
      | None \<Rightarrow> Inl ErrNotFound)"

definition fs_create :: "fs \<Rightarrow> string \<Rightarrow> fs" where
  "fs_create f n =
     f\<lparr>dirents := dirents f @ [(n, RegFile (next_inode f))],
       inodes := (inodes f)(next_inode f := []),
       next_inode := Suc (next_inode f)\<rparr>"

definition fs_write :: "fs \<Rightarrow> string \<Rightarrow> bytes \<Rightarrow> wal_error + fs" where
  "fs_write f n d =
     (if io_fail f \<or> \<not> dir_exists f then Inl ErrIO
      else case map_of (dirents f) n of
        Some (RegFile i) \<Rightarrow> Inr (f\<lparr>inodes := (inodes f)(i := d)\<rparr>)
      | Some SubDir \<Rightarrow> Inl ErrIO
      | None \<Rightarrow> Inr ((fs_create f n)\<lparr>inodes := (inodes f)(next_inode f := d)\<rparr>))"

definition fs_remove :: "fs \<Rightarrow> string \<Rightarrow> fs" where
  "fs_remove f n =
     (if io_fail f then f else f\<lparr>dirents := filter (\<lambda>p. fst p \<noteq> n) (dirents f)\<rparr>)"

subsection \<open>File names\<close>

definition hex_digit :: "nat \<Rightarrow> char" where
  "hex_digit n = char_of (if n < 10 then 48 + n else 87 + n)"

text \<open>\<^verbatim>\<open>fmt.Sprintf("%016x.wal", seq)\<close>.\<close>

definition hex16 :: "64 word \<Rightarrow> string" where
  "hex16 w = map (\<lambda>k. hex_digit (unat (drop_bit (4 * k) w) mod 16)) (rev [0..<16])"

definition seg_name :: "64 word \<Rightarrow> string" where
  "seg_name s = hex16 s @ ''.wal''"

definition hex_value :: "char \<Rightarrow> nat option" where
  "hex_value c =
     (let n = of_char c :: nat in
      if 48 \<le> n \<and> n \<le> 57 then Some (n - 48)
      else if 97 \<le> n \<and> n \<le> 102 then Some (n - 87)
      else if 65 \<le> n \<and> n \<le> 70 then Some (n - 55)
      else None)"

text \<open>
  \<^verbatim>\<open>fmt.Sscanf(name, "%x.wal", &seq)\<close>: the value of the leading hexadecimal digits; the variable
  keeps its old value when there is none or when it does not fit in 64 bits.
\<close>

definition sscanf_hex :: "string \<Rightarrow> 64 word \<Rightarrow> 64 word" where
  "sscanf_hex name old =
     (let ds = takeWhile (\<lambda>c. hex_value c \<noteq> None) (dropWhile (\<lambda>c. c = CHR '' '') name);
          v = foldl (\<lambda>a c. 16 * a + the (hex_value c)) 0 ds
      in if ds = [] \<or> v \<ge> 2 ^ 64 then old else of_nat v)"

subsection \<open>The log\<close>

text \<open>\<^verbatim>\<open>RecordType\<close> is a byte; these are the three the code writes.\<close>

definition RecordTypeEntry :: char where "RecordTypeEntry = CHR 0x01"

definition RecordTypeState :: char where "RecordTypeState = CHR 0x02"

definition RecordTypeSnapshot :: char where "RecordTypeSnapshot = CHR 0x03"

definition recordHeaderSize :: nat where "recordHeaderSize = 4 + 1 + 4"

text \<open>\<^verbatim>\<open>WAL\<close>: \<open>wfile\<close> is the inode \<^verbatim>\<open>file\<close> and \<^verbatim>\<open>writer\<close> append to, \<open>None\<close> once they are nil.\<close>

record wal =
  dir :: string
  wfile :: "nat option"
  seq :: "64 word"

definition listLogFiles :: "fs \<Rightarrow> wal_error + string list" where
  "listLogFiles f =
     (if io_fail f then Inl ErrIO
      else if \<not> dir_exists f then Inr []
      else Inr (sort (map fst (filter (\<lambda>(n, e). is_file e \<and> suffix ''.wal'' n) (dirents f)))))"

definition newLogFile :: "string \<Rightarrow> 64 word \<Rightarrow> fs \<Rightarrow> wal_error + wal \<times> fs" where
  "newLogFile d s f =
     (if io_fail f \<or> \<not> dir_exists f then Inl ErrIO
      else case map_of (dirents f) (seg_name s) of
        Some (RegFile i) \<Rightarrow> Inr (\<lparr>dir = d, wfile = Some i, seq = s\<rparr>, f)
      | Some SubDir \<Rightarrow> Inl ErrIO
      | None \<Rightarrow> Inr (\<lparr>dir = d, wfile = Some (next_inode f), seq = s\<rparr>, fs_create f (seg_name s)))"

definition wal_Open :: "string \<Rightarrow> fs \<Rightarrow> wal_error + wal \<times> fs" where
  "wal_Open d f =
     res_bind (listLogFiles f) (\<lambda>names.
       if names = [] then newLogFile d 1 f
       else case map_of (dirents f) (last names) of
         Some (RegFile i) \<Rightarrow> Inr (\<lparr>dir = d, wfile = Some i, seq = sscanf_hex (last names) 0\<rparr>, f)
       | _ \<Rightarrow> Inl ErrIO)"

definition wal_Create :: "string \<Rightarrow> fs \<Rightarrow> wal_error + wal \<times> fs" where
  "wal_Create d f = (if io_fail f then Inl ErrIO else wal_Open d (f\<lparr>dir_exists := True\<rparr>))"

text \<open>The bytes of one record: length, type, CRC over type and data, data.\<close>

definition wal_record :: "char \<Rightarrow> bytes \<Rightarrow> bytes" where
  "wal_record t d =
     put_uint32 (of_nat (1 + length d + 4)) @ [t]
       @ put_uint32 (crc_write (crc_write 0 [t]) d) @ d"

definition wal_Write :: "wal \<Rightarrow> char \<Rightarrow> bytes \<Rightarrow> fs \<Rightarrow> wal_error + fs" where
  "wal_Write w t d f =
     (case wfile w of
        None \<Rightarrow> Inl ErrClosed
      | Some i \<Rightarrow>
          if io_fail f then Inl ErrIO
          else Inr (f\<lparr>inodes := (inodes f)(i := inodes f i @ wal_record t d)\<rparr>))"

text \<open>
  The read loop of \<^verbatim>\<open>ReadAll\<close> over the bytes of one file: the length of the data the header
  at the front announces (modulo $2^{32}$), the check of its CRC, and the loop.
\<close>

definition dataLen :: "bytes \<Rightarrow> nat" where
  "dataLen bs = unat (get_uint32 (take 4 bs) - (1 + 4))"

definition crc_matches :: "bytes \<Rightarrow> bool" where
  "crc_matches bs \<longleftrightarrow>
     crc_write (crc_write 0 [bs ! 4]) (take (dataLen bs) (drop recordHeaderSize bs))
       = get_uint32 (take 4 (drop 5 bs))"

function read_records :: "bytes \<Rightarrow> wal_error + (char \<times> bytes) list" where
  "read_records bs =
     (if bs = [] then Inr []
      else if length bs < recordHeaderSize then Inl ErrUnexpectedEOF
      else if length bs < recordHeaderSize + dataLen bs
      then Inl (if length bs = recordHeaderSize then ErrEOF else ErrUnexpectedEOF)
      else if \<not> crc_matches bs then Inl ErrCorrupt
      else res_bind (read_records (drop (recordHeaderSize + dataLen bs) bs))
        (\<lambda>rs. Inr ((bs ! 4, take (dataLen bs) (drop recordHeaderSize bs)) # rs)))"
  by pat_completeness auto
termination
  by (relation "measure length") (auto simp: recordHeaderSize_def)

declare read_records.simps [simp del]

fun read_files :: "fs \<Rightarrow> string list \<Rightarrow> wal_error + (char \<times> bytes) list" where
  "read_files f [] = Inr []"
| "read_files f (n # ns) =
     res_bind (fs_read f n) (\<lambda>bs.
       res_bind (read_records bs) (\<lambda>rs.
         res_bind (read_files f ns) (\<lambda>rest. Inr (rs @ rest))))"

definition wal_ReadAll :: "wal \<Rightarrow> fs \<Rightarrow> wal_error + (char \<times> bytes) list" where
  "wal_ReadAll w f = res_bind (listLogFiles f) (read_files f)"

text \<open>The loop of \<^verbatim>\<open>Truncate\<close>; \<^verbatim>\<open>seq\<close> is declared outside it and survives a name that does not parse.\<close>

fun truncate_files :: "64 word \<Rightarrow> 64 word \<Rightarrow> string list \<Rightarrow> fs \<Rightarrow> fs" where
  "truncate_files lastIndex s [] f = f"
| "truncate_files lastIndex s (n # ns) f =
     (let s' = sscanf_hex n s
      in truncate_files lastIndex s' ns (if s' \<le> lastIndex then fs_remove f n else f))"

definition wal_Truncate :: "wal \<Rightarrow> 64 word \<Rightarrow> fs \<Rightarrow> wal_error + fs" where
  "wal_Truncate w lastIndex f =
     res_bind (listLogFiles f) (\<lambda>names. Inr (truncate_files lastIndex 0 names f))"

definition wal_Close :: "wal \<Rightarrow> fs \<Rightarrow> wal_error option \<times> wal" where
  "wal_Close w f =
     (case wfile w of
        None \<Rightarrow> (None, w)
      | Some i \<Rightarrow> (if io_fail f then Some ErrIO else None, w\<lparr>wfile := None\<rparr>))"

definition wal_Size :: "wal \<Rightarrow> fs \<Rightarrow> int" where
  "wal_Size w f =
     (case listLogFiles f of
        Inl _ \<Rightarrow> 0
      | Inr names \<Rightarrow>
          sum_list (map (\<lambda>n. case fs_read f n of Inl _ \<Rightarrow> 0 | Inr bs \<Rightarrow> int (length bs)) names))"

subsection \<open>Notions the lemmas use\<close>

text \<open>The sixteen hexadecimal digits of a sequence number as numbers, and the number digits denote.\<close>

definition nibbles :: "64 word \<Rightarrow> nat list" where
  "nibbles w = map (\<lambda>k. unat (drop_bit (4 * k) w) mod 16) (rev [0..<16])"

definition hex_val :: "nat list \<Rightarrow> nat" where
  "hex_val ds = foldl (\<lambda>a d. 16 * a + d) 0 ds"

text \<open>The segments of a directory, in the order \<^verbatim>\<open>listLogFiles\<close> returns them.\<close>

definition wal_names :: "fs \<Rightarrow> string list" where
  "wal_names f = sort (map fst (filter (\<lambda>(n, e). is_file e \<and> suffix ''.wal'' n) (dirents f)))"

text \<open>
  An open log in its directory: every \<^verbatim>\<open>.wal\<close> file is a segment named after its sequence number,
  no two entries share a name or an inode, and the log appends to the segment with the highest
  number.
\<close>

definition wal_wf :: "wal \<Rightarrow> fs \<Rightarrow> bool" where
  "wal_wf w f \<longleftrightarrow>
     dir_exists f \<and> distinct (map fst (dirents f)) \<and>
     (\<forall>(n, e) \<in> set (dirents f). suffix ''.wal'' n \<longrightarrow> (\<exists>s. n = seg_name s \<and> s \<le> seq w)) \<and>
     (\<forall>i. (\<exists>n. (n, RegFile i) \<in> set (dirents f)) \<longrightarrow> i < next_inode f) \<and>
     (\<forall>n n' i. (n, RegFile i) \<in> set (dirents f) \<longrightarrow> (n', RegFile i) \<in> set (dirents f) \<longrightarrow> n = n') \<and>
     (\<exists>i. wfile w = Some i \<and> (seg_name (seq w), RegFile i) \<in> set (dirents f))"

text \<open>The log as its clients see it: append one record, replay all, open again after a restart.\<close>

definition log_append :: "wal \<times> fs \<Rightarrow> char \<times> bytes \<Rightarrow> wal_error + wal \<times> fs" where
  "log_append s r = res_bind (wal_Write (fst s) (fst r) (snd r) (snd s)) (\<lambda>f. Inr (fst s, f))"

definition log_replay :: "wal \<times> fs \<Rightarrow> wal_error + (char \<times> bytes) list" where
  "log_replay s = wal_ReadAll (fst s) (snd s)"

definition log_reopen :: "wal \<times> fs \<Rightarrow> wal_error + wal \<times> fs" where
  "log_reopen s = wal_Open (dir (fst s)) (snd s)"

definition log_ok :: "wal \<times> fs \<Rightarrow> bool" where
  "log_ok s \<longleftrightarrow> wal_wf (fst s) (snd s) \<and> \<not> io_fail (snd s)"

definition log_fits :: "char \<times> bytes \<Rightarrow> bool" where
  "log_fits r \<longleftrightarrow> length (snd r) + 5 < 2 ^ 32"

text \<open>A directory that exists and is empty, and the log \<^verbatim>\<open>Open\<close> creates there.\<close>

definition empty_fs :: fs where
  "empty_fs = \<lparr>dirents = [], inodes = (\<lambda>_. []), next_inode = 0, dir_exists = True, io_fail = False\<rparr>"

definition fresh_fs :: fs where
  "fresh_fs = fs_create empty_fs (seg_name 1)"

definition fresh_wal :: "string \<Rightarrow> wal" where
  "fresh_wal d = \<lparr>dir = d, wfile = Some 0, seq = 1\<rparr>"

fun append_all :: "('s \<Rightarrow> 'r \<Rightarrow> 'e + 's) \<Rightarrow> 's \<Rightarrow> 'r list \<Rightarrow> 'e + 's" where
  "append_all wr s [] = Inr s"
| "append_all wr s (r # rs) = res_bind (wr s r) (\<lambda>s'. append_all wr s' rs)"

section \<open>The interface of a recoverable log\<close>

locale record_log =
  fixes wr :: "'s \<Rightarrow> 'r \<Rightarrow> 'e + 's"
    and replay :: "'s \<Rightarrow> 'e + 'r list"
    and ok :: "'s \<Rightarrow> bool"
    and fits :: "'r \<Rightarrow> bool"
  assumes wr_succeeds: "ok s \<Longrightarrow> fits r \<Longrightarrow> \<exists>s'. wr s r = Inr s' \<and> ok s'"
    and wr_replay: "ok s \<Longrightarrow> fits r \<Longrightarrow> replay s = Inr rs \<Longrightarrow> wr s r = Inr s'
      \<Longrightarrow> replay s' = Inr (rs @ [r])"
begin

lemma append_all_replay:
  "ok s \<Longrightarrow> list_all fits rs \<Longrightarrow> replay s = Inr old \<Longrightarrow>
   \<exists>s'. append_all wr s rs = Inr s' \<and> ok s' \<and> replay s' = Inr (old @ rs)"
proof (induction rs arbitrary: s old)
  case (Cons r rs)
  then obtain s1 where s1: "wr s r = Inr s1" "ok s1" using wr_succeeds [of s r] by auto
  with Cons.prems have "replay s1 = Inr (old @ [r])" by (auto intro: wr_replay)
  with Cons.IH [of s1 "old @ [r]"] Cons.prems s1 show ?case by simp
qed simp

end

locale recoverable_log = record_log +
  fixes reopen :: "'s \<Rightarrow> 'e + 's"
  assumes reopen_succeeds: "ok s \<Longrightarrow> \<exists>s'. reopen s = Inr s' \<and> ok s'"
    and reopen_replay: "ok s \<Longrightarrow> reopen s = Inr s' \<Longrightarrow> replay s' = replay s"
begin

lemma append_reopen_replay:
  assumes "ok s" "list_all fits rs" "replay s = Inr old" "append_all wr s rs = Inr s'"
  shows "\<exists>s''. reopen s' = Inr s'' \<and> ok s'' \<and> replay s'' = Inr (old @ rs)"
proof -
  from append_all_replay [OF assms(1-3)] assms(4) have s': "ok s'" "replay s' = Inr (old @ rs)" by auto
  from reopen_succeeds [OF s'(1)] obtain s'' where "reopen s' = Inr s''" "ok s''" by blast
  with reopen_replay [OF s'(1)] s'(2) show ?thesis by auto
qed

end

section \<open>Records\<close>

lemma bit_crc_bit_31: "bit (crc_bit c) 31 = bit c 0"
proof -
  have "\<not> bit (drop_bit 1 c) 31"
    using bit_imp_le_length [of c 32] by (auto simp: bit_drop_bit_eq)
  moreover have "bit (0xEDB88320 :: 32 word) 31" by simp
  ultimately show ?thesis by (simp add: crc_bit_def bit_xor_iff)
qed

lemma xor_right_cancel: "(a XOR c = b XOR c) = (a = b)" for a b c :: "'a::len word"
proof
  assume "a XOR c = b XOR c"
  then have "(a XOR c) XOR c = (b XOR c) XOR c" by simp
  then show "a = b" by (simp add: xor.assoc)
qed simp

lemma inj_crc_bit: "inj crc_bit"
proof (rule injI)
  fix a b assume eq: "crc_bit a = crc_bit b"
  then have 0: "bit a 0 = bit b 0" by (metis bit_crc_bit_31)
  have "drop_bit 1 a = drop_bit 1 b"
    using 0 eq by (cases "bit a 0") (simp_all add: crc_bit_def xor_right_cancel)
  then have s: "bit a (Suc n) = bit b (Suc n)" for n
    by (metis bit_drop_bit_eq comp_apply plus_1_eq_Suc)
  show "a = b"
  proof (rule bit_eqI)
    fix n show "bit a n = bit b n" using 0 s by (cases n) auto
  qed
qed

lemma of_char_word: "(of_char c :: 32 word) = of_nat (of_char c)"
  by (rule of_nat_of_char [symmetric])

lemma unat_of_char_word: "unat (of_char c :: 32 word) = of_char c"
proof -
  have "unat (of_char c :: 32 word) = of_char c mod 2 ^ 32" by (simp only: of_char_word unat_of_nat) simp
  moreover have "(of_char c :: nat) < 2 ^ 32" by (rule less_trans [OF nat_of_char_less_256]) simp
  ultimately show ?thesis by simp
qed

lemma inj_of_char_word: "(of_char a :: 32 word) = of_char b \<longleftrightarrow> a = b"
  by (metis unat_of_char_word of_char_eq_iff)

lemma bit_of_char_char_of:
  "bit (of_char (char_of (unat (drop_bit k (w :: 32 word)))) :: 32 word) n \<longleftrightarrow> n < 8 \<and> bit w (k + n)"
proof -
  have "(of_char (char_of (unat (drop_bit k w))) :: 32 word) = of_nat (unat (drop_bit k w) mod 256)"
    by (simp only: of_char_word of_char_of)
  also have "\<dots> = of_nat (take_bit 8 (unat (drop_bit k w)))"
    by (simp add: take_bit_eq_mod)
  also have "\<dots> = take_bit 8 (drop_bit k w)"
    by (simp add: take_bit_of_nat [symmetric] )
  finally show ?thesis by (simp add: bit_take_bit_iff bit_drop_bit_eq)
qed

lemma get_put_uint32 [simp]: "get_uint32 (put_uint32 w) = w"
proof (rule bit_eqI)
  fix n
  assume "possible_bit TYPE(32 word) n"
  then have "n < 32" by (simp add: possible_bit_word)
  then consider "n < 8" | "8 \<le> n" "n < 16" | "16 \<le> n" "n < 24" | "24 \<le> n" "n < 32" by linarith
  then show "bit (get_uint32 (put_uint32 w)) n = bit w n"
    using bit_of_char_char_of [of 0 w n]
    by cases (auto simp: get_uint32_def put_uint32_def bit_or_iff bit_push_bit_iff
        bit_of_char_char_of)
qed

lemma length_put_uint32 [simp]: "length (put_uint32 w) = 4"
  by (simp add: put_uint32_def)

lemma length_wal_record [simp]: "length (wal_record t d) = 9 + length d"
  by (simp add: wal_record_def)

lemma recordHeaderSize_9: "recordHeaderSize = 9"
  by (simp add: recordHeaderSize_def)

lemma unat_of_nat_small: "n < 2 ^ 32 \<Longrightarrow> unat (of_nat n :: 32 word) = n"
  by (simp only: unat_of_nat) simp

lemma dataLen_record:
  "length d + 5 < 2 ^ 32 \<Longrightarrow> dataLen (wal_record t d @ r) = length d"
  using unat_of_nat_small [of "length d"] by (simp add: dataLen_def wal_record_def)

lemma dataLen_append: "9 \<le> length a \<Longrightarrow> dataLen (a @ b) = dataLen a"
  by (simp add: dataLen_def)

lemma crc_matches_append:
  "9 + dataLen a \<le> length a \<Longrightarrow> crc_matches (a @ b) = crc_matches a"
  by (simp add: crc_matches_def dataLen_append recordHeaderSize_def nth_append)

lemma crc_matches_record:
  "length d + 5 < 2 ^ 32 \<Longrightarrow> crc_matches (wal_record t d @ r)"
  by (simp add: crc_matches_def dataLen_record)
     (simp add: wal_record_def recordHeaderSize_def nth_append)

lemma read_records_Nil [simp]: "read_records [] = Inr []"
  by (simp add: read_records.simps)

lemma read_records_record:
  assumes "length d + 5 < 2 ^ 32"
  shows "read_records (wal_record t d @ r) = res_bind (read_records r) (\<lambda>rs. Inr ((t, d) # rs))"
proof -
  let ?b = "wal_record t d @ r"
  have ne: "?b \<noteq> []" using length_wal_record [of t d] by (metis append_is_Nil_conv list.size(3) add_is_0 zero_neq_numeral)
  have parts: "?b ! 4 = t" "take (length d) (drop 9 ?b) = d"
    by (simp_all add: wal_record_def nth_append)
  have drp: "drop (9 + length d) ?b = r"
    by (metis append_eq_conv_conj length_wal_record)
  show ?thesis
    by (subst read_records.simps)
       (simp only: ne parts drp dataLen_record [OF assms] crc_matches_record [OF assms]
         recordHeaderSize_9, simp)
qed

lemma read_records_InrD:
  assumes "read_records a = Inr rs" "a \<noteq> []"
  shows "9 + dataLen a \<le> length a \<and> crc_matches a \<and>
    (\<exists>rs'. read_records (drop (9 + dataLen a) a) = Inr rs' \<and>
       rs = (a ! 4, take (dataLen a) (drop 9 a)) # rs')"
  using assms by (subst (asm) read_records.simps)
    (auto simp: recordHeaderSize_def res_simps split: if_splits)

lemma read_records_append:
  "read_records a = Inr rs \<Longrightarrow>
   read_records (a @ b) = res_bind (read_records b) (\<lambda>rs'. Inr (rs @ rs'))"
proof (induction "length a" arbitrary: a rs rule: less_induct)
  case less
  show ?case
  proof (cases "a = []")
    case True
    with less show ?thesis by (cases "read_records b") auto
  next
    case False
    from read_records_InrD [OF less.prems False] obtain rs'
      where len: "9 + dataLen a \<le> length a" and crc: "crc_matches a"
        and rs': "read_records (drop (9 + dataLen a) a) = Inr rs'"
        and rs: "rs = (a ! 4, take (dataLen a) (drop 9 a)) # rs'" by blast
    from less.hyps [OF _ rs'] len False
    have IH: "read_records (drop (9 + dataLen a) a @ b)
        = res_bind (read_records b) (\<lambda>rs''. Inr (rs' @ rs''))" by simp
    have "read_records (a @ b) = res_bind (read_records (drop (9 + dataLen a) a @ b))
        (\<lambda>rs''. Inr ((a ! 4, take (dataLen a) (drop 9 a)) # rs''))"
      using len crc False
      by (subst read_records.simps)
         (simp add: recordHeaderSize_def dataLen_append crc_matches_append nth_append)
    then show ?thesis unfolding IH rs by (cases "read_records b") auto
  qed
qed

lemma read_records_torn:
  assumes d: "length d + 5 < 2 ^ 32" and p: "strict_prefix p (wal_record t d)" and ne: "p \<noteq> []"
  shows "read_records p = Inl ErrUnexpectedEOF \<or> read_records p = Inl ErrEOF"
proof (cases "length p < 9")
  case True
  with ne show ?thesis by (subst read_records.simps) (simp add: recordHeaderSize_def)
next
  case False
  from p obtain q where q: "wal_record t d = p @ q" "q \<noteq> []" by (auto elim: strict_prefixE')
  have "dataLen p = dataLen (wal_record t d @ [])" using False q by (simp add: dataLen_append)
  also have "\<dots> = length d" by (rule dataLen_record [OF d])
  finally have "length p < 9 + dataLen p"
    using q length_wal_record [of t d] by (cases q) auto
  with False ne show ?thesis by (simp add: read_records.simps [of p] recordHeaderSize_def)
qed

lemma inj_crc_byte1: "crc_byte c b = crc_byte c' b \<longleftrightarrow> c = c'"
  using inj_fn [OF inj_crc_bit, of 8] by (auto simp: crc_byte_def inj_eq xor_right_cancel)

lemma inj_crc_byte2: "crc_byte c b = crc_byte c b' \<longleftrightarrow> b = b'"
  using inj_fn [OF inj_crc_bit, of 8] xor_right_cancel [of "of_char b" c "of_char b'"]
  by (simp add: crc_byte_def inj_eq xor.commute inj_of_char_word)

lemma fold_crc_inj:
  "fold (\<lambda>b c. crc_byte c b) bs c = fold (\<lambda>b c. crc_byte c b) bs c' \<longleftrightarrow> c = c'"
  by (induction bs arbitrary: c c') (auto simp: inj_crc_byte1)

lemma crc_write_single_byte:
  assumes "i < length d" "d ! i \<noteq> b"
  shows "crc_write c (d[i := b]) \<noteq> crc_write c d"
proof -
  have d: "d = take i d @ d ! i # drop (Suc i) d" using assms(1) by (rule id_take_nth_drop)
  have d': "d[i := b] = take i d @ b # drop (Suc i) d" using assms(1) by (rule upd_conv_take_nth_drop)
  have "crc_write c (d[i := b]) \<noteq> crc_write c (take i d @ d ! i # drop (Suc i) d)"
    unfolding d' using assms(2) by (simp add: crc_write_def fold_crc_inj inj_crc_byte2 )
  with d show ?thesis by simp
qed

lemma read_records_corrupt:
  assumes "length d + 5 < 2 ^ 32" "i < length d" "d ! i \<noteq> b"
  shows "read_records ((wal_record t d)[9 + i := b] @ r) = Inl ErrCorrupt"
proof -
  let ?h = "put_uint32 (of_nat (1 + length d + 4)) @ [t] @ put_uint32 (crc_write (crc_write 0 [t]) d)"
  have eq: "(wal_record t d)[9 + i := b] @ r = ?h @ d[i := b] @ r"
    by (simp add: wal_record_def list_update_append)
  have len: "dataLen (?h @ d[i := b] @ r) = length d"
    using unat_of_nat_small [of "length d"] assms(1) by (simp add: dataLen_def)
  have "\<not> crc_matches (?h @ d[i := b] @ r)"
    using crc_write_single_byte [OF assms(2,3), of "crc_write 0 [t]"]
    unfolding crc_matches_def len by (simp add: recordHeaderSize_def nth_append)
  then show ?thesis
    unfolding eq by (subst read_records.simps) (simp only: len, simp add: recordHeaderSize_def)
qed

section \<open>Segment names\<close>

lemma hex_val_acc: "foldl (\<lambda>a d. 16 * a + d) x ds = x * 16 ^ length ds + hex_val ds"
proof (induction ds arbitrary: x)
  case (Cons d ds)
  from Cons [of "16 * x + d"] Cons [of d] show ?case
    by (simp add: hex_val_def algebra_simps)
qed (simp add: hex_val_def)

lemma hex_val_Cons: "hex_val (d # ds) = d * 16 ^ length ds + hex_val ds"
  using hex_val_acc [of d ds] by (simp add: hex_val_def)

lemma hex_val_less: "\<forall>d \<in> set ds. d < 16 \<Longrightarrow> hex_val ds < 16 ^ length ds"
proof (induction ds)
  case (Cons d ds)
  then have "hex_val ds < 16 ^ length ds" "d \<le> 15" by auto
  then have "hex_val (d # ds) < 15 * 16 ^ length ds + 16 ^ length ds"
    unfolding hex_val_Cons by (intro add_le_less_mono mult_right_mono) auto
  then show ?case by simp
qed (simp add: hex_val_def)

lemma hex_val_lex:
  "length xs = length ys \<Longrightarrow> \<forall>d \<in> set xs. d < 16 \<Longrightarrow> \<forall>d \<in> set ys. d < 16 \<Longrightarrow>
   xs < ys \<longleftrightarrow> hex_val xs < hex_val ys"
proof (induction xs ys rule: list_induct2)
  case (Cons x xs y ys)
  let ?p = "16 ^ length ys :: nat"
  have b: "hex_val xs < ?p" "hex_val ys < ?p"
    using hex_val_less [of xs] hex_val_less [of ys] Cons by auto
  consider "x < y" | "x = y" | "y < x" by linarith
  then show ?case
  proof cases
    case 1
    then have "Suc x * ?p \<le> y * ?p" by (intro mult_right_mono) auto
    with 1 b Cons show ?thesis by (simp add: hex_val_Cons)
  next
    case 2
    with Cons show ?thesis by (simp add: hex_val_Cons)
  next
    case 3
    then have "Suc y * ?p \<le> x * ?p" by (intro mult_right_mono) auto
    with 3 b Cons show ?thesis by (simp add: hex_val_Cons)
  qed
qed simp

lemma hex_val_nibbles_take:
  "hex_val (map (\<lambda>k. n div 16 ^ k mod 16) (rev [0..<m])) = n mod 16 ^ m"
proof (induction m)
  case (Suc m)
  have "rev [0..<Suc m] = m # rev [0..<m]" by simp
  then show ?case
    using mod_mult2_eq [of n "16 ^ m" 16]
    by (simp add: hex_val_Cons Suc mult.commute del: upt_Suc)
qed (simp add: hex_val_def)

lemma hex_val_nibbles: "hex_val (nibbles w) = unat w"
proof -
  have "unat (drop_bit (4 * k) w) = unat w div 16 ^ k" for k
    by (simp only: unat_drop_bit_eq, simp only: drop_bit_eq_div power_mult) simp
  then have "hex_val (nibbles w) = unat w mod 16 ^ 16"
    unfolding nibbles_def by (simp only: hex_val_nibbles_take)
  moreover have "unat w < 16 ^ 16" using unsigned_less [of w] by simp
  ultimately show ?thesis by simp
qed

lemma nibbles_less: "\<forall>d \<in> set (nibbles w). d < 16" "length (nibbles w) = 16"
  by (auto simp: nibbles_def)

lemma hex16_nibbles: "hex16 w = map hex_digit (nibbles w)"
  by (simp add: hex16_def nibbles_def)

lemma hex_digit_less: "a < 16 \<Longrightarrow> b < 16 \<Longrightarrow> hex_digit a < hex_digit b \<longleftrightarrow> a < b"
  by (auto simp: hex_digit_def less_char_def)

lemma hex_digit_eq: "a < 16 \<Longrightarrow> b < 16 \<Longrightarrow> hex_digit a = hex_digit b \<longleftrightarrow> a = b"
  using hex_digit_less [of a b] hex_digit_less [of b a] by (metis less_irrefl linorder_less_linear)

lemma map_hex_digit_lex:
  "length xs = length ys \<Longrightarrow> \<forall>d \<in> set xs. d < 16 \<Longrightarrow> \<forall>d \<in> set ys. d < 16 \<Longrightarrow>
   map hex_digit xs < map hex_digit ys \<longleftrightarrow> xs < ys"
  by (induction xs ys rule: list_induct2) (auto simp: hex_digit_less hex_digit_eq)

lemma append_less_same_suffix:
  "length xs = length ys \<Longrightarrow> xs @ s < ys @ s \<longleftrightarrow> xs < (ys :: string)"
  by (induction xs ys rule: list_induct2) auto

lemma seg_name_less: "seg_name a < seg_name b \<longleftrightarrow> a < b"
proof -
  have "seg_name a < seg_name b \<longleftrightarrow> nibbles a < nibbles b"
    using nibbles_less by (simp add: seg_name_def hex16_nibbles append_less_same_suffix map_hex_digit_lex)
  also have "\<dots> \<longleftrightarrow> unat a < unat b"
    using nibbles_less by (simp add: hex_val_lex hex_val_nibbles)
  finally show ?thesis by (simp add: word_less_nat_alt)
qed

lemma hex_value_digit: "d < 16 \<Longrightarrow> hex_value (hex_digit d) = Some d"
  by (auto simp: hex_value_def hex_digit_def Let_def)

lemma sscanf_seg_name: "sscanf_hex (seg_name s) old = s"
proof -
  have hx: "hex_value c \<noteq> None" if "c \<in> set (hex16 s)" for c
    using that nibbles_less by (auto simp: hex16_nibbles hex_value_digit)
  have "hex_value CHR ''.'' = None" by (simp add: hex_value_def)
  then have tw: "takeWhile (\<lambda>c. hex_value c \<noteq> None) (seg_name s) = hex16 s"
    using hx by (simp add: seg_name_def takeWhile_append2)
  have "hex_value CHR '' '' = None" by (simp add: hex_value_def)
  moreover have "hd (seg_name s) \<in> set (hex16 s)"
    using nibbles_less(2) [of s] by (cases "nibbles s") (auto simp: seg_name_def hex16_nibbles)
  ultimately have "hd (seg_name s) \<noteq> CHR '' ''" using hx by metis
  then have dw: "dropWhile (\<lambda>c. c = CHR '' '') (seg_name s) = seg_name s"
    by (cases "seg_name s") auto
  have "foldl (\<lambda>a c. 16 * a + the (hex_value c)) 0 (hex16 s) = unat s"
    using nibbles_less(1) [of s] unfolding hex_val_nibbles [symmetric] hex_val_def hex16_nibbles
    by (simp add: foldl_map) (rule foldl_cong, auto simp: hex_value_digit)
  moreover have "hex16 s \<noteq> []" using nibbles_less(2) [of s] by (auto simp: hex16_nibbles)
  moreover have "unat s < 2 ^ 64" using unsigned_less [of s] by simp
  ultimately show ?thesis unfolding sscanf_hex_def dw tw Let_def by simp
qed

section \<open>The log in its directory\<close>

lemma read_files_append:
  "read_files f (xs @ ys) = res_bind (read_files f xs) (\<lambda>rs. res_bind (read_files f ys) (\<lambda>rs'. Inr (rs @ rs')))"
proof (induction xs)
  case Nil show ?case by (cases "read_files f ys") auto
next
  case (Cons n xs)
  show ?case unfolding append_Cons read_files.simps Cons.IH
    by (cases "fs_read f n"; simp; rename_tac bs; case_tac "read_records bs"; simp;
        cases "read_files f xs"; simp; cases "read_files f ys"; simp)
qed

lemma read_files_cong: "(\<And>n. n \<in> set ns \<Longrightarrow> fs_read f n = fs_read g n) \<Longrightarrow> read_files f ns = read_files g ns"
  by (induction ns) auto

lemma listLogFiles_names: "\<not> io_fail f \<Longrightarrow> dir_exists f \<Longrightarrow> listLogFiles f = Inr (wal_names f)"
  by (simp add: listLogFiles_def wal_names_def)

lemma suffix_seg_name [simp]: "suffix ''.wal'' (seg_name s)"
  by (simp add: seg_name_def suffix_def)

lemma is_file_iff: "is_file e \<longleftrightarrow> (\<exists>i. e = RegFile i)"
  by (cases e) (auto simp: is_file_def)

lemma set_wal_names: "set (wal_names f) = {n. \<exists>i. (n, RegFile i) \<in> set (dirents f) \<and> suffix ''.wal'' n}"
proof (rule set_eqI)
  fix n
  have "n \<in> set (wal_names f) \<longleftrightarrow> (\<exists>e. (n, e) \<in> set (dirents f) \<and> is_file e \<and> suffix ''.wal'' n)"
    by (auto simp: wal_names_def image_iff)
  then show "n \<in> set (wal_names f) \<longleftrightarrow> n \<in> {n. \<exists>i. (n, RegFile i) \<in> set (dirents f) \<and> suffix ''.wal'' n}"
    by (auto simp: is_file_iff)
qed

lemma sorted_wal_names: "sorted (wal_names f)"
  by (simp add: wal_names_def)

lemma distinct_wal_names: "distinct (map fst (dirents f)) \<Longrightarrow> distinct (wal_names f)"
  by (simp add: wal_names_def distinct_map_filter)

lemma sorted_distinct_last_butlast:
  assumes "sorted xs" "distinct xs" "x \<in> set xs" "\<And>y. y \<in> set xs \<Longrightarrow> y \<le> (x :: 'a::linorder)"
  shows "xs = butlast xs @ [x] \<and> x \<notin> set (butlast xs)"
proof -
  from assms(3) have ne: "xs \<noteq> []" by auto
  then have xs: "xs = butlast xs @ [last xs]" by simp
  have "x \<le> last xs"
  proof (cases "x = last xs")
    case False
    with xs assms(3) have "x \<in> set (butlast xs)" by (metis in_set_conv_decomp in_set_butlastD rotate1.simps(2) set_rotate1 set_ConsD)
    moreover from assms(1) xs have "sorted (butlast xs @ [last xs])" by simp
    ultimately show ?thesis by (auto simp: sorted_append)
  qed simp
  moreover have "last xs \<le> x" using assms(4) ne by simp
  ultimately have "last xs = x" by simp
  with xs assms(2) show ?thesis by (metis distinct_append distinct.simps(2) not_distinct_conv_prefix)
qed

lemma wal_wf_no_alias:
  "wal_wf w f \<Longrightarrow> (n, RegFile i) \<in> set (dirents f) \<Longrightarrow> (n', RegFile i) \<in> set (dirents f) \<Longrightarrow> n = n'"
  unfolding wal_wf_def by blast

lemma wal_wf_seg:
  "wal_wf w f \<Longrightarrow> n \<in> set (wal_names f) \<Longrightarrow> \<exists>s. n = seg_name s \<and> s \<le> seq w"
  unfolding wal_wf_def set_wal_names by blast

lemma wal_wf_inodes: "wal_wf w (f\<lparr>inodes := m\<rparr>) = wal_wf w f"
  by (simp add: wal_wf_def)

lemma wal_wf_names:
  assumes "wal_wf w f"
  shows "wal_names f = butlast (wal_names f) @ [seg_name (seq w)]
    \<and> seg_name (seq w) \<notin> set (butlast (wal_names f))"
proof (rule sorted_distinct_last_butlast)
  show "sorted (wal_names f)" by (rule sorted_wal_names)
  show "distinct (wal_names f)" using assms by (auto simp: wal_wf_def intro: distinct_wal_names)
  show "seg_name (seq w) \<in> set (wal_names f)" using assms by (auto simp: wal_wf_def set_wal_names)
  fix y assume "y \<in> set (wal_names f)"
  with assms obtain s where "y = seg_name s" "s \<le> seq w" using wal_wf_seg by blast
  then show "y \<le> seg_name (seq w)" using seg_name_less by (metis leD leI)
qed

lemma wal_wf_fs_read:
  assumes "wal_wf w f" "\<not> io_fail f" "(n, RegFile i) \<in> set (dirents f)"
  shows "fs_read f n = Inr (inodes f i)"
  using assms by (simp add: fs_read_def wal_wf_def)

lemma wal_wf_write:
  assumes wf: "wal_wf w f" and "wal_Write w t d f = Inr f'"
  shows "wal_wf w f' \<and> dirents f' = dirents f \<and> wal_names f' = wal_names f \<and> io_fail f' = io_fail f"
  using assms by (auto simp: wal_Write_def wal_wf_inodes wal_names_def split: option.splits if_splits)

lemma wal_write_readall:
  assumes wf: "wal_wf w f" and io: "\<not> io_fail f" and fits: "length d + 5 < 2 ^ 32"
    and old: "wal_ReadAll w f = Inr rs" and wr: "wal_Write w t d f = Inr f'"
  shows "wal_ReadAll w f' = Inr (rs @ [(t, d)])"
proof -
  from wf obtain i where i: "wfile w = Some i" "(seg_name (seq w), RegFile i) \<in> set (dirents f)"
    by (auto simp: wal_wf_def)
  from wr i io have f': "f' = f\<lparr>inodes := (inodes f)(i := inodes f i @ wal_record t d)\<rparr>"
    by (simp add: wal_Write_def)
  from wal_wf_write [OF wf wr] have wf': "wal_wf w f'" and names: "wal_names f' = wal_names f"
    and io': "\<not> io_fail f'" using io by auto
  define ns where "ns = butlast (wal_names f)"
  from wal_wf_names [OF wf] have ns: "wal_names f = ns @ [seg_name (seq w)]"
    and notin: "seg_name (seq w) \<notin> set ns" by (auto simp: ns_def)
  have same: "read_files f' ns = read_files f ns"
  proof (rule read_files_cong)
    fix n assume n: "n \<in> set ns"
    then have "n \<in> set (wal_names f)" using ns by simp
    then obtain j where j: "(n, RegFile j) \<in> set (dirents f)" by (auto simp: set_wal_names)
    have "j \<noteq> i" using wal_wf_no_alias [OF wf i(2)] j n notin by blast
    moreover have "(n, RegFile j) \<in> set (dirents f')" using j f' by simp
    ultimately show "fs_read f' n = fs_read f n"
      using wal_wf_fs_read [OF wf io j] wal_wf_fs_read [OF wf' io', of n j] f' by simp
  qed
  have lst: "fs_read f (seg_name (seq w)) = Inr (inodes f i)"
    "fs_read f' (seg_name (seq w)) = Inr (inodes f i @ wal_record t d)"
    using wal_wf_fs_read [OF wf io i(2)] wal_wf_fs_read [OF wf' io', of "seg_name (seq w)" i] i f' by simp_all
  have all: "wal_ReadAll w f = read_files f (ns @ [seg_name (seq w)])"
    "wal_ReadAll w f' = read_files f' (ns @ [seg_name (seq w)])"
    using io io' wf wf' names ns by (auto simp: wal_ReadAll_def listLogFiles_names wal_wf_def)
  from old obtain r1 r2 where r: "read_files f ns = Inr r1" "read_records (inodes f i) = Inr r2" "rs = r1 @ r2"
    by (auto simp: all(1) read_files_append lst res_simps)
  have "read_records (inodes f i @ wal_record t d) = Inr (r2 @ [(t, d)])"
    using read_records_append [OF r(2), of "wal_record t d"] read_records_record [OF fits, of t "[]"] by simp
  with r same show ?thesis by (simp add: all(2) read_files_append lst)
qed

lemma wal_open_wf:
  assumes wf: "wal_wf w f" and io: "\<not> io_fail f"
  shows "wal_Open d f = Inr (w\<lparr>dir := d\<rparr>, f)"
proof -
  from wf obtain i where i: "wfile w = Some i" "(seg_name (seq w), RegFile i) \<in> set (dirents f)"
    and dist: "distinct (map fst (dirents f))" and ex: "dir_exists f"
    by (auto simp: wal_wf_def)
  have "last (wal_names f) = seg_name (seq w)" "wal_names f \<noteq> []"
    using wal_wf_names [OF wf] by (metis last_snoc, metis append_is_Nil_conv list.distinct(1))
  with i dist ex io show ?thesis
    by (simp add: wal_Open_def listLogFiles_names sscanf_seg_name)
qed

interpretation wlog: recoverable_log log_append log_replay log_ok log_fits log_reopen
proof
  fix s :: "wal \<times> fs" and r :: "char \<times> bytes"
  assume ok: "log_ok s" and fit: "log_fits r"
  then obtain i where "wfile (fst s) = Some i" by (auto simp: log_ok_def wal_wf_def)
  then obtain f' where f': "wal_Write (fst s) (fst r) (snd r) (snd s) = Inr f'"
    using ok by (auto simp: wal_Write_def log_ok_def)
  then show "\<exists>s'. log_append s r = Inr s' \<and> log_ok s'"
    using wal_wf_write [OF _ f'] ok by (auto simp: log_append_def log_ok_def)
next
  fix s :: "wal \<times> fs" and r :: "char \<times> bytes" and rs s'
  assume "log_ok s" "log_fits r" "log_replay s = Inr rs" "log_append s r = Inr s'"
  then show "log_replay s' = Inr (rs @ [r])"
    using wal_write_readall [of "fst s" "snd s" "snd r" rs "fst r"]
    by (auto simp: log_ok_def log_fits_def log_replay_def log_append_def res_simps)
next
  fix s :: "wal \<times> fs" assume "log_ok s"
  then show "\<exists>s'. log_reopen s = Inr s' \<and> log_ok s'"
    by (cases s) (auto simp: log_ok_def log_reopen_def wal_open_wf)
next
  fix s s' :: "wal \<times> fs" assume "log_ok s" "log_reopen s = Inr s'"
  then show "log_replay s' = log_replay s"
    by (auto simp: log_ok_def log_reopen_def wal_open_wf log_replay_def wal_ReadAll_def)
qed

lemma truncate_files_segs:
  "\<not> io_fail f \<Longrightarrow> truncate_files li s (map seg_name ss) f
     = f\<lparr>dirents := filter (\<lambda>p. fst p \<notin> seg_name ` {x \<in> set ss. x \<le> li}) (dirents f)\<rparr>"
proof (induction ss arbitrary: s f)
  case (Cons x ss)
  let ?g = "if x \<le> li then fs_remove f (seg_name x) else f"
  have "truncate_files li s (map seg_name (x # ss)) f = truncate_files li x (map seg_name ss) ?g"
    by (simp add: sscanf_seg_name Let_def)
  also have "\<dots> = ?g\<lparr>dirents := filter (\<lambda>p. fst p \<notin> seg_name ` {y \<in> set ss. y \<le> li}) (dirents ?g)\<rparr>"
    using Cons.prems by (intro Cons.IH) (simp add: fs_remove_def)
  also have "\<dots> = f\<lparr>dirents := filter (\<lambda>p. fst p \<notin> seg_name ` {y \<in> set (x # ss). y \<le> li}) (dirents f)\<rparr>"
  proof -
    have "{y \<in> set (x # ss). y \<le> li} = (if x \<le> li then insert x {y \<in> set ss. y \<le> li} else {y \<in> set ss. y \<le> li})"
      by auto
    then show ?thesis using Cons.prems by (simp add: fs_remove_def)
  qed
  finally show ?case .
qed simp

lemma list_image_witness:
  "\<forall>x \<in> set xs. \<exists>y. x = g y \<and> P y \<Longrightarrow> \<exists>ys. xs = map g ys \<and> (\<forall>y \<in> set ys. P y)"
proof (induction xs)
  case (Cons x xs)
  then obtain y ys where "x = g y" "P y" "xs = map g ys" "\<forall>y \<in> set ys. P y" by auto
  then show ?case by (intro exI [of _ "y # ys"]) simp
qed simp

lemma wal_wf_segs: 
  assumes "wal_wf w f" shows "\<exists>ss. wal_names f = map seg_name ss \<and> (\<forall>s \<in> set ss. s \<le> seq w)"
  using wal_wf_seg [OF assms] by (intro list_image_witness) blast

lemma wal_truncate_active:
  assumes wf: "wal_wf w f" and io: "\<not> io_fail f" and le: "seq w \<le> li"
    and tr: "wal_Truncate w li f = Inr f'"
  shows "wal_names f' = [] \<and> \<not> io_fail f' \<and> dir_exists f'"
proof -
  from wal_wf_segs [OF wf] obtain ss where ss: "wal_names f = map seg_name ss" "\<forall>s \<in> set ss. s \<le> seq w" by blast
  have "f' = truncate_files li 0 (map seg_name ss) f"
    using tr wf io by (simp add: wal_Truncate_def listLogFiles_names wal_wf_def ss)
  then have f': "f' = f\<lparr>dirents := filter (\<lambda>p. fst p \<notin> seg_name ` {x \<in> set ss. x \<le> li}) (dirents f)\<rparr>"
    using truncate_files_segs [OF io] by simp
  have "set (wal_names f') = {}"
  proof (rule equals0I)
    fix n assume "n \<in> set (wal_names f')"
    then have "n \<in> set (wal_names f)" and notin: "n \<notin> seg_name ` {x \<in> set ss. x \<le> li}"
      by (auto simp: set_wal_names f')
    then have "n \<in> seg_name ` set ss" using ss(1) by simp
    with notin ss(2) le show False by auto
  qed
  then show ?thesis using io wf f' by (simp add: wal_wf_def)
qed

lemma log_append_names:
  "log_append s r = Inr s' \<Longrightarrow> wal_names (snd s') = wal_names (snd s) \<and> dir_exists (snd s') = dir_exists (snd s) \<and> io_fail (snd s') = io_fail (snd s)"
  by (auto simp: log_append_def wal_Write_def wal_names_def res_simps split: option.splits if_splits)

lemma append_all_names:
  "append_all log_append s rs = Inr s' \<Longrightarrow> wal_names (snd s') = wal_names (snd s) \<and> dir_exists (snd s') = dir_exists (snd s) \<and> io_fail (snd s') = io_fail (snd s)"
  by (induction rs arbitrary: s) (auto simp: res_simps dest!: log_append_names)

lemma wal_readall_empty:
  assumes "wal_names f = []" "\<not> io_fail f"
  shows "wal_ReadAll w f = Inr []"
  using assms by (cases "dir_exists f") (auto simp: wal_ReadAll_def listLogFiles_def wal_names_def)

lemma wal_open_empty: "wal_Open d empty_fs = Inr (fresh_wal d, fresh_fs)"
  by (simp add: wal_Open_def listLogFiles_def newLogFile_def empty_fs_def fresh_fs_def fresh_wal_def)

lemma fresh_wf [simp]: "wal_wf (fresh_wal d) fresh_fs" "\<not> io_fail fresh_fs"
  by (auto simp: wal_wf_def fresh_wal_def fresh_fs_def fs_create_def empty_fs_def)

lemma fresh_ok [simp]: "log_ok (fresh_wal d, fresh_fs)"
  by (simp add: log_ok_def)

lemma fresh_replay [simp]: "log_replay (fresh_wal d, fresh_fs) = Inr []"
  by (simp add: log_replay_def wal_ReadAll_def listLogFiles_def fresh_fs_def fs_create_def empty_fs_def
      is_file_def fs_read_def)

section \<open>Properties\<close>

text \<open>
  C18: Every record written to a well-formed log is read back by recovery: appending any list of
  records that fit the 32-bit length field succeeds, and after the process restarts and opens the
  directory again, \<^verbatim>\<open>ReadAll\<close> returns the old records followed by the new ones, in order.
\<close>

theorem wal_append_recover:
  assumes "log_ok (w, f)" "list_all log_fits rs" "wal_ReadAll w f = Inr old"
  shows "\<exists>w' f' w''. append_all log_append (w, f) rs = Inr (w', f') \<and>
    wal_Open (dir w') f' = Inr (w'', f') \<and> log_ok (w'', f') \<and> wal_ReadAll w'' f' = Inr (old @ rs)"
proof -
  from assms(3) have old: "log_replay (w, f) = Inr old" by (simp add: log_replay_def)
  from wlog.append_all_replay [OF assms(1,2) old] obtain w' f'
    where ap: "append_all log_append (w, f) rs = Inr (w', f')" and ok: "log_ok (w', f')" by auto
  from wlog.append_reopen_replay [OF assms(1,2) old ap] wal_open_wf [of w' f' "dir w'"] ok ap
  show ?thesis by (auto simp: log_reopen_def log_replay_def log_ok_def)
qed

theorem wal_append_recover_witness:
  "\<exists>w' f' w''. append_all log_append (fresh_wal ''d'', fresh_fs) [(CHR 0x01, ''a''), (CHR 0x02, ''bc'')] = Inr (w', f') \<and>
    wal_Open (dir w') f' = Inr (w'', f') \<and> log_ok (w'', f') \<and>
    wal_ReadAll w'' f' = Inr [(CHR 0x01, ''a''), (CHR 0x02, ''bc'')]"
  using wal_append_recover [of "fresh_wal ''d''" fresh_fs "[(CHR 0x01, ''a''), (CHR 0x02, ''bc'')]" "[]"]
    fresh_replay [of "''d''"]
  by (simp add: log_fits_def log_replay_def)



text \<open>
  A record cut short by a crash in the middle of a write is reported and not skipped: a file
  whose last record is a non-empty proper prefix of what \<^verbatim>\<open>Write\<close> appends makes \<^verbatim>\<open>ReadAll\<close> return an
  end-of-file error, so the records before it are not returned either.
\<close>

theorem wal_torn_record:
  assumes "read_records a = Inr rs" "length d + 5 < 2 ^ 32"
    "strict_prefix p (wal_record t d)" "p \<noteq> []"
  shows "read_records (a @ p) \<in> {Inl ErrUnexpectedEOF, Inl ErrEOF}"
  using read_records_append [OF assms(1), of p] read_records_torn [OF assms(2-4)] by auto

theorem wal_torn_record_witness:
  "read_records (wal_record CHR 0x02 ''x'' @ take 5 (wal_record CHR 0x01 ''ab''))
     \<in> {Inl ErrUnexpectedEOF, Inl ErrEOF}"
proof -
  have "wal_record CHR 0x01 ''ab'' = take 5 (wal_record CHR 0x01 ''ab'') @ drop 5 (wal_record CHR 0x01 ''ab'')"
    by simp
  moreover have "drop 5 (wal_record CHR 0x01 ''ab'') \<noteq> []"
    using length_wal_record [of "CHR 0x01" "''ab''"] by simp
  ultimately have p: "strict_prefix (take 5 (wal_record CHR 0x01 ''ab'')) (wal_record CHR 0x01 ''ab'')"
    by (metis append_self_conv strict_prefix_def take_is_prefix)
  have ne: "take 5 (wal_record CHR 0x01 ''ab'') \<noteq> []"
    using length_wal_record [of "CHR 0x01" "''ab''"] by (cases "wal_record CHR 0x01 ''ab''") auto
  show ?thesis
    using wal_torn_record [OF _ _ p ne, of "wal_record CHR 0x02 ''x''"]
      read_records_record [of "''x''" "CHR 0x02" "[]"] by simp
qed

text \<open>
  Segment file names sort in the order of their sequence numbers, and the sequence number read
  back from a name is the one it was made from, whatever the variable held before.
\<close>

theorem segment_names_ordered:
  "(seg_name a < seg_name b \<longleftrightarrow> a < b) \<and> sscanf_hex (seg_name a) old = a"
  by (simp add: seg_name_less sscanf_seg_name)

text \<open>
  \<^verbatim>\<open>Truncate\<close> removes the file the log is still appending to as soon as its argument reaches the
  sequence number of that file: after it, however many records are written, recovery finds none.
  (The argument is a Raft log index and the first segment has number 1, so this is what happens
  after the first snapshot.)
\<close>

theorem truncate_loses_active_segment:
  assumes "log_ok (w, f)" "seq w \<le> lastIndex" "wal_Truncate w lastIndex f = Inr f'"
    "append_all log_append (w, f') rs = Inr (w'', f'')"
  shows "wal_ReadAll w'' f'' = Inr []"
  using wal_truncate_active [of w f lastIndex f'] append_all_names [OF assms(4)] assms(1-3)
  by (auto simp: log_ok_def intro: wal_readall_empty)

theorem truncate_loses_active_segment_witness:
  "\<exists>f' w'' f''. wal_Truncate (fresh_wal ''d'') 1 fresh_fs = Inr f' \<and>
    append_all log_append (fresh_wal ''d'', f') [(CHR 0x03, ''snap''), (CHR 0x01, ''e'')] = Inr (w'', f'') \<and>
    wal_ReadAll w'' f'' = Inr []"
proof -
  obtain f' where f': "wal_Truncate (fresh_wal ''d'') 1 fresh_fs = Inr f'"
    by (simp add: wal_Truncate_def listLogFiles_names fresh_fs_def fs_create_def empty_fs_def)
  have io: "\<not> io_fail f'"
    using wal_truncate_active [OF fresh_wf _ f'] by (simp add: fresh_wal_def)
  obtain w'' f'' where a: "append_all log_append (fresh_wal ''d'', f') [(CHR 0x03, ''snap''), (CHR 0x01, ''e'')] = Inr (w'', f'')"
    using io by (simp add: log_append_def wal_Write_def fresh_wal_def)
  show ?thesis
    using truncate_loses_active_segment [OF fresh_ok _ f' a] f' a by (simp add: fresh_wal_def)
qed

text \<open>
  \<^verbatim>\<open>Open\<close> does not create the directory: on a fault-free system it fails exactly where the
  directory is missing and the log has no segment, while \<^verbatim>\<open>Create\<close> opens an empty log there.
\<close>

theorem open_needs_directory:
  assumes "\<not> io_fail f" "dirents f = []"
  shows "(wal_Open d f = Inl ErrIO \<longleftrightarrow> \<not> dir_exists f) \<and>
    (\<exists>w f'. wal_Create d f = Inr (w, f') \<and> wal_ReadAll w f' = Inr [])"
proof -
  let ?f = "fs_create (f\<lparr>dir_exists := True\<rparr>) (seg_name 1)"
  have "wal_names ?f = [seg_name 1]" "fs_read ?f (seg_name 1) = Inr []"
    using assms by (simp_all add: wal_names_def fs_create_def is_file_def fs_read_def)
  then have "wal_ReadAll w ?f = Inr []" for w
    using assms by (simp add: wal_ReadAll_def listLogFiles_names fs_create_def)
  then show ?thesis
    using assms by (simp add: wal_Open_def wal_Create_def listLogFiles_def newLogFile_def)
qed

theorem open_needs_directory_witness:
  "wal_Open ''data/raft-0'' (empty_fs\<lparr>dir_exists := False\<rparr>) = Inl ErrIO"
  using open_needs_directory [of "empty_fs\<lparr>dir_exists := False\<rparr>" "''data/raft-0''"]
  by (simp add: empty_fs_def)

end
