(* ===== verification/RaftNode.thy ===== *)
theory RaftNode
  imports Types Wal
begin

text \<open>
  One Raft peer, \<^verbatim>\<open>src/raft/raft.go\<close>: its state as a record, the RPC handlers, the halves of the
  client calls that run under \<^verbatim>\<open>rf.mu\<close> (each is one atomic step), the apply loop, snapshots and
  recovery from the write-ahead log. The clock is an argument in milliseconds. A panic, a call of
  the logger that ends the process, and a send no one receives are values of \<^typ>\<open>panic\<close>. The
  channel \<^verbatim>\<open>applyChTerm\<close> is the list of messages sent and not yet moved to \<^verbatim>\<open>applyCh\<close> (its
  capacity of 1000 is not modelled), \<^verbatim>\<open>applyCh\<close> that of the messages handed to the state machine,
  \<open>None\<close> while the channel is nil. Logging is left out.
\<close>

section \<open>Definitions\<close>

subsection \<open>Data\<close>

definition HeartBeatInterval :: int where "HeartBeatInterval = 100"

definition TICKMIN :: int where "TICKMIN = 300"

definition TICKRANDOM :: int where "TICKRANDOM = 300"

datatype role = Follower | Candidate | Leader

record apply_msg =
  CommandValid :: bool
  Command :: bytes
  CommandIndex :: int
  SnapshotValid :: bool
  SnapshotBytes :: bytes
  SnapshotTerm :: int
  SnapshotIndex :: int

record RaftStateRecord =
  StateTerm :: int
  StateVotedFor :: int

record SnapshotRecord =
  LastIncludedIndex :: int
  LastIncludedTerm :: int
  Path :: string

text \<open>The encoders \<^verbatim>\<open>raft.go\<close> uses: \<^verbatim>\<open>json\<close> for the two metadata records, \<^verbatim>\<open>gob\<close> for the rest.\<close>

record codecs =
  stateC :: "RaftStateRecord codec"
  snapC :: "SnapshotRecord codec"
  entryC :: "log_type codec"
  opC :: "op codec"

definition codecs_ok :: "codecs \<Rightarrow> bool" where
  "codecs_ok C \<longleftrightarrow> codec_ok (stateC C) \<and> codec_ok (snapC C) \<and> codec_ok (entryC C) \<and> codec_ok (opC C)"

text \<open>
  \<^verbatim>\<open>Raft\<close>: \<open>peers\<close> is \<^verbatim>\<open>len(rf.peers)\<close>; \<open>rwal\<close> and \<open>disk\<close> are the log object and the files behind it.
\<close>

record raft =
  peers :: nat
  rwal :: wal
  disk :: fs
  me :: int
  dead :: bool
  state :: role
  currentTerm :: int
  votedFor :: int
  rlog :: "log_type list"
  lastIncludeIndex :: int
  lastIncludeTerm :: int
  commitIndex :: int
  lastApplied :: int
  nextIndex :: "int list"
  matchIndex :: "int list"
  lastHearBeatTime :: int
  lastSendHeartbeatTime :: int
  leaderId :: int
  applyCh :: "apply_msg list option"
  applyChTerm :: "apply_msg list"
  IisBack :: bool
  IisBackIndex :: int

subsection \<open>Accessors\<close>

definition GetCommitIndex :: "raft \<Rightarrow> int" where
  "GetCommitIndex rf = commitIndex rf + 1"

text \<open>
  One turn of \<^verbatim>\<open>Applyer\<close>: the oldest pending message goes to the state machine's channel. A send on
  a nil channel blocks for ever.
\<close>

definition Applyer :: "raft \<Rightarrow> raft" where
  "Applyer rf =
     (if dead rf then rf
      else case (applyChTerm rf, applyCh rf) of
        (m # ms, Some ch) \<Rightarrow> rf\<lparr>applyCh := Some (ch @ [m]), applyChTerm := ms\<rparr>
      | _ \<Rightarrow> rf)"

definition lastIndex :: "raft \<Rightarrow> int" where
  "lastIndex rf = lastIncludeIndex rf + int (length (rlog rf))"

definition lastTerm :: "raft \<Rightarrow> int" where
  "lastTerm rf = (if rlog rf \<noteq> [] then LogTerm (last (rlog rf)) else lastIncludeTerm rf)"

definition index2LogPos :: "raft \<Rightarrow> int \<Rightarrow> int" where
  "index2LogPos rf index = index - lastIncludeIndex rf - 1"

definition GetState :: "raft \<Rightarrow> int \<times> bool" where
  "GetState rf = (currentTerm rf, state rf = Leader)"

definition GetLeader :: "raft \<Rightarrow> bool" where
  "GetLeader rf = (state rf = Leader)"

definition GetTerm :: "raft \<Rightarrow> int" where
  "GetTerm rf = currentTerm rf"

definition GetleaderId :: "raft \<Rightarrow> int" where
  "GetleaderId rf = leaderId rf"

definition CheckIfDepose :: "raft \<Rightarrow> bool" where
  "CheckIfDepose rf = True"

definition GetRaftStateSize :: "raft \<Rightarrow> int" where
  "GetRaftStateSize rf = wal_Size (rwal rf) (disk rf)"

definition raft_Kill :: "raft \<Rightarrow> raft" where
  "raft_Kill rf = rf\<lparr>dead := True, rwal := snd (wal_Close (rwal rf) (disk rf))\<rparr>"

subsection \<open>Persistence\<close>

definition raft_write :: "raft \<Rightarrow> char \<Rightarrow> bytes \<Rightarrow> raft res" where
  "raft_write rf t d =
     (case wal_Write (rwal rf) t d (disk rf) of
        Inl e \<Rightarrow> Inl LoggerPanic
      | Inr f \<Rightarrow> Inr (rf\<lparr>disk := f\<rparr>))"

definition persistState :: "codecs \<Rightarrow> raft \<Rightarrow> raft res" where
  "persistState C rf =
     raft_write rf RecordTypeState
       (enc (stateC C) \<lparr>StateTerm = currentTerm rf, StateVotedFor = votedFor rf\<rparr>)"

definition persistEntry :: "codecs \<Rightarrow> log_type \<Rightarrow> raft \<Rightarrow> raft res" where
  "persistEntry C e rf = raft_write rf RecordTypeEntry (enc (entryC C) e)"

subsection \<open>Applying committed entries\<close>

definition command_msg :: "raft \<Rightarrow> int \<Rightarrow> apply_msg" where
  "command_msg rf i =
     \<lparr>CommandValid = True, Command = LogValue (rlog rf ! nat (index2LogPos rf i)), CommandIndex = i + 1,
      SnapshotValid = False, SnapshotBytes = [], SnapshotTerm = 0, SnapshotIndex = 0\<rparr>"

function undateLastApplied :: "raft \<Rightarrow> raft" where
  "undateLastApplied rf =
     (if lastApplied rf < commitIndex rf then
        let i = lastApplied rf + 1; pos = index2LogPos rf i in
        if pos < 0 \<or> pos \<ge> int (length (rlog rf)) then rf\<lparr>lastApplied := lastIncludeIndex rf\<rparr>
        else undateLastApplied (rf\<lparr>lastApplied := i, applyChTerm := applyChTerm rf @ [command_msg rf i],
               IisBack := (IisBackIndex rf = i \<or> IisBack rf)\<rparr>)
      else rf)"
  by pat_completeness auto
termination
  by (relation "measure (\<lambda>rf. nat (commitIndex rf - lastApplied rf))") (auto simp: Let_def)

declare undateLastApplied.simps [simp del]

subsection \<open>The RPC handlers\<close>

text \<open>The loop of \<^verbatim>\<open>CopyEntries\<close>, \<open>rfIndex\<close> being the index of the entry at hand, and the whole.\<close>

fun copy_loop :: "codecs \<Rightarrow> int \<Rightarrow> log_type list \<Rightarrow> raft \<Rightarrow> raft res" where
  "copy_loop C rfIndex [] rf = Inr rf"
| "copy_loop C rfIndex (entry # es) rf =
     (if rfIndex > lastIndex rf then
        res_bind (persistEntry C entry (rf\<lparr>rlog := rlog rf @ [entry]\<rparr>)) (copy_loop C (rfIndex + 1) es)
      else res_bind (go_nth (rlog rf) (index2LogPos rf rfIndex)) (\<lambda>old.
        if LogTerm old \<noteq> LogTerm entry then
          res_bind (go_upto (rlog rf) (index2LogPos rf rfIndex)) (\<lambda>kept.
            res_bind (persistEntry C entry (rf\<lparr>rlog := kept @ [entry]\<rparr>)) (copy_loop C (rfIndex + 1) es))
        else copy_loop C (rfIndex + 1) es rf))"

definition CopyEntries :: "codecs \<Rightarrow> ae_args \<Rightarrow> raft \<Rightarrow> raft res" where
  "CopyEntries C args rf =
     res_bind (copy_loop C (aePrevLogIndex args + 1) (aeEntries args) rf) (\<lambda>rf1.
       let mn = (if aeLeaderCommit args > lastIndex rf1 then lastIndex rf1 else aeLeaderCommit args)
       in if commitIndex rf1 < mn then Inr (undateLastApplied (rf1\<lparr>commitIndex := mn\<rparr>)) else Inr rf1)"

definition RequestVote :: "codecs \<Rightarrow> int \<Rightarrow> rv_args \<Rightarrow> raft \<Rightarrow> (rv_reply \<times> raft) res" where
  "RequestVote C now args rf =
     (let reply = \<lparr>rvrTerm = currentTerm rf, rvrVoteGranted = False\<rparr> in
      if rvTerm args < currentTerm rf then Inr (reply, rf)
      else res_bind
        (if currentTerm rf < rvTerm args
         then persistState C (rf\<lparr>currentTerm := rvTerm args, state := Follower, votedFor := -1, leaderId := -1\<rparr>)
         else Inr rf) (\<lambda>rf1.
        if (votedFor rf1 = -1 \<or> votedFor rf1 = rvCandidateId args) \<and>
           (rvLastLogTerm args > lastTerm rf1 \<or>
            rvLastLogTerm args = lastTerm rf1 \<and> rvLastLogIndex args \<ge> lastIndex rf1)
        then res_bind (persistState C (rf1\<lparr>votedFor := rvCandidateId args, lastHearBeatTime := now\<rparr>)) (\<lambda>rf2.
          Inr (reply\<lparr>rvrVoteGranted := True\<rparr>, rf2))
        else Inr (reply, rf1)))"

text \<open>The loop of \<^verbatim>\<open>AppendEntries\<close> that looks for the first index of the conflicting term.\<close>

function conflict_scan :: "raft \<Rightarrow> int \<Rightarrow> int \<Rightarrow> int \<Rightarrow> int res" where
  "conflict_scan rf ct i ci =
     (if i > lastIncludeIndex rf then
        res_bind (go_nth (rlog rf) (index2LogPos rf i)) (\<lambda>e.
          if LogTerm e \<noteq> ct then Inr ci else conflict_scan rf ct (i - 1) i)
      else Inr ci)"
  by pat_completeness auto
termination
  by (relation "measure (\<lambda>(rf, ct, i, ci). nat (i - lastIncludeIndex rf))") auto

declare conflict_scan.simps [simp del]

text \<open>
  \<^verbatim>\<open>AppendEntries\<close>: taking over a newer term, leaving a candidacy, the consistency check (with the
  reply for a failed one), and the whole handler.
\<close>

definition ae_adopt_term :: "codecs \<Rightarrow> ae_args \<Rightarrow> raft \<Rightarrow> raft res" where
  "ae_adopt_term C args rf =
     (if currentTerm rf < aeTerm args
      then persistState C (rf\<lparr>currentTerm := aeTerm args, state := Follower, votedFor := -1\<rparr>)
      else Inr rf)"

definition ae_leave_candidacy :: "codecs \<Rightarrow> ae_args \<Rightarrow> raft \<Rightarrow> raft res" where
  "ae_leave_candidacy C args rf =
     (if currentTerm rf = aeTerm args \<and> state rf = Candidate
      then persistState C (rf\<lparr>state := Follower, votedFor := -1\<rparr>)
      else Inr rf)"

definition ae_check :: "ae_args \<Rightarrow> raft \<Rightarrow> ae_reply \<Rightarrow> ae_reply option res" where
  "ae_check args rf reply =
     (if aePrevLogIndex args < lastIncludeIndex rf then
        Inr (Some (reply\<lparr>aerConflictIndex := lastIncludeIndex rf + 1\<rparr>))
      else if aePrevLogIndex args > lastIndex rf then
        Inr (Some (reply\<lparr>aerConflictIndex := lastIndex rf + 1\<rparr>))
      else if aePrevLogIndex args > lastIncludeIndex rf then
        res_bind (go_nth (rlog rf) (index2LogPos rf (aePrevLogIndex args))) (\<lambda>e.
          if LogTerm e \<noteq> aePrevLogTerm args then
            res_bind (conflict_scan rf (LogTerm e) (aePrevLogIndex args) (aerConflictIndex reply)) (\<lambda>ci.
              Inr (Some (reply\<lparr>aerConflictTerm := LogTerm e, aerConflictIndex := ci\<rparr>)))
          else Inr None)
      else Inr None)"

definition AppendEntries :: "codecs \<Rightarrow> int \<Rightarrow> ae_args \<Rightarrow> raft \<Rightarrow> (ae_reply \<times> raft) res" where
  "AppendEntries C now args rf =
     (let reply = \<lparr>aerTerm = currentTerm rf, aerSuccess = False, aerConflictIndex = -1, aerConflictTerm = -1\<rparr> in
      if currentTerm rf > aeTerm args then Inr (reply, rf)
      else res_bind (ae_adopt_term C args rf) (\<lambda>rf1.
        res_bind (ae_leave_candidacy C args rf1) (\<lambda>rf2.
          let rf3 = rf2\<lparr>lastHearBeatTime := now, leaderId := aeLeaderId args\<rparr> in
          res_bind (ae_check args rf3 reply) (\<lambda>failed.
            case failed of
              Some r \<Rightarrow> Inr (r, rf3)
            | None \<Rightarrow> res_bind (CopyEntries C args rf3) (\<lambda>rf4. Inr (reply\<lparr>aerSuccess := True\<rparr>, rf4))))))"

subsection \<open>Snapshots\<close>

definition snapshot_name :: "int \<Rightarrow> int \<Rightarrow> string" where
  "snapshot_name i t = ''snapshot-'' @ itoa i @ ''-'' @ itoa t @ ''.dat''"

definition path_join :: "string \<Rightarrow> string \<Rightarrow> string" where
  "path_join d n = d @ ''/'' @ n"

text \<open>\<^verbatim>\<open>os.ReadFile\<close> of a path under the directory \<open>d\<close>, the only one modelled.\<close>

definition read_path :: "string \<Rightarrow> fs \<Rightarrow> string \<Rightarrow> wal_error + bytes" where
  "read_path d f p =
     (if prefix (d @ ''/'') p then fs_read f (drop (length d + 1) p) else Inl ErrNotFound)"

text \<open>Steps 1 to 3 of both snapshot operations: the file, the record in the log, the truncation.\<close>

definition save_snapshot :: "codecs \<Rightarrow> int \<Rightarrow> int \<Rightarrow> bytes \<Rightarrow> raft \<Rightarrow> raft res" where
  "save_snapshot C i t d rf =
     (case fs_write (disk rf) (snapshot_name i t) d of
        Inl e \<Rightarrow> Inl LoggerPanic
      | Inr f1 \<Rightarrow>
          res_bind (raft_write (rf\<lparr>disk := f1\<rparr>) RecordTypeSnapshot
            (enc (snapC C) \<lparr>LastIncludedIndex = i, LastIncludedTerm = t,
               Path = path_join (dir (rwal rf)) (snapshot_name i t)\<rparr>)) (\<lambda>rf1.
            case wal_Truncate (rwal rf1) (of_int i) (disk rf1) of
              Inl e \<Rightarrow> Inr rf1
            | Inr f2 \<Rightarrow> Inr (rf1\<lparr>disk := f2\<rparr>)))"

definition snapshot_msg :: "bytes \<Rightarrow> int \<Rightarrow> int \<Rightarrow> apply_msg" where
  "snapshot_msg d i t =
     \<lparr>CommandValid = False, Command = [], CommandIndex = 0,
      SnapshotValid = True, SnapshotBytes = d, SnapshotTerm = t, SnapshotIndex = i + 1\<rparr>"

definition SnapshotInstall :: "codecs \<Rightarrow> int \<Rightarrow> si_args \<Rightarrow> raft \<Rightarrow> (si_reply \<times> raft) res" where
  "SnapshotInstall C now args rf =
     (let reply = \<lparr>sirTerm = currentTerm rf\<rparr> in
      if siTerm args < currentTerm rf then Inr (reply, rf)
      else res_bind
        (if siTerm args > currentTerm rf
         then persistState C (rf\<lparr>currentTerm := siTerm args, state := Follower, votedFor := -1\<rparr>)
         else Inr rf) (\<lambda>rf1.
        let rf2 = rf1\<lparr>leaderId := siLeaderId args, lastHearBeatTime := now\<rparr> in
        if siLastIncludeIndex args \<le> lastIncludeIndex rf2 then Inr (reply, rf2)
        else res_bind (save_snapshot C (siLastIncludeIndex args) (siLastIncludeTerm args) (siData args) rf2) (\<lambda>rf3.
          Inr (reply, rf3\<lparr>lastIncludeIndex := siLastIncludeIndex args,
            lastIncludeTerm := siLastIncludeTerm args,
            rlog := [],
            lastApplied := (if lastApplied rf3 < siLastIncludeIndex args then siLastIncludeIndex args else lastApplied rf3),
            commitIndex := (if commitIndex rf3 < siLastIncludeIndex args then siLastIncludeIndex args else commitIndex rf3),
            applyChTerm := applyChTerm rf3
              @ [snapshot_msg (siData args) (siLastIncludeIndex args) (siLastIncludeTerm args)]\<rparr>))))"

definition raft_Snapshot :: "codecs \<Rightarrow> int \<Rightarrow> bytes \<Rightarrow> raft \<Rightarrow> raft res" where
  "raft_Snapshot C index0 d rf =
     (let index = index0 - 1 in
      if index \<le> lastIncludeIndex rf then Inr rf
      else res_bind (go_nth (rlog rf) (index2LogPos rf index)) (\<lambda>e.
        res_bind (save_snapshot C index (LogTerm e) d rf) (\<lambda>rf1.
          res_bind (go_from (rlog rf1) (index - lastIncludeIndex rf1)) (\<lambda>afterLog.
            Inr (rf1\<lparr>rlog := afterLog, lastIncludeIndex := index, lastIncludeTerm := LogTerm e\<rparr>)))))"

subsection \<open>Commitment and client commands\<close>

text \<open>The loop of \<^verbatim>\<open>updateCommitIndex\<close> over the other peers.\<close>

fun match_loop :: "raft \<Rightarrow> nat list \<Rightarrow> int list res" where
  "match_loop rf [] = Inr []"
| "match_loop rf (i # is) =
     (if int i \<noteq> me rf then
        res_bind (go_nth (matchIndex rf) (int i)) (\<lambda>m. res_bind (match_loop rf is) (\<lambda>ms. Inr (m # ms)))
      else match_loop rf is)"

definition updateCommitIndex :: "raft \<Rightarrow> raft res" where
  "updateCommitIndex rf =
     (if state rf = Leader then
        res_bind (match_loop rf [0..<peers rf]) (\<lambda>others.
          let ms = lastIndex rf # others; N = sort ms ! (length ms div 2) in
          if N > commitIndex rf then
            res_bind (if N \<le> lastIncludeIndex rf then Inr True
              else res_bind (go_nth (rlog rf) (index2LogPos rf N)) (\<lambda>e. Inr (currentTerm rf = LogTerm e))) (\<lambda>ok.
              if ok then Inr (undateLastApplied (rf\<lparr>commitIndex := N\<rparr>)) else Inr rf)
          else Inr rf)
      else Inr rf)"

definition raft_Start :: "codecs \<Rightarrow> bytes \<Rightarrow> raft \<Rightarrow> ((int \<times> int \<times> bool) \<times> raft) res" where
  "raft_Start C command rf =
     (let index = lastIndex rf + 1; trm = currentTerm rf; isLeader = (state rf = Leader) in
      if \<not> isLeader then Inr ((index, trm, isLeader), rf)
      else let e = \<lparr>LogTerm = currentTerm rf, LogValue = command\<rparr> in
        res_bind (persistEntry C e (rf\<lparr>rlog := rlog rf @ [e]\<rparr>)) (\<lambda>rf1. Inr ((index, trm, isLeader), rf1)))"

subsection \<open>Elections\<close>

text \<open>
  \<^verbatim>\<open>electionLoop\<close> runs one election at a time. Its first locked section (\<open>election_begin\<close>, with
  \<open>ms\<close> the random timeout drawn) may start an election and yields the request to send; the replies
  are counted without the lock (\<open>collect_votes\<close>: what the \<^verbatim>\<open>select\<close> receives, in order); the last
  locked section (\<open>election_end\<close>) acts on the count and says whether the peer became leader, in
  which case it then submits an empty operation with \<^verbatim>\<open>Start\<close>.
\<close>

definition election_begin :: "codecs \<Rightarrow> int \<Rightarrow> int \<Rightarrow> raft \<Rightarrow> (rv_args option \<times> raft) res" where
  "election_begin C now ms rf =
     (let timeCount = now - lastHearBeatTime rf;
          rf1 = (if state rf = Follower \<and> timeCount \<ge> ms then rf\<lparr>state := Candidate, leaderId := -1\<rparr> else rf)
      in if state rf1 = Candidate \<and> timeCount \<ge> ms then
           res_bind (persistState C (rf1\<lparr>lastHearBeatTime := now, leaderId := -1,
             currentTerm := currentTerm rf1 + 1, votedFor := me rf1\<rparr>)) (\<lambda>rf2.
             Inr (Some \<lparr>rvTerm = currentTerm rf2, rvCandidateId = me rf2,
                        rvLastLogIndex = lastIndex rf2, rvLastLogTerm = lastTerm rf2\<rparr>, rf2))
         else Inr (None, rf1))"

datatype vote_event = VoteResult "rv_reply option" | VoteTimeout

record vote_count =
  voteCount :: nat
  finishCount :: nat
  maxTerm :: int

definition count_vote :: "rv_reply option \<Rightarrow> vote_count \<Rightarrow> vote_count" where
  "count_vote resp c =
     (case resp of
        None \<Rightarrow> c\<lparr>finishCount := finishCount c + 1\<rparr>
      | Some r \<Rightarrow> c\<lparr>finishCount := finishCount c + 1,
          voteCount := (if rvrVoteGranted r then voteCount c + 1 else voteCount c),
          maxTerm := (if rvrTerm r > maxTerm c then rvrTerm r else maxTerm c)\<rparr>)"

fun collect_votes :: "nat \<Rightarrow> vote_event list \<Rightarrow> vote_count \<Rightarrow> vote_count" where
  "collect_votes n [] c = c"
| "collect_votes n (VoteTimeout # es) c = c"
| "collect_votes n (VoteResult resp # es) c =
     (let c1 = count_vote resp c in
      if finishCount c1 = n \<or> voteCount c1 > n div 2 then c1 else collect_votes n es c1)"

definition init_votes :: vote_count where
  "init_votes = \<lparr>voteCount = 1, finishCount = 1, maxTerm = 0\<rparr>"

definition election_end :: "codecs \<Rightarrow> int \<Rightarrow> vote_count \<Rightarrow> raft \<Rightarrow> (bool \<times> raft) res" where
  "election_end C now c rf =
     (if state rf \<noteq> Candidate then Inr (False, rf)
      else if maxTerm c > currentTerm rf then
        res_bind (persistState C (rf\<lparr>state := Follower, leaderId := -1, currentTerm := maxTerm c, votedFor := -1\<rparr>))
          (\<lambda>rf1. Inr (False, rf1))
      else if voteCount c > peers rf div 2 then
        res_bind (updateCommitIndex (rf\<lparr>IisBack := False, state := Leader, leaderId := me rf,
            nextIndex := replicate (peers rf) (lastIndex rf + 1),
            matchIndex := replicate (peers rf) (-1)\<rparr>)) (\<lambda>rf1.
          Inr (True, rf1\<lparr>lastSendHeartbeatTime := now - 2 * HeartBeatInterval\<rparr>))
      else Inr (False, rf))"

text \<open>The whole turn of the loop when nothing else takes the lock in between.\<close>

definition election_turn :: "codecs \<Rightarrow> int \<Rightarrow> int \<Rightarrow> vote_event list \<Rightarrow> raft \<Rightarrow> raft res" where
  "election_turn C now ms evs rf =
     (if dead rf then Inr rf
      else res_bind (election_begin C now ms rf) (\<lambda>(req, rf1).
        case req of
          None \<Rightarrow> Inr rf1
        | Some args \<Rightarrow>
            res_bind (election_end C now (collect_votes (peers rf1) evs init_votes) rf1) (\<lambda>(won, rf2).
              if won then res_bind (raft_Start C (op_Marshal (opC C) empty_op) rf2) (\<lambda>(_, rf3). Inr rf3)
              else Inr rf2)))"

subsection \<open>Replication, the leader's side\<close>

datatype ae_result = AEresult_Accept | AEresult_Reject | AEresult_StopSending | AEresult_Ignore | AEresult_Lost

text \<open>
  \<^verbatim>\<open>SendAppendEntriesToPeerId\<close> up to the RPC: the message, or \<open>None\<close> when the peer is not leader.
\<close>

definition append_request :: "int \<Rightarrow> raft \<Rightarrow> ae_args option res" where
  "append_request server rf =
     (if state rf \<noteq> Leader then Inr None
      else res_bind (go_nth (nextIndex rf) server) (\<lambda>nx.
        let args = \<lparr>aeTerm = currentTerm rf, aeLeaderId = me rf, aePrevLogIndex = nx - 1, aePrevLogTerm = 0,
                    aeLeaderCommit = commitIndex rf, aeEntries = []\<rparr>
        in if aePrevLogIndex args \<ge> lastIncludeIndex rf then
             res_bind (if aePrevLogIndex args = lastIncludeIndex rf then Inr (lastIncludeTerm rf)
               else res_bind (go_nth (rlog rf) (index2LogPos rf (aePrevLogIndex args))) (\<lambda>e. Inr (LogTerm e))) (\<lambda>pt.
               res_bind (go_from (rlog rf) (index2LogPos rf nx)) (\<lambda>es.
                 Inr (Some (args\<lparr>aePrevLogTerm := pt, aeEntries := es\<rparr>))))
           else Inr (Some args)))"

text \<open>The leader's search for its own first index of the conflicting term.\<close>

function search_term :: "raft \<Rightarrow> int \<Rightarrow> int \<Rightarrow> int \<Rightarrow> int res" where
  "search_term rf ct i found =
     (if i > lastIncludeIndex rf then
        res_bind (go_nth (rlog rf) (index2LogPos rf i)) (\<lambda>e.
          if LogTerm e = ct then search_term rf ct (i - 1) i else Inr found)
      else Inr found)"
  by pat_completeness auto
termination
  by (relation "measure (\<lambda>(rf, ct, i, found). nat (i - lastIncludeIndex rf))") auto

declare search_term.simps [simp del]

definition backoff_index :: "ae_args \<Rightarrow> ae_reply \<Rightarrow> raft \<Rightarrow> int res" where
  "backoff_index args reply rf =
     res_bind
       (if aerConflictTerm reply \<noteq> -1
        then res_bind (search_term rf (aerConflictTerm reply) (aePrevLogIndex args) (-1)) (\<lambda>s.
          Inr (if s \<noteq> -1 then s else aerConflictIndex reply))
        else Inr (aerConflictIndex reply)) (\<lambda>nx.
       Inr (if nx = 0 then 1 else nx))"

definition append_reply :: "codecs \<Rightarrow> int \<Rightarrow> ae_args \<Rightarrow> ae_reply option \<Rightarrow> raft \<Rightarrow> (ae_result \<times> raft) res" where
  "append_reply C server args reply rf =
     (case reply of
        None \<Rightarrow> Inr (AEresult_Lost, rf)
      | Some r \<Rightarrow>
          if aeTerm args \<noteq> currentTerm rf then Inr (AEresult_Ignore, rf)
          else if currentTerm rf < aerTerm r then
            res_bind (persistState C (rf\<lparr>votedFor := -1, state := Follower, currentTerm := aerTerm r, leaderId := -1\<rparr>))
              (\<lambda>rf1. Inr (AEresult_StopSending, rf1))
          else if aerSuccess r then
            let nx = aePrevLogIndex args + int (length (aeEntries args)) + 1 in
            res_bind (go_set (nextIndex rf) server nx) (\<lambda>ni.
              res_bind (go_set (matchIndex rf) server (nx - 1)) (\<lambda>mi.
                res_bind (updateCommitIndex (rf\<lparr>nextIndex := ni, matchIndex := mi\<rparr>)) (\<lambda>rf1.
                  Inr (AEresult_Accept, rf1))))
          else
            res_bind (backoff_index args r rf) (\<lambda>nx.
              res_bind (go_set (nextIndex rf) server nx) (\<lambda>ni.
                Inr (AEresult_Reject, rf\<lparr>nextIndex := ni\<rparr>))))"

text \<open>\<^verbatim>\<open>SendAppendEntriesToAll\<close>: which of the two senders is started for each other peer.\<close>

datatype send_kind = SendSnapshot nat | SendEntries nat

fun send_to_all :: "raft \<Rightarrow> nat list \<Rightarrow> send_kind list res" where
  "send_to_all rf [] = Inr []"
| "send_to_all rf (i # is) =
     (if int i = me rf then send_to_all rf is
      else if dead rf then Inr []
      else res_bind (go_nth (nextIndex rf) (int i)) (\<lambda>nx.
        res_bind (send_to_all rf is) (\<lambda>rest.
          Inr ((if nx \<le> lastIncludeIndex rf then SendSnapshot i else SendEntries i) # rest))))"

definition SendAppendEntriesToAll :: "raft \<Rightarrow> send_kind list res" where
  "SendAppendEntriesToAll rf = send_to_all rf [0..<peers rf]"

text \<open>\<^verbatim>\<open>SendOnlyAppendEntriesToAll\<close>, which nothing calls: entries for every other peer, also one that is behind the snapshot.\<close>

fun send_only :: "raft \<Rightarrow> nat list \<Rightarrow> send_kind list" where
  "send_only rf [] = []"
| "send_only rf (i # is) = (if int i = me rf then send_only rf is else if dead rf then [] else SendEntries i # send_only rf is)"

definition SendOnlyAppendEntriesToAll :: "raft \<Rightarrow> send_kind list" where
  "SendOnlyAppendEntriesToAll rf = send_only rf [0..<peers rf]"

definition appendEntries_turn :: "int \<Rightarrow> raft \<Rightarrow> (send_kind list \<times> raft) res" where
  "appendEntries_turn now rf =
     (if dead rf \<or> state rf \<noteq> Leader \<or> now - lastSendHeartbeatTime rf < HeartBeatInterval then Inr ([], rf)
      else let rf1 = rf\<lparr>lastSendHeartbeatTime := now\<rparr> in
        res_bind (SendAppendEntriesToAll rf1) (\<lambda>ks. Inr (ks, rf1)))"

text \<open>\<^verbatim>\<open>sendInstallSnapshotToPeerId\<close> up to the RPC, and what it does with the reply.\<close>

definition snapshot_request :: "raft \<Rightarrow> si_args option" where
  "snapshot_request rf =
     (if state rf \<noteq> Leader then None
      else case read_path (dir (rwal rf)) (disk rf)
          (path_join (dir (rwal rf)) (snapshot_name (lastIncludeIndex rf) (lastIncludeTerm rf))) of
        Inl e \<Rightarrow> None
      | Inr d \<Rightarrow> Some \<lparr>siTerm = currentTerm rf, siLeaderId = me rf, siLastIncludeIndex = lastIncludeIndex rf,
          siLastIncludeTerm = lastIncludeTerm rf, siData = d\<rparr>)"

definition snapshot_reply :: "codecs \<Rightarrow> int \<Rightarrow> si_args \<Rightarrow> si_reply option \<Rightarrow> raft \<Rightarrow> raft res" where
  "snapshot_reply C server args reply rf =
     (case reply of
        None \<Rightarrow> Inr rf
      | Some r \<Rightarrow>
          if currentTerm rf \<noteq> siTerm args then Inr rf
          else if sirTerm r > currentTerm rf then
            persistState C (rf\<lparr>state := Follower, leaderId := -1, currentTerm := sirTerm r, votedFor := -1\<rparr>)
          else
            res_bind (go_set (nextIndex rf) server (siLastIncludeIndex args + 1)) (\<lambda>ni.
              res_bind (go_set (matchIndex rf) server (siLastIncludeIndex args)) (\<lambda>mi.
                updateCommitIndex (rf\<lparr>nextIndex := ni, matchIndex := mi\<rparr>))))"

subsection \<open>Start and recovery\<close>

text \<open>
  One record of \<^verbatim>\<open>loadFromWAL\<close>. The snapshot message is sent on \<^verbatim>\<open>rf.applyCh\<close> itself, which \<^verbatim>\<open>Make\<close>
  sets only after the recovery: on the nil channel the send never completes.
\<close>

definition load_record :: "codecs \<Rightarrow> char \<times> bytes \<Rightarrow> raft \<Rightarrow> raft res" where
  "load_record C r rf =
     (if fst r = RecordTypeState then
        case dec (stateC C) (snd r) of
          None \<Rightarrow> Inl LoggerPanic
        | Some s \<Rightarrow> Inr (rf\<lparr>currentTerm := StateTerm s, votedFor := StateVotedFor s\<rparr>)
      else if fst r = RecordTypeEntry then
        case dec (entryC C) (snd r) of
          None \<Rightarrow> Inl LoggerPanic
        | Some e \<Rightarrow> Inr (rf\<lparr>rlog := rlog rf @ [e]\<rparr>)
      else if fst r = RecordTypeSnapshot then
        case dec (snapC C) (snd r) of
          None \<Rightarrow> Inl LoggerPanic
        | Some s \<Rightarrow>
            (case read_path (dir (rwal rf)) (disk rf) (Path s) of
               Inl e \<Rightarrow> Inl LoggerPanic
             | Inr d \<Rightarrow>
                 case applyCh rf of
                   None \<Rightarrow> Inl Deadlock
                 | Some ch \<Rightarrow> Inr (rf\<lparr>lastIncludeIndex := LastIncludedIndex s, lastIncludeTerm := LastIncludedTerm s,
                   rlog := [],
                   applyCh := Some (ch @ [snapshot_msg d (LastIncludedIndex s) (LastIncludedTerm s)]),
                   lastApplied := LastIncludedIndex s, commitIndex := LastIncludedIndex s\<rparr>))
      else Inr rf)"

fun load_records :: "codecs \<Rightarrow> (char \<times> bytes) list \<Rightarrow> raft \<Rightarrow> raft res" where
  "load_records C [] rf = Inr rf"
| "load_records C (r # rs) rf = res_bind (load_record C r rf) (load_records C rs)"

definition loadFromWAL :: "codecs \<Rightarrow> raft \<Rightarrow> raft res" where
  "loadFromWAL C rf =
     (case wal_ReadAll (rwal rf) (disk rf) of
        Inl e \<Rightarrow> Inl LoggerPanic
      | Inr rs \<Rightarrow> load_records C rs rf)"

definition zero_raft :: "int \<Rightarrow> wal \<Rightarrow> fs \<Rightarrow> raft" where
  "zero_raft m w f =
     \<lparr>peers = 0, rwal = w, disk = f, me = m, dead = False, state = Follower, currentTerm = 0, votedFor = -1,
      rlog = [], lastIncludeIndex = -1, lastIncludeTerm = -1, commitIndex = -1, lastApplied = -1,
      nextIndex = [], matchIndex = [], lastHearBeatTime = 0, lastSendHeartbeatTime = 0, leaderId = -1,
      applyCh = None, applyChTerm = [], IisBack = False, IisBackIndex = 0\<rparr>"

text \<open>
  \<^verbatim>\<open>Make\<close> with \<open>n\<close> endpoints. \<^verbatim>\<open>rf.peers\<close> is still nil when the loop that
  should initialise \<^verbatim>\<open>nextIndex\<close> and \<^verbatim>\<open>matchIndex\<close> runs, so both stay zero. Listening and
  connecting to the other peers follow in the theory \<^verbatim>\<open>Startup\<close>.
\<close>

definition raft_Make :: "codecs \<Rightarrow> int \<Rightarrow> int \<Rightarrow> string \<Rightarrow> nat \<Rightarrow> fs \<Rightarrow> raft res" where
  "raft_Make C now m walDir n f =
     (case wal_Open walDir f of
        Inl e \<Rightarrow> Inl LoggerPanic
      | Inr (w, f1) \<Rightarrow>
          res_bind (loadFromWAL C (zero_raft m w f1)) (\<lambda>rf.
            Inr (rf\<lparr>nextIndex := replicate n 0, matchIndex := replicate n 0,
              lastHearBeatTime := now, lastSendHeartbeatTime := now,
              applyCh := Some [], applyChTerm := [], peers := n\<rparr>)))"

subsection \<open>Codecs for the witnesses\<close>

text \<open>The records the codecs are used at are countable, so lawful codecs exist for all of them.\<close>

instance RaftStateRecord_ext :: (countable) countable
proof (rule countable_classI [of "\<lambda>s. to_nat (StateTerm s, StateVotedFor s, RaftStateRecord.more s)"])
  fix x y :: "'a RaftStateRecord_scheme"
  assume "to_nat (StateTerm x, StateVotedFor x, RaftStateRecord.more x)
    = to_nat (StateTerm y, StateVotedFor y, RaftStateRecord.more y)"
  then show "x = y" by (cases x; cases y) simp
qed

instance SnapshotRecord_ext :: (countable) countable
proof (rule countable_classI [of "\<lambda>s. to_nat (LastIncludedIndex s, LastIncludedTerm s, Path s, SnapshotRecord.more s)"])
  fix x y :: "'a SnapshotRecord_scheme"
  assume "to_nat (LastIncludedIndex x, LastIncludedTerm x, Path x, SnapshotRecord.more x)
    = to_nat (LastIncludedIndex y, LastIncludedTerm y, Path y, SnapshotRecord.more y)"
  then show "x = y" by (cases x; cases y) simp
qed

definition count_codecs :: codecs where
  "count_codecs = \<lparr>stateC = count_codec, snapC = count_codec, entryC = count_codec, opC = count_codec\<rparr>"

lemma count_codecs_ok [simp]: "codecs_ok count_codecs"
  by (simp add: codecs_ok_def count_codecs_def count_codec_ok)

end
