(* ===== verification/RaftLog.thy ===== *)
theory RaftLog
  imports RaftNode
begin

text \<open>
  The log of one Raft peer: what the operations of \<^verbatim>\<open>src/raft/raft.go\<close> do to the entries and to the
  commit index, on every branch. The steps of a peer and their invariants are in \<^verbatim>\<open>RaftSteps\<close>.
\<close>

section \<open>Notions the lemmas use\<close>

text \<open>The indexes of a peer are ordered and within its log.\<close>

definition idx_inv :: "raft \<Rightarrow> bool" where
  "idx_inv rf \<longleftrightarrow> -1 \<le> lastIncludeIndex rf \<and> lastIncludeIndex rf \<le> lastApplied rf \<and>
     lastApplied rf \<le> commitIndex rf \<and> commitIndex rf \<le> lastIndex rf"

text \<open>The entry at an index, where the log has one.\<close>

definition entry_at :: "raft \<Rightarrow> int \<Rightarrow> log_type option" where
  "entry_at rf i =
     (if lastIncludeIndex rf < i \<and> i \<le> lastIndex rf then Some (rlog rf ! nat (index2LogPos rf i)) else None)"

text \<open>The write-ahead log can be written.\<close>

definition disk_up :: "raft \<Rightarrow> bool" where
  "disk_up rf \<longleftrightarrow> wfile (rwal rf) \<noteq> None \<and> \<not> io_fail (disk rf)"

text \<open>
  What the receiver of an \<^verbatim>\<open>AppendEntries\<close> message should keep of the entries \<open>os\<close> it has where the
  message carries \<open>ns\<close>: everything up to the first conflict of terms, and all of it when there is none.
\<close>

fun reconcile :: "log_type list \<Rightarrow> log_type list \<Rightarrow> log_type list" where
  "reconcile old [] = old"
| "reconcile [] (n # ns) = n # ns"
| "reconcile (o' # os) (n # ns) = (if LogTerm o' \<noteq> LogTerm n then n # ns else o' # reconcile os ns)"

text \<open>The log \<^verbatim>\<open>CopyEntries\<close> leaves, and the state before the commit index moves.\<close>

definition merged_log :: "ae_args \<Rightarrow> raft \<Rightarrow> log_type list" where
  "merged_log args rf =
     (let p = nat (aePrevLogIndex args - lastIncludeIndex rf) in take p (rlog rf) @ reconcile (drop p (rlog rf)) (aeEntries args))"

text \<open>The peers that, as far as the leader knows, have everything up to index \<open>N\<close>.\<close>

definition matched :: "raft \<Rightarrow> int \<Rightarrow> nat set" where
  "matched rf N = {i. i < peers rf \<and> (int i = me rf \<or> N \<le> matchIndex rf ! i)}"

text \<open>A follower with two entries of term 1 and a leader of term 2 that replaces the second.\<close>

definition demo_follower :: raft where
  "demo_follower = (zero_raft 1 (fresh_wal ''d'') fresh_fs)\<lparr>currentTerm := 1, peers := 3,
     rlog := [\<lparr>LogTerm = 1, LogValue = ''a''\<rparr>, \<lparr>LogTerm = 1, LogValue = ''b''\<rparr>]\<rparr>"

definition demo_args :: ae_args where
  "demo_args = \<lparr>aeTerm = 2, aeLeaderId = 0, aePrevLogIndex = 0, aePrevLogTerm = 1, aeLeaderCommit = 1,
     aeEntries = [\<lparr>LogTerm = 2, LogValue = ''c''\<rparr>]\<rparr>"

text \<open>The leader of term 2 in that example.\<close>

definition demo_leader :: raft where
  "demo_leader = (zero_raft 0 (fresh_wal ''d'') fresh_fs)\<lparr>currentTerm := 2, peers := 3, state := Leader, commitIndex := 1,
     rlog := [\<lparr>LogTerm = 1, LogValue = ''a''\<rparr>, \<lparr>LogTerm = 2, LogValue = ''c''\<rparr>], nextIndex := [2, 1, 1], matchIndex := [-1, 1, -1]\<rparr>"

lemmas demo_defs = demo_follower_def demo_args_def zero_raft_def

section \<open>Lemmas\<close>

lemma raft_write_Inr_iff [res_simps]:
  "raft_write rf t d = Inr rf' \<longleftrightarrow> (\<exists>f. wal_Write (rwal rf) t d (disk rf) = Inr f \<and> rf' = rf\<lparr>disk := f\<rparr>)"
  by (auto simp: raft_write_def split: sum.splits)

lemma raft_write_Inl_iff [res_simps]:
  "raft_write rf t d = Inl p \<longleftrightarrow> p = LoggerPanic \<and> \<not> disk_up rf"
  by (auto simp: raft_write_def wal_Write_def disk_up_def split: sum.splits option.splits if_splits)

lemma persistState_Inr_iff [res_simps]:
  "persistState C rf = Inr rf' \<longleftrightarrow>
     (\<exists>f. wal_Write (rwal rf) RecordTypeState
        (enc (stateC C) \<lparr>StateTerm = currentTerm rf, StateVotedFor = votedFor rf\<rparr>) (disk rf) = Inr f \<and>
      rf' = rf\<lparr>disk := f\<rparr>)"
  by (simp add: persistState_def res_simps)

lemma persistEntry_Inr_iff [res_simps]:
  "persistEntry C e rf = Inr rf' \<longleftrightarrow>
     (\<exists>f. wal_Write (rwal rf) RecordTypeEntry (enc (entryC C) e) (disk rf) = Inr f \<and> rf' = rf\<lparr>disk := f\<rparr>)"
  by (simp add: persistEntry_def res_simps)

lemma persist_Inl_iff [res_simps]:
  "persistState C rf = Inl p \<longleftrightarrow> p = LoggerPanic \<and> \<not> disk_up rf"
  "persistEntry C e rf = Inl p \<longleftrightarrow> p = LoggerPanic \<and> \<not> disk_up rf"
  by (simp_all add: persistState_def persistEntry_def res_simps)

lemma wal_Write_up: "wal_Write w t d f = Inr f' \<Longrightarrow> wfile w \<noteq> None \<and> \<not> io_fail f'"
  by (auto simp: wal_Write_def split: option.splits if_splits)

section \<open>Applying\<close>

lemma undateLastApplied_frame [frame_simps]:
  "currentTerm (undateLastApplied rf) = currentTerm rf"
  "votedFor (undateLastApplied rf) = votedFor rf"
  "state (undateLastApplied rf) = state rf"
  "me (undateLastApplied rf) = me rf"
  "peers (undateLastApplied rf) = peers rf"
  "rlog (undateLastApplied rf) = rlog rf"
  "lastIncludeIndex (undateLastApplied rf) = lastIncludeIndex rf"
  "lastIncludeTerm (undateLastApplied rf) = lastIncludeTerm rf"
  "commitIndex (undateLastApplied rf) = commitIndex rf"
  "nextIndex (undateLastApplied rf) = nextIndex rf"
  "matchIndex (undateLastApplied rf) = matchIndex rf"
  "disk (undateLastApplied rf) = disk rf"
  "rwal (undateLastApplied rf) = rwal rf"
  "leaderId (undateLastApplied rf) = leaderId rf"
  "dead (undateLastApplied rf) = dead rf"
  by (induction rf rule: undateLastApplied.induct; subst undateLastApplied.simps; simp add: Let_def)+

lemma command_msg_frame [simp]:
  "command_msg (rf\<lparr>lastApplied := a, applyChTerm := b, IisBack := c\<rparr>) = command_msg rf"
  by (simp add: command_msg_def fun_eq_iff index2LogPos_def)

lemma undateLastApplied_spec:
  assumes "lastIncludeIndex rf \<le> lastApplied rf" "commitIndex rf \<le> lastIndex rf" "lastApplied rf \<le> commitIndex rf"
  shows "undateLastApplied rf = rf\<lparr>lastApplied := commitIndex rf,
     applyChTerm := applyChTerm rf @ map (command_msg rf) [lastApplied rf + 1..commitIndex rf],
     IisBack := (IisBack rf \<or> lastApplied rf < IisBackIndex rf \<and> IisBackIndex rf \<le> commitIndex rf)\<rparr>"
  using assms
proof (induction rf rule: undateLastApplied.induct)
  case (1 rf)
  show ?case
  proof (cases "lastApplied rf < commitIndex rf")
    case False
    with "1.prems" have eq: "commitIndex rf = lastApplied rf" by simp
    have "undateLastApplied rf = rf" using False by (subst undateLastApplied.simps) simp
    also have "\<dots> = rf\<lparr>lastApplied := commitIndex rf,
     applyChTerm := applyChTerm rf @ map (command_msg rf) [lastApplied rf + 1..commitIndex rf],
     IisBack := (IisBack rf \<or> lastApplied rf < IisBackIndex rf \<and> IisBackIndex rf \<le> commitIndex rf)\<rparr>"
      by (rule raft.equality) (auto simp: eq)
    finally show ?thesis .
  next
    case True
    let ?i = "lastApplied rf + 1"
    let ?rf1 = "rf\<lparr>lastApplied := ?i, applyChTerm := applyChTerm rf @ [command_msg rf ?i],
               IisBack := (IisBackIndex rf = ?i \<or> IisBack rf)\<rparr>"
    have pos: "\<not> (index2LogPos rf ?i < 0 \<or> index2LogPos rf ?i \<ge> int (length (rlog rf)))"
      using "1.prems" True by (auto simp: index2LogPos_def lastIndex_def)
    have "undateLastApplied rf = undateLastApplied ?rf1"
      using True pos by (subst undateLastApplied.simps) (simp add: Let_def)
    also have "\<dots> = ?rf1\<lparr>lastApplied := commitIndex ?rf1,
     applyChTerm := applyChTerm ?rf1 @ map (command_msg ?rf1) [lastApplied ?rf1 + 1..commitIndex ?rf1],
     IisBack := (IisBack ?rf1 \<or> lastApplied ?rf1 < IisBackIndex ?rf1 \<and> IisBackIndex ?rf1 \<le> commitIndex ?rf1)\<rparr>"
      using "1.prems" True pos by (intro "1.IH") (simp_all add: Let_def lastIndex_def)
    also have "\<dots> = rf\<lparr>lastApplied := commitIndex rf,
     applyChTerm := applyChTerm rf @ map (command_msg rf) [lastApplied rf + 1..commitIndex rf],
     IisBack := (IisBack rf \<or> lastApplied rf < IisBackIndex rf \<and> IisBackIndex rf \<le> commitIndex rf)\<rparr>"
      using True upto_rec1 [of ?i "commitIndex rf"] by (intro raft.equality) auto
    finally show ?thesis .
  qed
qed

section \<open>Appending\<close>

lemma reconcile_Nil [simp]: "reconcile [] ns = ns"
  by (cases ns) auto

lemma copy_loop_reconcile:
  assumes "copy_loop C idx es rf = Inr rf'" "lastIncludeIndex rf < idx" "idx \<le> lastIndex rf + 1"
  shows "\<exists>f. rf' = rf\<lparr>rlog := take (nat (index2LogPos rf idx)) (rlog rf) @ reconcile (drop (nat (index2LogPos rf idx)) (rlog rf)) es, disk := f\<rparr>"
  using assms
proof (induction es arbitrary: idx rf)
  case Nil
  then show ?case by (intro exI [of _ "disk rf"] raft.equality) auto
next
  case (Cons e es)
  let ?p = "nat (index2LogPos rf idx)"
  have p: "int ?p = idx - lastIncludeIndex rf - 1" using Cons.prems by (simp add: index2LogPos_def)
  consider (app) "idx > lastIndex rf" | (conf) "idx \<le> lastIndex rf" "LogTerm (rlog rf ! ?p) \<noteq> LogTerm e"
    | (same) "idx \<le> lastIndex rf" "LogTerm (rlog rf ! ?p) = LogTerm e" by linarith
  then show ?case
  proof cases
    case app
    then have len: "?p = length (rlog rf)" using Cons.prems p by (simp add: lastIndex_def index2LogPos_def)
    from app Cons.prems(1) obtain rf1 where rf1: "persistEntry C e (rf\<lparr>rlog := rlog rf @ [e]\<rparr>) = Inr rf1"
      and rec: "copy_loop C (idx + 1) es rf1 = Inr rf'" by (auto simp: res_bind_Inr_iff)
    from rf1 have eq: "rf1 = rf\<lparr>rlog := rlog rf @ [e], disk := disk rf1\<rparr>" by (auto simp: res_simps)
    have fs: "rlog rf1 = rlog rf @ [e]" "lastIncludeIndex rf1 = lastIncludeIndex rf" by (subst eq, simp)+
    have ov: "rf1\<lparr>rlog := l, disk := f\<rparr> = rf\<lparr>rlog := l, disk := f\<rparr>" for l f by (subst eq) simp
    have p1: "nat (index2LogPos rf1 (idx + 1)) = length (rlog rf1)"
      using len p fs by (simp add: index2LogPos_def)
    have "lastIncludeIndex rf1 < idx + 1" "idx + 1 \<le> lastIndex rf1 + 1"
      using Cons.prems(2,3) app fs by (simp_all add: lastIndex_def)
    from Cons.IH [OF rec this] p1 obtain f where "rf' = rf1\<lparr>rlog := rlog rf1 @ es, disk := f\<rparr>" by auto
    then have "rf' = rf\<lparr>rlog := rlog rf @ e # es, disk := f\<rparr>" by (simp add: ov fs)
    with len show ?thesis by auto
  next
    case conf
    then have lt: "?p < length (rlog rf)" using Cons.prems p unfolding lastIndex_def by linarith
    from conf Cons.prems p obtain rf1 where rf1: "persistEntry C e (rf\<lparr>rlog := take ?p (rlog rf) @ [e]\<rparr>) = Inr rf1"
      and rec: "copy_loop C (idx + 1) es rf1 = Inr rf'" by (auto simp: res_bind_Inr_iff go_nth_Inr_iff go_upto_Inr_iff)
    from rf1 have eq: "rf1 = rf\<lparr>rlog := take ?p (rlog rf) @ [e], disk := disk rf1\<rparr>" by (auto simp: res_simps)
    have fs: "rlog rf1 = take ?p (rlog rf) @ [e]" "lastIncludeIndex rf1 = lastIncludeIndex rf" by (subst eq, simp)+
    have ov: "rf1\<lparr>rlog := l, disk := f\<rparr> = rf\<lparr>rlog := l, disk := f\<rparr>" for l f by (subst eq) simp
    have p1: "nat (index2LogPos rf1 (idx + 1)) = length (rlog rf1)"
      using lt p fs Cons.prems(2) by (simp add: index2LogPos_def)
    have l1: "lastIncludeIndex rf1 < idx + 1" using Cons.prems(2) fs by linarith
    have "int (length (rlog rf1)) = int ?p + 1" using lt fs by simp
    then have "idx + 1 \<le> lastIndex rf1 + 1" using fs p unfolding lastIndex_def by linarith
    note this = l1 this
    from Cons.IH [OF rec this] p1 obtain f where "rf' = rf1\<lparr>rlog := rlog rf1 @ es, disk := f\<rparr>" by auto
    then have "rf' = rf\<lparr>rlog := take ?p (rlog rf) @ e # es, disk := f\<rparr>" by (simp add: ov fs)
    moreover have "reconcile (drop ?p (rlog rf)) (e # es) = e # es"
      using lt conf by (simp add: Cons_nth_drop_Suc [symmetric])
    ultimately show ?thesis by auto
  next
    case same
    then have lt: "?p < length (rlog rf)" using Cons.prems p unfolding lastIndex_def by linarith
    from same Cons.prems p have rec: "copy_loop C (idx + 1) es rf = Inr rf'" by (auto simp: res_simps)
    have "lastIncludeIndex rf < idx + 1" "idx + 1 \<le> lastIndex rf + 1" using Cons.prems same by simp_all
    from Cons.IH [OF rec this] obtain f where
      f: "rf' = rf\<lparr>rlog := take (Suc ?p) (rlog rf) @ reconcile (drop (Suc ?p) (rlog rf)) es, disk := f\<rparr>"
      using p by (auto simp: index2LogPos_def nat_add_distrib [symmetric] Suc_nat_eq_nat_zadd1 algebra_simps)
    have "reconcile (drop ?p (rlog rf)) (e # es) = rlog rf ! ?p # reconcile (drop (Suc ?p) (rlog rf)) es"
      using lt same by (simp add: Cons_nth_drop_Suc [symmetric])
    with f lt show ?thesis by (auto simp: take_Suc_conv_app_nth)
  qed
qed

lemma reconcile_terms: "map LogTerm (take (length ns) (reconcile os ns)) = map LogTerm ns"
  by (induction os ns rule: reconcile.induct) auto

lemma length_reconcile: "length ns \<le> length (reconcile os ns)"
  by (induction os ns rule: reconcile.induct) auto

lemma reconcile_same:
  "length ns \<le> length os \<Longrightarrow> map LogTerm (take (length ns) os) = map LogTerm ns \<Longrightarrow> reconcile os ns = os"
  by (induction os ns rule: reconcile.induct) auto

lemma reconcile_keeps:
  "k \<le> length os \<Longrightarrow> (\<And>j. j < k \<Longrightarrow> j < length ns \<Longrightarrow> LogTerm (os ! j) = LogTerm (ns ! j)) \<Longrightarrow>
   take k (reconcile os ns) = take k os"
proof (induction os ns arbitrary: k rule: reconcile.induct)
  case (3 o' os n ns)
  show ?case
  proof (cases k)
    case (Suc k')
    have "LogTerm o' = LogTerm n" using "3.prems"(2) [of 0] Suc by simp
    moreover have "take k' (reconcile os ns) = take k' os" if "LogTerm o' = LogTerm n"
    proof (rule "3.IH")
      show "LogTerm (os ! j) = LogTerm (ns ! j)" if "j < k'" "j < length ns" for j
        using "3.prems"(2) [of "Suc j"] that Suc by simp
    qed (use that "3.prems"(1) Suc in auto)
    ultimately show ?thesis using Suc by simp
  qed simp
qed auto

lemma copy_loop_panic:
  "copy_loop C idx es rf = Inl p \<Longrightarrow> lastIncludeIndex rf < idx \<Longrightarrow> idx \<le> lastIndex rf + 1 \<Longrightarrow>
   p = LoggerPanic \<and> \<not> disk_up rf"
proof (induction es arbitrary: idx rf)
  case (Cons e es)
  show ?case
  proof (cases "idx > lastIndex rf")
    case True
    from True Cons.prems consider "persistEntry C e (rf\<lparr>rlog := rlog rf @ [e]\<rparr>) = Inl p"
      | rf1 where "persistEntry C e (rf\<lparr>rlog := rlog rf @ [e]\<rparr>) = Inr rf1" "copy_loop C (idx + 1) es rf1 = Inl p"
      by (auto simp: res_bind_Inl_iff)
    then show ?thesis
    proof cases
      case 2
      then obtain f where rf1: "rf1 = rf\<lparr>rlog := rlog rf @ [e], disk := f\<rparr>" and f: "\<not> io_fail f"
        by (auto simp: res_simps dest: wal_Write_up)
      from 2 have "disk_up rf" by (auto simp: res_simps disk_up_def wal_Write_def split: option.splits if_splits)
      moreover have "p = LoggerPanic \<and> \<not> disk_up rf1"
        using True Cons.prems(2,3) rf1 by (intro Cons.IH [OF 2(2)]) (simp_all add: lastIndex_def)
      ultimately show ?thesis using rf1 f by (simp add: disk_up_def)
    qed (auto simp: res_simps disk_up_def)
  next
    case False
    let ?p = "index2LogPos rf idx"
    have r: "0 \<le> ?p" "?p < int (length (rlog rf))"
      using Cons.prems(2,3) False by (simp_all add: index2LogPos_def lastIndex_def)
    then have g: "go_nth (rlog rf) ?p = Inr (rlog rf ! nat ?p)" "go_upto (rlog rf) ?p = Inr (take (nat ?p) (rlog rf))"
      by (simp_all add: go_nth_def go_upto_def)
    show ?thesis
    proof (cases "LogTerm (rlog rf ! nat ?p) = LogTerm e")
      case True
      with False Cons.prems g show ?thesis by (intro Cons.IH [of "idx + 1" rf]) auto
    next
      case ne: False
      let ?rf0 = "rf\<lparr>rlog := take (nat ?p) (rlog rf) @ [e]\<rparr>"
      from False ne Cons.prems g consider "persistEntry C e ?rf0 = Inl p"
        | rf1 where "persistEntry C e ?rf0 = Inr rf1" "copy_loop C (idx + 1) es rf1 = Inl p"
        by (auto simp: res_bind_Inl_iff)
      then show ?thesis
      proof cases
        case 2
        then obtain f where rf1: "rf1 = ?rf0\<lparr>disk := f\<rparr>" and f: "\<not> io_fail f"
          by (auto simp: res_simps dest: wal_Write_up)
        from 2 have "disk_up rf" by (auto simp: res_simps disk_up_def wal_Write_def split: option.splits if_splits)
        moreover have "p = LoggerPanic \<and> \<not> disk_up rf1"
          using False Cons.prems(2,3) rf1 r by (intro Cons.IH [OF 2(2)]) (simp_all add: lastIndex_def index2LogPos_def)
        ultimately show ?thesis using rf1 f by (simp add: disk_up_def)
      qed (auto simp: res_simps disk_up_def)
    qed
  qed
qed simp

lemma ae_prelude:
  assumes "ae_adopt_term C args rf = Inr rf1" "ae_leave_candidacy C args rf1 = Inr rf2" "currentTerm rf \<le> aeTerm args"
  shows "rf2 = rf\<lparr>currentTerm := aeTerm args, state := state rf2, votedFor := votedFor rf2, disk := disk rf2\<rparr> \<and>
    (state rf2 = state rf \<and> votedFor rf2 = votedFor rf \<and> aeTerm args = currentTerm rf \<and> state rf \<noteq> Candidate \<or>
     state rf2 = Follower \<and> votedFor rf2 = -1 \<and> (currentTerm rf < aeTerm args \<or> state rf = Candidate))"
  using assms by (cases rf) (auto simp: ae_adopt_term_def ae_leave_candidacy_def res_simps split: if_splits)

lemma conflict_scan_Inr:
  assumes "i \<le> lastIndex rf"
  shows "\<exists>ci'. conflict_scan rf ct i ci = Inr ci' \<and>
    (ci' = ci \<and> \<not> (lastIncludeIndex rf < i \<and> map_option LogTerm (entry_at rf i) = Some ct) \<or>
     lastIncludeIndex rf < ci' \<and> ci' \<le> i \<and>
     (\<forall>j. ci' \<le> j \<longrightarrow> j \<le> i \<longrightarrow> map_option LogTerm (entry_at rf j) = Some ct) \<and>
     map_option LogTerm (entry_at rf (ci' - 1)) \<noteq> Some ct)"
  using assms
proof (induction rf ct i ci rule: conflict_scan.induct)
  case (1 rf ct i ci)
  show ?case
  proof (cases "lastIncludeIndex rf < i")
    case False
    then show ?thesis by (subst conflict_scan.simps) simp
  next
    case True
    let ?e = "rlog rf ! nat (index2LogPos rf i)"
    have g: "go_nth (rlog rf) (index2LogPos rf i) = Inr ?e"
      using True "1.prems" by (simp add: go_nth_def index2LogPos_def lastIndex_def)
    have e: "entry_at rf i = Some ?e" using True "1.prems" by (simp add: entry_at_def)
    show ?thesis
    proof (cases "LogTerm ?e = ct")
      case False
      then show ?thesis using True g e by (subst conflict_scan.simps) simp
    next
      case eq: True
      have cs: "conflict_scan rf ct i ci = conflict_scan rf ct (i - 1) i"
        using True g eq by (subst conflict_scan.simps) simp
      from "1.IH" [OF True, of ?e] eq "1.prems" obtain ci' where
        c: "conflict_scan rf ct (i - 1) i = Inr ci'" and
        d: "ci' = i \<and> \<not> (lastIncludeIndex rf < i - 1 \<and> map_option LogTerm (entry_at rf (i - 1)) = Some ct) \<or>
          lastIncludeIndex rf < ci' \<and> ci' \<le> i - 1 \<and>
          (\<forall>j. ci' \<le> j \<longrightarrow> j \<le> i - 1 \<longrightarrow> map_option LogTerm (entry_at rf j) = Some ct) \<and>
          map_option LogTerm (entry_at rf (ci' - 1)) \<noteq> Some ct" by auto
      from d have "lastIncludeIndex rf < ci' \<and> ci' \<le> i \<and>
          (\<forall>j. ci' \<le> j \<longrightarrow> j \<le> i \<longrightarrow> map_option LogTerm (entry_at rf j) = Some ct) \<and>
          map_option LogTerm (entry_at rf (ci' - 1)) \<noteq> Some ct"
      proof
        assume "ci' = i \<and> \<not> (lastIncludeIndex rf < i - 1 \<and> map_option LogTerm (entry_at rf (i - 1)) = Some ct)"
        then show ?thesis using True e eq by (auto simp: entry_at_def [of rf "i - 1"])
      next
        assume a: "lastIncludeIndex rf < ci' \<and> ci' \<le> i - 1 \<and>
          (\<forall>j. ci' \<le> j \<longrightarrow> j \<le> i - 1 \<longrightarrow> map_option LogTerm (entry_at rf j) = Some ct) \<and>
          map_option LogTerm (entry_at rf (ci' - 1)) \<noteq> Some ct"
        have "map_option LogTerm (entry_at rf j) = Some ct" if "ci' \<le> j" "j \<le> i" for j
          using a that e eq by (cases "j = i") auto
        with a show ?thesis by auto
      qed
      with cs c show ?thesis by auto
    qed
  qed
qed

lemma CopyEntries_Inr:
  assumes "CopyEntries C args rf = Inr rf'" "lastIncludeIndex rf \<le> aePrevLogIndex args" "aePrevLogIndex args \<le> lastIndex rf"
  obtains f rf1 where "rf1 = rf\<lparr>rlog := merged_log args rf, disk := f\<rparr>"
    "rf' = (if commitIndex rf < min (aeLeaderCommit args) (lastIndex rf1)
       then undateLastApplied (rf1\<lparr>commitIndex := min (aeLeaderCommit args) (lastIndex rf1)\<rparr>) else rf1)"
proof -
  from assms(1) obtain rf1 where c: "copy_loop C (aePrevLogIndex args + 1) (aeEntries args) rf = Inr rf1"
    and r: "(let mn = (if aeLeaderCommit args > lastIndex rf1 then lastIndex rf1 else aeLeaderCommit args)
       in if commitIndex rf1 < mn then Inr (undateLastApplied (rf1\<lparr>commitIndex := mn\<rparr>)) else Inr rf1) = (Inr rf' :: raft res)"
    unfolding CopyEntries_def res_bind_Inr_iff by blast
  have "index2LogPos rf (aePrevLogIndex args + 1) = aePrevLogIndex args - lastIncludeIndex rf"
    by (simp add: index2LogPos_def)
  with copy_loop_reconcile [OF c] assms(2,3) obtain f where f: "rf1 = rf\<lparr>rlog := merged_log args rf, disk := f\<rparr>"
    by (auto simp: merged_log_def Let_def)
  then have "commitIndex rf1 = commitIndex rf" by simp
  with r have "rf' = (if commitIndex rf < min (aeLeaderCommit args) (lastIndex rf1)
       then undateLastApplied (rf1\<lparr>commitIndex := min (aeLeaderCommit args) (lastIndex rf1)\<rparr>) else rf1)"
    by (auto simp: Let_def min_def not_less split: if_splits)
  with f show thesis by (rule that)
qed

lemma conflict_scan_cong:
  "lastIncludeIndex rf' = lastIncludeIndex rf \<Longrightarrow> rlog rf' = rlog rf \<Longrightarrow> conflict_scan rf' ct i ci = conflict_scan rf ct i ci"
  by (induction rf ct i ci rule: conflict_scan.induct; subst (1 2) conflict_scan.simps)
    (simp add: index2LogPos_def res_bind_def split: sum.splits)

lemma ae_check_cong:
  "lastIncludeIndex rf' = lastIncludeIndex rf \<Longrightarrow> rlog rf' = rlog rf \<Longrightarrow> ae_check args rf' reply = ae_check args rf reply"
  using conflict_scan_cong [of rf' rf] by (simp add: ae_check_def lastIndex_def index2LogPos_def cong: if_cong)

lemma ae_check_Inr:
  "\<exists>v. ae_check args rf reply = Inr v"
proof -
  consider "aePrevLogIndex args < lastIncludeIndex rf" | "aePrevLogIndex args > lastIndex rf"
    | "aePrevLogIndex args = lastIncludeIndex rf"
    | "lastIncludeIndex rf < aePrevLogIndex args" "aePrevLogIndex args \<le> lastIndex rf" by linarith
  then show ?thesis
  proof cases
    case 4
    then have "go_nth (rlog rf) (index2LogPos rf (aePrevLogIndex args)) = Inr (rlog rf ! nat (index2LogPos rf (aePrevLogIndex args)))"
      by (simp add: go_nth_def index2LogPos_def lastIndex_def)
    moreover obtain ci where "conflict_scan rf (LogTerm (rlog rf ! nat (index2LogPos rf (aePrevLogIndex args))))
      (aePrevLogIndex args) (aerConflictIndex reply) = Inr ci" using conflict_scan_Inr [OF 4(2)] by blast
    ultimately show ?thesis using 4 by (simp add: ae_check_def)
  qed (auto simp: ae_check_def lastIndex_def)
qed

lemma ae_check_None:
  "ae_check args rf reply = Inr None \<longleftrightarrow>
     lastIncludeIndex rf \<le> aePrevLogIndex args \<and> aePrevLogIndex args \<le> lastIndex rf \<and>
     (lastIncludeIndex rf < aePrevLogIndex args \<longrightarrow>
        map_option LogTerm (entry_at rf (aePrevLogIndex args)) = Some (aePrevLogTerm args))"
  by (auto simp: ae_check_def res_simps entry_at_def index2LogPos_def lastIndex_def split: if_splits)

lemma ae_check_Some:
  assumes "ae_check args rf reply = Inr (Some r)"
  shows "aerSuccess r = aerSuccess reply \<and> aerTerm r = aerTerm reply"
  using assms by (auto simp: ae_check_def res_simps split: if_splits)

lemma AppendEntries_Inr:
  assumes "AppendEntries C now args rf = Inr (r, rf')"
  obtains (stale) "aeTerm args < currentTerm rf" "rf' = rf" "\<not> aerSuccess r"
  | (reject) f s v where "currentTerm rf \<le> aeTerm args" "\<not> aerSuccess r"
      "rf' = rf\<lparr>currentTerm := aeTerm args, state := s, votedFor := v, disk := f, lastHearBeatTime := now, leaderId := aeLeaderId args\<rparr>"
      "ae_check args rf \<lparr>aerTerm = currentTerm rf, aerSuccess = False, aerConflictIndex = -1, aerConflictTerm = -1\<rparr> = Inr (Some r)"
      "s = state rf \<and> v = votedFor rf \<and> aeTerm args = currentTerm rf \<and> state rf \<noteq> Candidate \<or>
       s = Follower \<and> v = -1 \<and> (currentTerm rf < aeTerm args \<or> state rf = Candidate)"
  | (accept) f s v rf3 where "currentTerm rf \<le> aeTerm args" "aerSuccess r"
      "rf3 = rf\<lparr>currentTerm := aeTerm args, state := s, votedFor := v, disk := f, lastHearBeatTime := now, leaderId := aeLeaderId args\<rparr>"
      "lastIncludeIndex rf \<le> aePrevLogIndex args" "aePrevLogIndex args \<le> lastIndex rf"
      "lastIncludeIndex rf < aePrevLogIndex args \<Longrightarrow>
         map_option LogTerm (entry_at rf (aePrevLogIndex args)) = Some (aePrevLogTerm args)"
      "CopyEntries C args rf3 = Inr rf'"
      "s = state rf \<and> v = votedFor rf \<and> aeTerm args = currentTerm rf \<and> state rf \<noteq> Candidate \<or>
       s = Follower \<and> v = -1 \<and> (currentTerm rf < aeTerm args \<or> state rf = Candidate)"
proof (cases "aeTerm args < currentTerm rf")
  case True
  with assms show thesis by (intro stale) (auto simp: AppendEntries_def Let_def)
next
  case False
  let ?reply = "\<lparr>aerTerm = currentTerm rf, aerSuccess = False, aerConflictIndex = -1, aerConflictTerm = -1\<rparr>"
  from False assms obtain rf1 rf2 failed where
    1: "ae_adopt_term C args rf = Inr rf1" "ae_leave_candidacy C args rf1 = Inr rf2" and
    2: "ae_check args (rf2\<lparr>lastHearBeatTime := now, leaderId := aeLeaderId args\<rparr>) ?reply = Inr failed" and
    3: "(case failed of Some r \<Rightarrow> Inr (r, rf2\<lparr>lastHearBeatTime := now, leaderId := aeLeaderId args\<rparr>)
            | None \<Rightarrow> res_bind (CopyEntries C args (rf2\<lparr>lastHearBeatTime := now, leaderId := aeLeaderId args\<rparr>))
                (\<lambda>rf4. Inr (\<lparr>aerTerm = currentTerm rf, aerSuccess = True, aerConflictIndex = -1, aerConflictTerm = -1\<rparr>, rf4))) = (Inr (r, rf') :: (ae_reply \<times> raft) res)"
    by (auto simp: AppendEntries_def Let_def res_bind_Inr_iff)
  from False have le: "currentTerm rf \<le> aeTerm args" by simp
  obtain f s v where rf2: "rf2 = rf\<lparr>currentTerm := aeTerm args, state := s, votedFor := v, disk := f\<rparr>" and
    sv: "s = state rf \<and> v = votedFor rf \<and> aeTerm args = currentTerm rf \<and> state rf \<noteq> Candidate \<or>
       s = Follower \<and> v = -1 \<and> (currentTerm rf < aeTerm args \<or> state rf = Candidate)"
    using ae_prelude [OF 1 le] by blast
  have cong: "ae_check args (rf2\<lparr>lastHearBeatTime := now, leaderId := aeLeaderId args\<rparr>) ?reply = ae_check args rf ?reply"
    by (rule ae_check_cong) (simp_all add: rf2)
  show thesis
  proof (cases failed)
    case (Some r0)
    with 2 3 cong have "ae_check args rf ?reply = Inr (Some r)" by auto
    with Some 3 le rf2 sv ae_check_Some [OF this] show thesis by (intro reject [of f v s]) auto
  next
    case None
    with 2 cong have "ae_check args rf ?reply = Inr None" by simp
    with None 3 le rf2 sv show thesis
      by (intro accept [of "rf2\<lparr>lastHearBeatTime := now, leaderId := aeLeaderId args\<rparr>" f v s])
        (auto simp: ae_check_None res_bind_Inr_iff)
  qed
qed

lemma length_merged_log:
  assumes "lastIncludeIndex rf \<le> aePrevLogIndex args" "aePrevLogIndex args \<le> lastIndex rf"
  shows "aePrevLogIndex args + int (length (aeEntries args)) \<le> lastIncludeIndex rf + int (length (merged_log args rf))"
proof -
  let ?p = "nat (aePrevLogIndex args - lastIncludeIndex rf)"
  have "int (min (length (rlog rf)) ?p) = aePrevLogIndex args - lastIncludeIndex rf"
    using assms by (simp add: lastIndex_def)
  then show ?thesis using length_reconcile [of "aeEntries args" "drop ?p (rlog rf)"]
    by (simp add: merged_log_def Let_def)
qed

lemma entry_at_take:
  assumes "take (nat (c - lastIncludeIndex rf)) (rlog rf') = take (nat (c - lastIncludeIndex rf)) (rlog rf)"
    "lastIncludeIndex rf' = lastIncludeIndex rf" "i \<le> c" "c \<le> lastIndex rf" "c \<le> lastIndex rf'"
  shows "entry_at rf' i = entry_at rf i"
proof (cases "lastIncludeIndex rf < i")
  case True
  with assms(3) have n: "nat (i - lastIncludeIndex rf - 1) < nat (c - lastIncludeIndex rf)" by simp
  with assms(1) have "rlog rf' ! nat (i - lastIncludeIndex rf - 1) = rlog rf ! nat (i - lastIncludeIndex rf - 1)"
    by (metis nth_take)
  with True assms(2-) show ?thesis by (simp add: entry_at_def index2LogPos_def)
qed (simp add: entry_at_def assms(2))

section \<open>Commitment by the leader\<close>

lemma match_loop_Inr:
  "match_loop rf is = Inr ms \<Longrightarrow>
     ms = map (\<lambda>i. matchIndex rf ! i) (filter (\<lambda>i. int i \<noteq> me rf) is) \<and>
     (\<forall>i \<in> set is. int i \<noteq> me rf \<longrightarrow> i < length (matchIndex rf))"
  by (induction "is" arbitrary: ms) (auto simp: res_simps split: if_splits)

lemma updateCommitIndex_Inr:
  assumes "updateCommitIndex rf = Inr rf'" "rf' \<noteq> rf"
  obtains N others where "state rf = Leader" "match_loop rf [0..<peers rf] = Inr others"
    "N = sort (lastIndex rf # others) ! (length (lastIndex rf # others) div 2)" "commitIndex rf < N"
    "N \<le> lastIncludeIndex rf \<or> map_option LogTerm (entry_at rf N) = Some (currentTerm rf)"
    "rf' = undateLastApplied (rf\<lparr>commitIndex := N\<rparr>)"
proof -
  from assms obtain others where o: "state rf = Leader" "match_loop rf [0..<peers rf] = Inr others"
    by (auto simp: updateCommitIndex_def res_simps split: if_splits)
  show thesis
    by (rule that [OF o refl])
      (use assms o in \<open>auto simp: updateCommitIndex_def Let_def res_simps entry_at_def index2LogPos_def lastIndex_def split: if_splits\<close>)
qed

lemma update_median_in: "sort (x # xs) ! (length (x # xs) div 2) \<in> set (x # xs)"
  by (metis div_less_dividend length_greater_0_conv length_sort list.discI nth_mem one_less_numeral_iff semiring_norm(76) set_sort)

lemma sort_median_count:
  fixes xs :: "int list"
  assumes "xs \<noteq> []" "N = sort xs ! (length xs div 2)"
  shows "length xs - length xs div 2 \<le> length (filter (\<lambda>x. N \<le> x) xs)"
proof -
  let ?s = "sort xs" and ?k = "length xs div 2"
  have k: "?k < length ?s" using assms(1) by simp
  have "filter (\<lambda>x. N \<le> x) (drop ?k ?s) = drop ?k ?s"
  proof (rule filter_True, rule ballI)
    fix x assume "x \<in> set (drop ?k ?s)"
    then obtain j where "j < length (drop ?k ?s)" "drop ?k ?s ! j = x" by (auto simp: in_set_conv_nth)
    then have "?k + j < length ?s" "x = ?s ! (?k + j)" by auto
    then show "N \<le> x" using assms(2) by (auto intro: sorted_nth_mono)
  qed
  then have "length xs - ?k \<le> length (filter (\<lambda>x. N \<le> x) (take ?k ?s @ drop ?k ?s))"
    by (simp only: filter_append length_append length_drop length_sort)
  also have "\<dots> = length (filter (\<lambda>x. N \<le> x) xs)"
    by (simp add: filter_sort)
  finally show ?thesis .
qed

lemma matched_count:
  assumes "match_loop rf [0..<peers rf] = Inr others" "0 \<le> me rf" "me rf < int (peers rf)"
    "N = sort (lastIndex rf # others) ! (length (lastIndex rf # others) div 2)"
  shows "peers rf - peers rf div 2 \<le> card (matched rf N)"
proof -
  let ?is = "filter (\<lambda>i. int i \<noteq> me rf) [0..<peers rf]"
  have o: "others = map ((!) (matchIndex rf)) ?is" using match_loop_Inr [OF assms(1)] by simp
  have "card {i. i < peers rf \<and> int i \<noteq> me rf} = peers rf - 1"
  proof -
    have "{i. i < peers rf \<and> int i \<noteq> me rf} = {..<peers rf} - {nat (me rf)}" using assms(2) by auto
    then show ?thesis using assms(2,3) by simp
  qed
  then have "length ?is = peers rf - 1" by (simp add: distinct_length_filter Int_def conj_commute)
  then have len: "length (lastIndex rf # others) = peers rf" using o assms(2,3) by simp
  have "matched rf N = insert (nat (me rf)) (set (filter (\<lambda>i. N \<le> matchIndex rf ! i) ?is))"
    using assms(2,3) by (auto simp: matched_def)
  moreover have "nat (me rf) \<notin> set (filter (\<lambda>i. N \<le> matchIndex rf ! i) ?is)" using assms(2) by auto
  ultimately have "card (matched rf N) = Suc (length (filter (\<lambda>i. N \<le> matchIndex rf ! i) ?is))"
    by (simp add: distinct_card [symmetric] del: filter_filter)
  also have "\<dots> \<ge> length (filter (\<lambda>x. N \<le> x) (lastIndex rf # others))"
    by (simp add: o filter_map comp_def del: filter_filter)
  finally show ?thesis using sort_median_count [OF _ assms(4)] len by simp
qed

lemma CopyEntries_panic:
  assumes "CopyEntries C args rf = Inl p" "lastIncludeIndex rf \<le> aePrevLogIndex args" "aePrevLogIndex args \<le> lastIndex rf"
  shows "p = LoggerPanic \<and> \<not> disk_up rf"
proof -
  from assms(1) have "copy_loop C (aePrevLogIndex args + 1) (aeEntries args) rf = Inl p"
    by (auto simp: CopyEntries_def res_bind_Inl_iff Let_def split: if_splits)
  from copy_loop_panic [OF this] assms(2,3) show ?thesis by simp
qed

lemma AppendEntries_Inl:
  assumes "AppendEntries C now args rf = Inl p"
  shows "p = LoggerPanic \<and> \<not> disk_up rf"
proof -
  let ?reply = "\<lparr>aerTerm = currentTerm rf, aerSuccess = False, aerConflictIndex = -1, aerConflictTerm = -1\<rparr>"
  from assms have le: "currentTerm rf \<le> aeTerm args" by (auto simp: AppendEntries_def Let_def split: if_splits)
  with assms consider (a) "ae_adopt_term C args rf = Inl p"
    | (b) rf1 where "ae_adopt_term C args rf = Inr rf1" "ae_leave_candidacy C args rf1 = Inl p"
    | (c) rf1 rf2 where "ae_adopt_term C args rf = Inr rf1" "ae_leave_candidacy C args rf1 = Inr rf2"
        "ae_check args (rf2\<lparr>lastHearBeatTime := now, leaderId := aeLeaderId args\<rparr>) ?reply = Inl p"
    | (d) rf1 rf2 where "ae_adopt_term C args rf = Inr rf1" "ae_leave_candidacy C args rf1 = Inr rf2"
        "ae_check args (rf2\<lparr>lastHearBeatTime := now, leaderId := aeLeaderId args\<rparr>) ?reply = Inr None"
        "CopyEntries C args (rf2\<lparr>lastHearBeatTime := now, leaderId := aeLeaderId args\<rparr>) = Inl p"
    by (auto simp: AppendEntries_def Let_def res_bind_Inl_iff split: option.splits)
  then show ?thesis
  proof cases
    case a
    then show ?thesis by (auto simp: ae_adopt_term_def res_simps disk_up_def split: if_splits)
  next
    case b
    then show ?thesis
      by (auto simp: ae_adopt_term_def ae_leave_candidacy_def res_simps disk_up_def wal_Write_def
          split: if_splits option.splits)
  next
    case c
    with ae_check_Inr [of args "rf2\<lparr>lastHearBeatTime := now, leaderId := aeLeaderId args\<rparr>" ?reply] show ?thesis by auto
  next
    case d
    let ?rf3 = "rf2\<lparr>lastHearBeatTime := now, leaderId := aeLeaderId args\<rparr>"
    from d(3) have "lastIncludeIndex ?rf3 \<le> aePrevLogIndex args" "aePrevLogIndex args \<le> lastIndex ?rf3"
      unfolding ae_check_None by simp_all
    from CopyEntries_panic [OF d(4) this] have "p = LoggerPanic" "\<not> disk_up rf2" by (simp_all add: disk_up_def)
    with d(1,2) show ?thesis
      by (auto simp: ae_adopt_term_def ae_leave_candidacy_def res_simps disk_up_def wal_Write_def
          split: if_splits option.splits)
  qed
qed

lemma entry_at_merged:
  assumes "lastIncludeIndex rf \<le> aePrevLogIndex args" "aePrevLogIndex args \<le> lastIndex rf"
    "rlog rf' = merged_log args rf" "lastIncludeIndex rf' = lastIncludeIndex rf" "j < length (aeEntries args)"
  shows "map_option LogTerm (entry_at rf' (aePrevLogIndex args + 1 + int j)) = Some (LogTerm (aeEntries args ! j))"
proof -
  let ?p = "nat (aePrevLogIndex args - lastIncludeIndex rf)" and ?i = "aePrevLogIndex args + 1 + int j"
  let ?m = "reconcile (drop ?p (rlog rf)) (aeEntries args)"
  have p: "?p \<le> length (rlog rf)" "int ?p = aePrevLogIndex args - lastIncludeIndex rf" using assms(1,2) by (simp_all add: lastIndex_def)
  have n: "nat (index2LogPos rf' ?i) = ?p + j" using assms(1,4) by (simp add: index2LogPos_def)
  have "?i \<le> lastIndex rf'" using length_merged_log [OF assms(1,2)] assms(3-5) by (simp add: lastIndex_def)
  then have "entry_at rf' ?i = Some (rlog rf' ! (?p + j))" using assms(1,4) n by (simp add: entry_at_def)
  also have "rlog rf' ! (?p + j) = ?m ! j" using p(1) by (simp add: assms(3) merged_log_def Let_def nth_append)
  finally have "entry_at rf' ?i = Some (?m ! j)" .
  moreover have "LogTerm (?m ! j) = LogTerm (aeEntries args ! j)"
    using reconcile_terms [of "aeEntries args" "drop ?p (rlog rf)"] length_reconcile [of "aeEntries args" "drop ?p (rlog rf)"] assms(5)
    by (metis (no_types, lifting) length_map nth_map nth_take order_less_le_trans)
  ultimately show ?thesis by simp
qed

lemma merged_accept:
  assumes "AppendEntries C now args rf = Inr (r, rf')" "aerSuccess r"
  shows "rlog rf' = merged_log args rf \<and> lastIncludeIndex rf' = lastIncludeIndex rf \<and>
    lastIncludeIndex rf \<le> aePrevLogIndex args \<and> aePrevLogIndex args \<le> lastIndex rf \<and>
    (lastIncludeIndex rf < aePrevLogIndex args \<longrightarrow>
       map_option LogTerm (entry_at rf (aePrevLogIndex args)) = Some (aePrevLogTerm args)) \<and>
    currentTerm rf \<le> aeTerm args \<and> currentTerm rf' = aeTerm args \<and>
    commitIndex rf' = max (commitIndex rf) (min (aeLeaderCommit args) (lastIndex rf'))"
  using assms(1)
proof (cases rule: AppendEntries_Inr)
  case (accept f s v rf3)
  have pr: "lastIncludeIndex rf3 \<le> aePrevLogIndex args" "aePrevLogIndex args \<le> lastIndex rf3"
    using accept(3-5) by (simp_all add: lastIndex_def)
  from accept(7) pr obtain g rf1 where
    rf1: "rf1 = rf3\<lparr>rlog := merged_log args rf3, disk := g\<rparr>" and
    rf': "rf' = (if commitIndex rf3 < min (aeLeaderCommit args) (lastIndex rf1)
       then undateLastApplied (rf1\<lparr>commitIndex := min (aeLeaderCommit args) (lastIndex rf1)\<rparr>) else rf1)"
    by (rule CopyEntries_Inr)
  have fr: "currentTerm rf1 = aeTerm args" "rlog rf1 = merged_log args rf" "commitIndex rf1 = commitIndex rf"
    "lastIncludeIndex rf1 = lastIncludeIndex rf" "commitIndex rf3 = commitIndex rf"
    using rf1 accept(3) by (simp_all add: merged_log_def)
  have l: "lastIndex rf' = lastIndex rf1" by (simp add: rf' lastIndex_def frame_simps)
  have c: "commitIndex rf' = max (commitIndex rf) (min (aeLeaderCommit args) (lastIndex rf'))"
    unfolding l using fr by (auto simp: rf' frame_simps)
  have "currentTerm rf' = aeTerm args" "rlog rf' = merged_log args rf" "lastIncludeIndex rf' = lastIncludeIndex rf"
    using fr by (simp_all add: rf' frame_simps)
  with accept(1,4-6) c show ?thesis by simp
qed (use assms(2) in auto)

text \<open>What the leader puts in a message.\<close>

lemma append_request_Inr:
  assumes "append_request server ldr = Inr (Some args)" "lastIncludeIndex ldr \<le> aePrevLogIndex args"
  shows "aePrevLogIndex args \<le> lastIndex ldr \<and>
    aePrevLogIndex args + int (length (aeEntries args)) = lastIndex ldr \<and> aeTerm args = currentTerm ldr \<and>
    (\<forall>j < length (aeEntries args). entry_at ldr (aePrevLogIndex args + 1 + int j) = Some (aeEntries args ! j))"
proof -
  from assms(1) obtain nx where nx: "go_nth (nextIndex ldr) server = Inr nx" and l: "state ldr = Leader"
    by (auto simp: append_request_def res_bind_Inr_iff split: if_splits)
  from assms l nx have p: "aePrevLogIndex args = nx - 1" and t: "aeTerm args = currentTerm ldr"
    and e: "go_from (rlog ldr) (index2LogPos ldr nx) = Inr (aeEntries args)"
    by (auto simp: append_request_def res_bind_Inr_iff Let_def split: if_splits)
  from e have r: "0 \<le> index2LogPos ldr nx" "index2LogPos ldr nx \<le> int (length (rlog ldr))"
    "aeEntries args = drop (nat (index2LogPos ldr nx)) (rlog ldr)" by (simp_all add: res_simps)
  have "entry_at ldr (nx + int j) = Some (aeEntries args ! j)" if "j < length (aeEntries args)" for j
  proof -
    have "nat (index2LogPos ldr (nx + int j)) = nat (index2LogPos ldr nx) + j" using r(1) by (simp add: index2LogPos_def)
    moreover have "lastIncludeIndex ldr < nx + int j" "nx + int j \<le> lastIndex ldr"
      using r that by (auto simp: index2LogPos_def lastIndex_def)
    ultimately show ?thesis using r that by (simp add: entry_at_def)
  qed
  with p t r show ?thesis by (auto simp: index2LogPos_def lastIndex_def)
qed

lemma append_request_prev:
  assumes "append_request server ldr = Inr (Some args)" "lastIncludeIndex ldr < aePrevLogIndex args"
  shows "map_option LogTerm (entry_at ldr (aePrevLogIndex args)) = Some (aePrevLogTerm args)"
proof -
  from assms(1) obtain nx where nx: "go_nth (nextIndex ldr) server = Inr nx" and l: "state ldr = Leader"
    by (auto simp: append_request_def res_bind_Inr_iff split: if_splits)
  from assms l nx obtain e where "aePrevLogIndex args = nx - 1"
    "go_nth (rlog ldr) (index2LogPos ldr (nx - 1)) = Inr e" "aePrevLogTerm args = LogTerm e"
    by (auto simp: append_request_def res_bind_Inr_iff Let_def split: if_splits)
  with assms(2) show ?thesis by (auto simp: entry_at_def res_simps index2LogPos_def lastIndex_def)
qed

lemma entry_at_prefix:
  assumes "lastIncludeIndex rf \<le> aePrevLogIndex args" "aePrevLogIndex args \<le> lastIndex rf"
    "rlog rf' = merged_log args rf" "lastIncludeIndex rf' = lastIncludeIndex rf" "i \<le> aePrevLogIndex args"
  shows "entry_at rf' i = entry_at rf i"
proof (rule entry_at_take [where c = "aePrevLogIndex args"])
  let ?p = "nat (aePrevLogIndex args - lastIncludeIndex rf)"
  have "?p \<le> length (rlog rf)" using assms(1,2) by (simp add: lastIndex_def)
  then show "take ?p (rlog rf') = take ?p (rlog rf)" by (simp add: assms(3) merged_log_def Let_def)
  show "aePrevLogIndex args \<le> lastIndex rf'"
    using length_merged_log [OF assms(1,2)] assms(3,4) by (simp add: lastIndex_def)
qed (use assms in auto)

lemma demo_up: "disk_up demo_follower"
  by (simp add: demo_defs disk_up_def fresh_wal_def)

lemma demo_disk: "dir_exists (disk demo_follower)" "map_of (dirents (disk demo_follower)) n \<noteq> Some SubDir"
  by (simp_all add: demo_defs fresh_fs_def fs_create_def empty_fs_def)

lemma demo_append:
  "\<exists>r rf'. AppendEntries count_codecs 5 demo_args demo_follower = Inr (r, rf') \<and> aerSuccess r"
proof -
  obtain x where x: "AppendEntries count_codecs 5 demo_args demo_follower = Inr x"
    using AppendEntries_Inl [of count_codecs 5 demo_args demo_follower] demo_up
    by (cases "AppendEntries count_codecs 5 demo_args demo_follower") auto
  then have "AppendEntries count_codecs 5 demo_args demo_follower = Inr (fst x, snd x)" by simp
  moreover from this have "aerSuccess (fst x)"
  proof (cases rule: AppendEntries_Inr)
    case (reject f s v)
    then show ?thesis by (simp add: ae_check_def demo_defs lastIndex_def index2LogPos_def go_nth_def)
  qed (simp_all add: demo_defs)
  ultimately show ?thesis by blast
qed

section \<open>Properties\<close>

text \<open>
  C20: \<^verbatim>\<open>AppendEntries\<close> never indexes its log out of range, whatever the message and whatever the
  state of the peer: the only way it can panic is that the write-ahead log cannot be written.
\<close>

theorem append_entries_no_index_panic:
  assumes "AppendEntries C now args rf = Inl p"
  shows "p = LoggerPanic \<and> \<not> disk_up rf"
  using assms by (rule AppendEntries_Inl)

theorem append_entries_no_index_panic_witness:
  "LoggerPanic = LoggerPanic \<and> \<not> disk_up (zero_raft 0 ((fresh_wal ''d'')\<lparr>wfile := None\<rparr>) fresh_fs)"
proof (rule append_entries_no_index_panic)
  show "AppendEntries count_codecs 0
     \<lparr>aeTerm = 1, aeLeaderId = 1, aePrevLogIndex = -1, aePrevLogTerm = -1, aeLeaderCommit = -1, aeEntries = []\<rparr>
     (zero_raft 0 ((fresh_wal ''d'')\<lparr>wfile := None\<rparr>) fresh_fs) = Inl LoggerPanic"
    by (simp add: AppendEntries_def ae_adopt_term_def zero_raft_def persistState_def raft_write_def wal_Write_def)
qed

text \<open>
  C12: A successful \<^verbatim>\<open>AppendEntries\<close> does to the log exactly what Raft asks for: the message is not
  stale, the entry before it is there with the right term, the entries up to it stay, the ones after
  it are reconciled with the message (kept up to the first conflict of terms, replaced from there),
  and the commit index moves to the leader's, bounded by the end of the log, and never back.
\<close>

theorem append_entries_reconciles:
  assumes "AppendEntries C now args rf = Inr (r, rf')" "aerSuccess r"
  shows "currentTerm rf \<le> aeTerm args \<and> currentTerm rf' = aeTerm args \<and>
    lastIncludeIndex rf \<le> aePrevLogIndex args \<and> aePrevLogIndex args \<le> lastIndex rf \<and>
    (lastIncludeIndex rf < aePrevLogIndex args \<longrightarrow>
       map_option LogTerm (entry_at rf (aePrevLogIndex args)) = Some (aePrevLogTerm args)) \<and>
    rlog rf' = take (nat (aePrevLogIndex args - lastIncludeIndex rf)) (rlog rf) @
       reconcile (drop (nat (aePrevLogIndex args - lastIncludeIndex rf)) (rlog rf)) (aeEntries args) \<and>
    commitIndex rf' = max (commitIndex rf) (min (aeLeaderCommit args) (lastIndex rf'))"
  using merged_accept [OF assms] by (simp add: merged_log_def Let_def)

theorem append_entries_reconciles_witness:
  "\<exists>r rf'. AppendEntries count_codecs 5 demo_args demo_follower = Inr (r, rf') \<and> aerSuccess r \<and>
     rlog rf' = [\<lparr>LogTerm = 1, LogValue = ''a''\<rparr>, \<lparr>LogTerm = 2, LogValue = ''c''\<rparr>] \<and> commitIndex rf' = max (-1) (min 1 (lastIndex rf'))"
proof -
  from demo_append obtain r rf' where a: "AppendEntries count_codecs 5 demo_args demo_follower = Inr (r, rf')" "aerSuccess r"
    by blast
  from append_entries_reconciles [OF a] a show ?thesis
    by (intro exI [of _ r] exI [of _ rf']) (simp add: demo_defs)
qed

lemma ae_check_reply_term: "ae_check args rf reply = Inr (Some r) \<Longrightarrow> aerTerm r = aerTerm reply"
  by (auto simp: ae_check_def res_bind_Inr_iff split: if_splits)

lemma AppendEntries_reply_term:
  assumes "AppendEntries C now args rf = Inr (r, rf')"
  shows "aerTerm r = currentTerm rf"
proof (cases "aeTerm args < currentTerm rf")
  case True
  with assms show ?thesis by (auto simp: AppendEntries_def Let_def)
next
  case False
  let ?reply = "\<lparr>aerTerm = currentTerm rf, aerSuccess = False, aerConflictIndex = -1, aerConflictTerm = -1\<rparr>"
  from False assms obtain rf3 failed where
    "ae_check args rf3 ?reply = Inr failed"
    "(case failed of Some r \<Rightarrow> Inr (r, rf3)
      | None \<Rightarrow> res_bind (CopyEntries C args rf3) (\<lambda>rf4. Inr (\<lparr>aerTerm = currentTerm rf, aerSuccess = True, aerConflictIndex = -1, aerConflictTerm = -1\<rparr>, rf4))) = Inr (r, rf')"
    by (auto simp: AppendEntries_def Let_def res_bind_Inr_iff)
  then show ?thesis by (cases failed) (auto simp: res_bind_Inr_iff dest!: ae_check_reply_term)
qed

lemma updateCommitIndex_indexes:
  "updateCommitIndex rf = Inr rf' \<Longrightarrow> nextIndex rf' = nextIndex rf \<and> matchIndex rf' = matchIndex rf"
  by (cases "rf' = rf") (auto elim!: updateCommitIndex_Inr simp: frame_simps)

lemma append_reply_accepted:
  assumes "append_reply C server args (Some r) rf = Inr (res, rf')" "aerSuccess r" "aeTerm args = currentTerm rf"
    "aerTerm r \<le> currentTerm rf"
  shows "res = AEresult_Accept \<and> matchIndex rf' ! nat server = aePrevLogIndex args + int (length (aeEntries args)) \<and>
    nextIndex rf' ! nat server = aePrevLogIndex args + int (length (aeEntries args)) + 1"
  using assms by (auto simp: append_reply_def Let_def res_simps go_set_def dest!: updateCommitIndex_indexes split: if_splits)

text \<open>
  One round of replication. When a follower accepts the message a leader builds for it, the
  follower's log has, at every index from \<^verbatim>\<open>PrevLogIndex\<close> to the end of the leader's log, an entry
  of the leader's term at that index. When the answer reaches the leader, which may have done
  anything in between but leave the term, it records exactly that index as matched and goes on
  after it.
\<close>

theorem replication_round:
  assumes "append_request server ldr = Inr (Some args)" "lastIncludeIndex ldr < aePrevLogIndex args"
    "AppendEntries C now args fol = Inr (r, fol')" "aerSuccess r" "lastIncludeIndex fol < aePrevLogIndex args"
    "append_reply D server args (Some r) ldr1 = Inr (res, ldr2)" "currentTerm ldr1 = currentTerm ldr"
  shows "res = AEresult_Accept \<and> matchIndex ldr2 ! nat server = lastIndex ldr \<and>
    nextIndex ldr2 ! nat server = lastIndex ldr + 1 \<and>
    (\<forall>i. aePrevLogIndex args \<le> i \<and> i \<le> lastIndex ldr \<longrightarrow>
       entry_at ldr i \<noteq> None \<and> map_option LogTerm (entry_at fol' i) = map_option LogTerm (entry_at ldr i))"
proof -
  note m = merged_accept [OF assms(3,4)]
  note q = append_request_Inr [OF assms(1)]
  have t: "aerTerm r \<le> currentTerm ldr1" using AppendEntries_reply_term [OF assms(3)] m q assms(2,7) by simp
  have l: "entry_at ldr i \<noteq> None \<and> map_option LogTerm (entry_at fol' i) = map_option LogTerm (entry_at ldr i)"
    if i: "aePrevLogIndex args \<le> i" "i \<le> lastIndex ldr" for i
  proof (cases "i = aePrevLogIndex args")
    case True
    have "map_option LogTerm (entry_at ldr i) = Some (aePrevLogTerm args)"
      using True assms(1,2) append_request_prev by blast
    moreover have "map_option LogTerm (entry_at fol' i) = Some (aePrevLogTerm args)"
      using True m assms(5) entry_at_prefix [of fol args fol'] by simp
    ultimately show ?thesis by auto
  next
    case False
    define j where "j = nat (i - aePrevLogIndex args - 1)"
    have j: "i = aePrevLogIndex args + 1 + int j" "j < length (aeEntries args)"
      using False assms(2) i q by (auto simp: j_def)
    with q assms(2) have "entry_at ldr i = Some (aeEntries args ! j)" by auto
    moreover have "map_option LogTerm (entry_at fol' i) = Some (LogTerm (aeEntries args ! j))"
      unfolding j(1) using m j(2) by (intro entry_at_merged [of fol]) auto
    ultimately show ?thesis by simp
  qed
  show ?thesis using append_reply_accepted [OF assms(6,4) _ t] q assms(2,7) l by simp
qed

theorem replication_round_witness:
  "\<exists>r fol' ldr'. AppendEntries count_codecs 5 demo_args demo_follower = Inr (r, fol') \<and>
     append_reply count_codecs 1 demo_args (Some r) demo_leader = Inr (AEresult_Accept, ldr') \<and> matchIndex ldr' ! 1 = 1 \<and>
     map_option LogTerm (entry_at fol' 1) = map_option LogTerm (entry_at demo_leader 1)"
proof -
  from demo_append obtain r rf' where a: "AppendEntries count_codecs 5 demo_args demo_follower = Inr (r, rf')" "aerSuccess r"
    by blast
  have q: "append_request 1 demo_leader = Inr (Some demo_args)"
    by (simp add: append_request_def demo_leader_def demo_defs go_nth_def go_from_def index2LogPos_def)
  have t: "aerTerm r = currentTerm demo_follower" by (rule AppendEntries_reply_term [OF a(1)])
  obtain res ldr' where c: "append_reply count_codecs 1 demo_args (Some r) demo_leader = Inr (res, ldr')"
    using a t by (simp add: append_reply_def demo_leader_def demo_defs go_set_def updateCommitIndex_def lastIndex_def numeral_3_eq_3 go_nth_def)
  from replication_round [OF q _ a _ c] a c show ?thesis
    by (intro exI [of _ r] exI [of _ rf'] exI [of _ ldr']) (simp add: demo_defs demo_leader_def lastIndex_def)
qed

text \<open>
  A leader commits only what a majority has: when \<^verbatim>\<open>updateCommitIndex\<close> moves the commit index in
  a cluster with an odd number of peers, a majority of them (the leader included) is known to have
  everything up to the new commit index, and the entry there is of the leader's own term (unless the
  leader's snapshot already covers it).
\<close>

theorem commit_needs_majority:
  assumes "updateCommitIndex rf = Inr rf'" "commitIndex rf' \<noteq> commitIndex rf"
    "odd (peers rf)" "0 \<le> me rf" "me rf < int (peers rf)"
  shows "state rf = Leader \<and> 2 * card (matched rf (commitIndex rf')) > peers rf \<and>
    (commitIndex rf' \<le> lastIncludeIndex rf \<or>
     map_option LogTerm (entry_at rf (commitIndex rf')) = Some (currentTerm rf))"
proof -
  from assms(2) have "rf' \<noteq> rf" by auto
  from assms(1) this show ?thesis
  proof (rule updateCommitIndex_Inr)
    fix N others
    assume a: "state rf = Leader" "match_loop rf [0..<peers rf] = Inr others"
      "N = sort (lastIndex rf # others) ! (length (lastIndex rf # others) div 2)"
      "N \<le> lastIncludeIndex rf \<or> map_option LogTerm (entry_at rf N) = Some (currentTerm rf)"
      "rf' = undateLastApplied (rf\<lparr>commitIndex := N\<rparr>)"
    have "peers rf < 2 * (peers rf - peers rf div 2)" using assms(3) by presburger
    with matched_count [OF a(2) assms(4,5) a(3)] a(1,4,5) show ?thesis by (simp add: frame_simps)
  qed
qed

theorem commit_needs_majority_witness:
  "\<exists>rf'. updateCommitIndex (demo_leader\<lparr>commitIndex := -1\<rparr>) = Inr rf' \<and> commitIndex rf' = 1 \<and>
     2 * card (matched (demo_leader\<lparr>commitIndex := -1\<rparr>) 1) > 3"
proof -
  let ?l = "demo_leader\<lparr>commitIndex := -1\<rparr>"
  have u: "updateCommitIndex ?l = Inr (undateLastApplied (?l\<lparr>commitIndex := 1\<rparr>))"
    by (simp add: updateCommitIndex_def demo_leader_def zero_raft_def go_nth_def lastIndex_def index2LogPos_def
        upt_rec numeral_3_eq_3 Let_def)
  from commit_needs_majority [OF u] u show ?thesis
    by (intro exI [of _ "undateLastApplied (?l\<lparr>commitIndex := 1\<rparr>)"])
      (simp add: frame_simps demo_leader_def zero_raft_def)
qed

text \<open>
  A rejection tells the leader where to back up to: the follower's log is untouched, and the
  reply names the end of the follower's log (or of its snapshot), or the term that conflicts and the
  first index of the run of entries of that term that reaches \<^verbatim>\<open>PrevLogIndex\<close>.
\<close>

theorem append_entries_rejection:
  assumes "AppendEntries C now args rf = Inr (r, rf')" "\<not> aerSuccess r" "currentTerm rf \<le> aeTerm args"
  shows "rlog rf' = rlog rf \<and> lastIncludeIndex rf' = lastIncludeIndex rf \<and> commitIndex rf' = commitIndex rf \<and>
    (if aePrevLogIndex args < lastIncludeIndex rf then
       aerConflictTerm r = -1 \<and> aerConflictIndex r = lastIncludeIndex rf + 1
     else if lastIndex rf < aePrevLogIndex args then
       aerConflictTerm r = -1 \<and> aerConflictIndex r = lastIndex rf + 1
     else aerConflictTerm r \<noteq> aePrevLogTerm args \<and>
       lastIncludeIndex rf < aerConflictIndex r \<and> aerConflictIndex r \<le> aePrevLogIndex args \<and>
       (\<forall>j. aerConflictIndex r \<le> j \<and> j \<le> aePrevLogIndex args \<longrightarrow>
          map_option LogTerm (entry_at rf j) = Some (aerConflictTerm r)) \<and>
       map_option LogTerm (entry_at rf (aerConflictIndex r - 1)) \<noteq> Some (aerConflictTerm r))"
  using assms(1)
proof (cases rule: AppendEntries_Inr)
  case (reject f s v)
  let ?P = "aePrevLogIndex args"
  consider (old) "?P < lastIncludeIndex rf" | (short) "\<not> ?P < lastIncludeIndex rf" "lastIndex rf < ?P"
    | (mid) "\<not> ?P < lastIncludeIndex rf" "?P \<le> lastIndex rf" by linarith
  then show ?thesis
  proof cases
    case mid
    let ?e = "rlog rf ! nat (index2LogPos rf ?P)"
    from mid reject(4) have lt: "lastIncludeIndex rf < ?P" by (auto simp: ae_check_def split: if_splits)
    then have e: "entry_at rf ?P = Some ?e" "go_nth (rlog rf) (index2LogPos rf ?P) = Inr ?e"
      using mid by (auto simp: entry_at_def go_nth_def index2LogPos_def lastIndex_def)
    from mid lt reject(4) e obtain ci where ne: "LogTerm ?e \<noteq> aePrevLogTerm args"
      and ci: "conflict_scan rf (LogTerm ?e) ?P (-1) = Inr ci" and r: "aerConflictTerm r = LogTerm ?e" "aerConflictIndex r = ci"
      by (auto simp: ae_check_def res_bind_Inr_iff split: if_splits)
    from conflict_scan_Inr [OF mid(2), of "LogTerm ?e" "-1"] ci e(1) lt have
      "lastIncludeIndex rf < ci \<and> ci \<le> ?P \<and>
        (\<forall>j. ci \<le> j \<longrightarrow> j \<le> ?P \<longrightarrow> map_option LogTerm (entry_at rf j) = Some (LogTerm ?e)) \<and>
        map_option LogTerm (entry_at rf (ci - 1)) \<noteq> Some (LogTerm ?e)" by auto
    with mid reject(3) ne r show ?thesis by auto
  qed (use reject(3,4) in \<open>auto simp: ae_check_def\<close>)
qed (use assms(2,3) in auto)

theorem append_entries_rejection_witness:
  "\<exists>r rf'. AppendEntries count_codecs 5 (demo_args\<lparr>aePrevLogIndex := 1, aePrevLogTerm := 2\<rparr>) demo_follower = Inr (r, rf') \<and>
     \<not> aerSuccess r \<and> rlog rf' = rlog demo_follower \<and> aerConflictIndex r \<le> 1"
proof -
  let ?a = "demo_args\<lparr>aePrevLogIndex := 1, aePrevLogTerm := 2\<rparr>"
  obtain x where x: "AppendEntries count_codecs 5 ?a demo_follower = Inr x"
    using AppendEntries_Inl [of count_codecs 5 ?a demo_follower] demo_up
    by (cases "AppendEntries count_codecs 5 ?a demo_follower") auto
  then have a: "AppendEntries count_codecs 5 ?a demo_follower = Inr (fst x, snd x)" by simp
  have s: "\<not> aerSuccess (fst x)"
    using merged_accept [OF a] by (auto simp: demo_defs entry_at_def lastIndex_def index2LogPos_def)
  from append_entries_rejection [OF a s] a s show ?thesis
    by (intro exI [of _ "fst x"] exI [of _ "snd x"]) (simp add: demo_defs lastIndex_def)
qed

text \<open>
  C40: \<^verbatim>\<open>SendAppendEntriesToPeerId\<close> raises a \<^verbatim>\<open>nextIndex\<close> of 0 to 1, so a follower with an empty log is
  never caught up by a leader that already has entries: it rejects the message (it has no entry at
  index 0), the leader sets \<^verbatim>\<open>nextIndex\<close> to 1 again, and nothing has changed on either side.
\<close>

theorem empty_follower_never_caught_up:
  assumes "append_request server ldr = Inr (Some args)" "nextIndex ldr ! nat server = 1" "lastIncludeIndex ldr = -1"
    "AppendEntries C now args fol = Inr (r, fol')" "lastIncludeIndex fol = -1" "rlog fol = []" "currentTerm fol \<le> currentTerm ldr"
  shows "\<not> aerSuccess r \<and> rlog fol' = [] \<and> lastIncludeIndex fol' = -1 \<and>
    append_reply C server args (Some r) ldr = Inr (AEresult_Reject, ldr)"
proof -
  from assms(1,2) have nx: "go_nth (nextIndex ldr) server = Inr 1" and l: "state ldr = Leader"
    by (auto simp: append_request_def res_simps split: if_splits)
  from assms(1,3) nx l have p: "aePrevLogIndex args = 0" "aeTerm args = currentTerm ldr"
    by (auto simp: append_request_def Let_def res_bind_Inr_iff split: if_splits)
  from assms(4) show ?thesis
  proof (cases rule: AppendEntries_Inr)
    case (reject f s v)
    from reject(4) p assms(5,6) have r: "r = \<lparr>aerTerm = currentTerm fol, aerSuccess = False, aerConflictIndex = 0, aerConflictTerm = -1\<rparr>"
      by (simp add: ae_check_def lastIndex_def)
    have g: "go_set (nextIndex ldr) server 1 = Inr (nextIndex ldr)"
      using nx by (auto simp: go_set_def go_nth_Inr_iff list_update_same_conv)
    have "ldr\<lparr>nextIndex := nextIndex ldr\<rparr> = ldr" by simp
    with g r p assms(7) have "append_reply C server args (Some r) ldr = Inr (AEresult_Reject, ldr)"
      by (simp add: append_reply_def backoff_index_def)
    with reject assms(5,6) show ?thesis by simp
  qed (use p assms(5-7) in \<open>auto simp: lastIndex_def\<close>)
qed

theorem empty_follower_never_caught_up_witness:
  "\<exists>args r fol'. append_request 1 demo_leader = Inr (Some args) \<and>
     AppendEntries count_codecs 5 args (demo_follower\<lparr>rlog := []\<rparr>) = Inr (r, fol') \<and>
     append_reply count_codecs 1 args (Some r) demo_leader = Inr (AEresult_Reject, demo_leader)"
proof -
  let ?fol = "demo_follower\<lparr>rlog := []\<rparr>"
  have q: "append_request 1 demo_leader = Inr (Some demo_args)"
    by (simp add: append_request_def demo_leader_def demo_defs go_nth_def go_from_def index2LogPos_def)
  obtain x where "AppendEntries count_codecs 5 demo_args ?fol = Inr x"
    using AppendEntries_Inl [of count_codecs 5 demo_args ?fol] demo_up
    by (cases "AppendEntries count_codecs 5 demo_args ?fol") (auto simp: disk_up_def)
  then have a: "AppendEntries count_codecs 5 demo_args ?fol = Inr (fst x, snd x)" by simp
  from empty_follower_never_caught_up [OF q _ _ a] a q show ?thesis
    by (intro exI [of _ demo_args] exI [of _ "fst x"] exI [of _ "snd x"]) (simp add: demo_leader_def demo_defs)
qed

end
