(* ===== verification/RaftSteps.thy ===== *)
theory RaftSteps
  imports RaftLog
begin

text \<open>
  The steps of one Raft peer: \<open>node_step\<close> collects every operation of \<^verbatim>\<open>src/raft/raft.go\<close> that changes
  the peer, each locked section as one step. The invariants (indexes in order, committed entries
  never replaced, the state machine fed once and in order) are proved by rule induction.
\<close>

section \<open>Notions the lemmas use\<close>

text \<open>
  The message agrees with what the receiver has committed: no entry it carries conflicts with a
  committed one. Raft's leaders guarantee this; the handler does not check it.
\<close>

definition agrees :: "ae_args \<Rightarrow> raft \<Rightarrow> bool" where
  "agrees args rf \<longleftrightarrow>
     (\<forall>j < length (aeEntries args). aePrevLogIndex args + 1 + int j \<le> commitIndex rf \<longrightarrow>
        map_option LogTerm (entry_at rf (aePrevLogIndex args + 1 + int j)) = Some (LogTerm (aeEntries args ! j)))"

text \<open>Two states of a peer whose logs agree on everything up to the commit index of the first.\<close>

definition keeps_committed :: "raft \<Rightarrow> raft \<Rightarrow> bool" where
  "keeps_committed rf rf' \<longleftrightarrow> lastIncludeIndex rf \<le> lastIncludeIndex rf' \<and>
     (\<forall>i \<le> commitIndex rf. lastIncludeIndex rf' < i \<longrightarrow> entry_at rf' i = entry_at rf i)"

text \<open>
  The index up to which a state machine that starts at index \<open>n\<close> is up to date after the messages:
  a command must be the next one, a snapshot moves to its own index. \<open>None\<close> for a gap or a repetition.
\<close>

fun stream_from :: "int \<Rightarrow> apply_msg list \<Rightarrow> int option" where
  "stream_from n [] = Some n"
| "stream_from n (m # ms) =
     (if CommandValid m then (if CommandIndex m = n + 1 then stream_from (n + 1) ms else None)
      else stream_from (SnapshotIndex m) ms)"

text \<open>All the messages sent to the state machine so far.\<close>

definition sent :: "raft \<Rightarrow> apply_msg list" where
  "sent rf = (case applyCh rf of None \<Rightarrow> [] | Some ms \<Rightarrow> ms) @ applyChTerm rf"

text \<open>
  The invariant of a peer: its indexes are ordered and within the log, the leader has matched no one
  past its own log, and the messages sent so far bring the state machine exactly to \<^verbatim>\<open>lastApplied\<close>.
\<close>

definition raft_inv :: "raft \<Rightarrow> bool" where
  "raft_inv rf \<longleftrightarrow> idx_inv rf \<and> (state rf = Leader \<longrightarrow> (\<forall>m \<in> set (matchIndex rf). m \<le> lastIndex rf)) \<and>
     stream_from 0 (sent rf) = Some (lastApplied rf + 1)"

text \<open>
  Everything that changes a peer, one locked section per step. The side conditions are what the
  protocol guarantees of the inputs: a message does not contradict committed entries, no other
  leader of the same term sends to a leader, a snapshot that replaces the log covers what is
  committed, the service snapshots only what it has applied, and the entries a reply acknowledges
  are entries of the leader.
\<close>

inductive node_step :: "codecs \<Rightarrow> raft \<Rightarrow> raft \<Rightarrow> bool" for C where
  request_vote: "RequestVote C now vargs rf = Inr (vr, rf') \<Longrightarrow> node_step C rf rf'"
| append_entries: "AppendEntries C now args rf = Inr (r, rf') \<Longrightarrow> agrees args rf \<Longrightarrow>
    (state rf = Leader \<Longrightarrow> aeTerm args \<noteq> currentTerm rf) \<Longrightarrow> node_step C rf rf'"
| snapshot_install: "SnapshotInstall C now sargs rf = Inr (sr, rf') \<Longrightarrow>
    siLastIncludeIndex sargs \<le> lastIncludeIndex rf \<or> commitIndex rf \<le> siLastIncludeIndex sargs \<Longrightarrow>
    (state rf = Leader \<Longrightarrow> siTerm sargs \<noteq> currentTerm rf) \<Longrightarrow> node_step C rf rf'"
| snapshot: "raft_Snapshot C i d rf = Inr rf' \<Longrightarrow> i \<le> lastApplied rf + 1 \<Longrightarrow> node_step C rf rf'"
| start: "raft_Start C cmd rf = Inr (res, rf') \<Longrightarrow> node_step C rf rf'"
| election_starts: "election_begin C now ms rf = Inr (req, rf') \<Longrightarrow> node_step C rf rf'"
| election_ends: "election_end C now c rf = Inr (won, rf') \<Longrightarrow> node_step C rf rf'"
| append_replied: "append_reply C server args reply rf = Inr (ares, rf') \<Longrightarrow>
    aePrevLogIndex args + int (length (aeEntries args)) \<le> lastIndex rf \<Longrightarrow> node_step C rf rf'"
| snapshot_replied: "snapshot_reply C server sargs sreply rf = Inr rf' \<Longrightarrow>
    siLastIncludeIndex sargs \<le> lastIndex rf \<Longrightarrow> node_step C rf rf'"
| heartbeat: "appendEntries_turn now rf = Inr (ks, rf') \<Longrightarrow> node_step C rf rf'"
| applies: "node_step C rf (Applyer rf)"
| killed: "node_step C rf (raft_Kill rf)"

text \<open>What every step keeps: committed entries, the commit index and the term only move on.\<close>

definition advances :: "raft \<Rightarrow> raft \<Rightarrow> bool" where
  "advances rf rf' \<longleftrightarrow> keeps_committed rf rf' \<and> commitIndex rf \<le> commitIndex rf' \<and> currentTerm rf \<le> currentTerm rf'"

definition ok_step :: "raft \<Rightarrow> raft \<Rightarrow> bool" where
  "ok_step rf rf' \<longleftrightarrow> raft_inv rf' \<and> advances rf rf'"

text \<open>A command sent is the entry at its index, and is not past \<^verbatim>\<open>lastApplied\<close>.\<close>

definition carries :: "raft \<Rightarrow> apply_msg \<Rightarrow> bool" where
  "carries rf m \<longleftrightarrow> CommandValid m \<longrightarrow> CommandIndex m - 1 \<le> lastApplied rf \<and>
     (\<forall>e. entry_at rf (CommandIndex m - 1) = Some e \<longrightarrow> Command m = LogValue e)"

text \<open>The messages a step adds to the stream.\<close>

definition sends :: "raft \<Rightarrow> raft \<Rightarrow> bool" where
  "sends rf rf' \<longleftrightarrow> lastApplied rf \<le> lastApplied rf' \<and> (\<exists>ms. sent rf' = sent rf @ ms \<and> list_all (carries rf') ms)"

text \<open>The follower with its first entry committed and applied.\<close>

definition demo_committed :: raft where
  "demo_committed = demo_follower\<lparr>commitIndex := 0, lastApplied := 0,
     applyCh := Some [\<lparr>CommandValid = True, Command = ''a'', CommandIndex = 1, SnapshotValid = False,
       SnapshotBytes = [], SnapshotTerm = 0, SnapshotIndex = 0\<rparr>]\<rparr>"

section \<open>Lemmas\<close>

lemma take_merged_log:
  assumes "lastIncludeIndex rf \<le> aePrevLogIndex args" "aePrevLogIndex args \<le> lastIndex rf" "agrees args rf" "idx_inv rf"
  shows "take (nat (commitIndex rf - lastIncludeIndex rf)) (merged_log args rf)
       = take (nat (commitIndex rf - lastIncludeIndex rf)) (rlog rf)"
proof -
  let ?p = "nat (aePrevLogIndex args - lastIncludeIndex rf)" and ?k = "nat (commitIndex rf - lastIncludeIndex rf)"
  have p: "?p \<le> length (rlog rf)" "int ?p = aePrevLogIndex args - lastIncludeIndex rf"
    using assms(1,2) by (simp_all add: lastIndex_def)
  have k: "?k \<le> length (rlog rf)" "int ?k = commitIndex rf - lastIncludeIndex rf"
    using assms(4) by (auto simp: idx_inv_def lastIndex_def)
  have "take (?k - ?p) (reconcile (drop ?p (rlog rf)) (aeEntries args)) = take (?k - ?p) (drop ?p (rlog rf))"
  proof (rule reconcile_keeps)
    fix j assume j: "j < ?k - ?p" "j < length (aeEntries args)"
    let ?i = "aePrevLogIndex args + 1 + int j"
    from j p(2) k(2) have i: "?i \<le> commitIndex rf" "lastIncludeIndex rf < ?i" "?i \<le> lastIndex rf"
      using assms(1,4) by (auto simp: idx_inv_def)
    have "nat (index2LogPos rf ?i) = ?p + j" using assms(1) by (simp add: index2LogPos_def)
    with i have "entry_at rf ?i = Some (rlog rf ! (?p + j))" by (simp add: entry_at_def)
    with assms(3) j i(1) p(1) show "LogTerm (drop ?p (rlog rf) ! j) = LogTerm (aeEntries args ! j)"
      by (auto simp: agrees_def)
  qed (use k p in simp)
  then have "take ?k (merged_log args rf) = take ?k (take ?p (rlog rf)) @ take (?k - ?p) (drop ?p (rlog rf))"
    using p(1) by (simp add: merged_log_def Let_def)
  also have "\<dots> = take ?k (take ?p (rlog rf) @ drop ?p (rlog rf))"
    using p(1) by (simp only: take_append length_take min_absorb2)
  also have "\<dots> = take ?k (rlog rf)" by simp
  finally show ?thesis .
qed

lemma merged_keeps:
  assumes "lastIncludeIndex rf \<le> aePrevLogIndex args" "aePrevLogIndex args \<le> lastIndex rf" "agrees args rf" "idx_inv rf"
    "rlog rf' = merged_log args rf" "lastIncludeIndex rf' = lastIncludeIndex rf"
  shows "commitIndex rf \<le> lastIndex rf' \<and> keeps_committed rf rf'"
proof -
  let ?k = "nat (commitIndex rf - lastIncludeIndex rf)"
  note t = take_merged_log [OF assms(1-4)]
  have "?k \<le> length (rlog rf)" using assms(4) by (auto simp: idx_inv_def lastIndex_def)
  then have "?k \<le> length (merged_log args rf)" using arg_cong [OF t, of length] by simp
  then have c: "commitIndex rf \<le> lastIndex rf'" using assms(5,6) by (simp add: lastIndex_def)
  have "entry_at rf' i = entry_at rf i" if "i \<le> commitIndex rf" for i
    using t c that assms(4-6) by (intro entry_at_take [where c = "commitIndex rf"]) (auto simp: idx_inv_def)
  with c assms(6) show ?thesis by (simp add: keeps_committed_def)
qed

lemma stream_from_append:
  "stream_from n (xs @ ys) = (case stream_from n xs of None \<Rightarrow> None | Some m \<Rightarrow> stream_from m ys)"
  by (induction xs arbitrary: n) auto

lemma stream_commands: "a \<le> c \<Longrightarrow> stream_from (a + 1) (map (command_msg rf) [a + 1..c]) = Some (c + 1)"
proof (induction "nat (c - a)" arbitrary: a)
  case (Suc n)
  then have "a < c" by simp
  then have "[a + 1..c] = (a + 1) # [a + 1 + 1..c]" by (intro upto_rec1) simp
  moreover have "stream_from (a + 1 + 1) (map (command_msg rf) [a + 1 + 1..c]) = Some (c + 1)"
    using Suc \<open>a < c\<close> by (intro Suc(1)) auto
  ultimately show ?case by (simp add: command_msg_def)
qed simp

lemma raft_inv_cong:
  assumes "lastIncludeIndex rf' = lastIncludeIndex rf" "rlog rf' = rlog rf" "commitIndex rf' = commitIndex rf"
    "lastApplied rf' = lastApplied rf" "sent rf' = sent rf"
    "state rf' = Leader \<Longrightarrow> state rf = Leader \<and> matchIndex rf' = matchIndex rf"
  shows "raft_inv rf \<Longrightarrow> raft_inv rf'"
  using assms by (auto simp: raft_inv_def idx_inv_def lastIndex_def)

lemma undate_inv:
  assumes "raft_inv rf" "commitIndex rf \<le> c" "c \<le> lastIndex rf"
  shows "raft_inv (undateLastApplied (rf\<lparr>commitIndex := c\<rparr>))"
    and "lastApplied (undateLastApplied (rf\<lparr>commitIndex := c\<rparr>)) = c"
proof -
  have a: "lastIncludeIndex rf \<le> lastApplied rf" "lastApplied rf \<le> c" using assms by (auto simp: raft_inv_def idx_inv_def)
  then have u: "undateLastApplied (rf\<lparr>commitIndex := c\<rparr>) = rf\<lparr>commitIndex := c, lastApplied := c,
     applyChTerm := applyChTerm rf @ map (command_msg (rf\<lparr>commitIndex := c\<rparr>)) [lastApplied rf + 1..c],
     IisBack := (IisBack rf \<or> lastApplied rf < IisBackIndex rf \<and> IisBackIndex rf \<le> c)\<rparr>"
    using assms(3) undateLastApplied_spec [of "rf\<lparr>commitIndex := c\<rparr>"] by (simp add: lastIndex_def)
  then show "lastApplied (undateLastApplied (rf\<lparr>commitIndex := c\<rparr>)) = c" by simp
  let ?ms = "map (command_msg (rf\<lparr>commitIndex := c\<rparr>)) [lastApplied rf + 1..c]"
  have "sent (undateLastApplied (rf\<lparr>commitIndex := c\<rparr>)) = sent rf @ ?ms" by (simp add: u sent_def)
  then have "stream_from 0 (sent (undateLastApplied (rf\<lparr>commitIndex := c\<rparr>))) = Some (c + 1)"
    using assms(1) stream_commands [OF a(2)] by (simp add: stream_from_append raft_inv_def)
  then show "raft_inv (undateLastApplied (rf\<lparr>commitIndex := c\<rparr>))"
    using assms a by (auto simp: raft_inv_def u idx_inv_def lastIndex_def)
qed

lemma updateCommitIndex_inv:
  assumes "raft_inv rf" "updateCommitIndex rf = Inr rf'"
  shows "raft_inv rf' \<and> commitIndex rf \<le> commitIndex rf' \<and> commitIndex rf' \<le> lastIndex rf"
proof (cases "rf' = rf")
  case False
  then obtain N others where N: "state rf = Leader" "match_loop rf [0..<peers rf] = Inr others"
    "N = sort (lastIndex rf # others) ! (length (lastIndex rf # others) div 2)" "commitIndex rf < N"
    "rf' = undateLastApplied (rf\<lparr>commitIndex := N\<rparr>)"
    using updateCommitIndex_Inr [OF assms(2)] by metis
  have "N \<in> insert (lastIndex rf) (set (matchIndex rf))"
    using update_median_in [of "lastIndex rf" others] match_loop_Inr [OF N(2)] N(3) by (auto simp del: sort_key_simps)
  then have "N \<le> lastIndex rf" using assms(1) N(1) by (auto simp: raft_inv_def)
  then show ?thesis using undate_inv [OF assms(1), of N] N(4,5) by (simp add: frame_simps)
qed (use assms in \<open>auto simp: raft_inv_def idx_inv_def\<close>)

lemma keeps_same_log:
  "lastIncludeIndex rf' = lastIncludeIndex rf \<Longrightarrow> rlog rf' = rlog rf \<Longrightarrow> keeps_committed rf rf'"
  by (simp add: keeps_committed_def entry_at_def lastIndex_def index2LogPos_def)

lemma keeps_extended_log:
  "lastIncludeIndex rf' = lastIncludeIndex rf \<Longrightarrow> rlog rf' = rlog rf @ es \<Longrightarrow> idx_inv rf \<Longrightarrow> keeps_committed rf rf'"
  by (auto simp: keeps_committed_def entry_at_def lastIndex_def index2LogPos_def nth_append idx_inv_def)

lemma advances_same_log:
  assumes "lastIncludeIndex rf' = lastIncludeIndex rf" "rlog rf' = rlog rf" "commitIndex rf' = commitIndex rf"
    "currentTerm rf \<le> currentTerm rf'"
  shows "advances rf rf'"
  using assms keeps_same_log by (simp add: advances_def)

lemma advances_trans: "advances a b \<Longrightarrow> advances b c \<Longrightarrow> advances a c"
  by (force simp: advances_def keeps_committed_def)

lemma sent_simps [frame_simps]:
  "applyCh rf' = applyCh rf \<Longrightarrow> applyChTerm rf' = applyChTerm rf \<Longrightarrow> sent rf' = sent rf"
  by (simp add: sent_def)

lemma RequestVote_Inr:
  assumes "RequestVote C now args rf = Inr (r, rf')"
  obtains f t s v l h where "rf' = rf\<lparr>currentTerm := t, state := s, votedFor := v, leaderId := l, lastHearBeatTime := h, disk := f\<rparr>"
    "t = max (currentTerm rf) (rvTerm args)" "s = Leader \<longrightarrow> state rf = Leader"
  using assms
  by (cases rf) (auto simp: RequestVote_def Let_def res_simps max_def split: if_splits)

lemma ok_step_same_log:
  assumes "raft_inv rf" "lastIncludeIndex rf' = lastIncludeIndex rf" "rlog rf' = rlog rf" "commitIndex rf' = commitIndex rf"
    "lastApplied rf' = lastApplied rf" "sent rf' = sent rf"
    "state rf' = Leader \<Longrightarrow> state rf = Leader \<and> matchIndex rf' = matchIndex rf" "currentTerm rf \<le> currentTerm rf'"
  shows "ok_step rf rf'"
  unfolding ok_step_def using assms raft_inv_cong advances_same_log by blast

lemma RequestVote_ok [inv_intros]:
  assumes "raft_inv rf" "RequestVote C now args rf = Inr (r, rf')"
  shows "ok_step rf rf'"
  using assms(2) by (rule RequestVote_Inr) (use assms(1) in \<open>auto intro!: ok_step_same_log simp: sent_def\<close>)

lemma keeps_committed_cong:
  "lastIncludeIndex b = lastIncludeIndex a \<Longrightarrow> rlog b = rlog a \<Longrightarrow> keeps_committed rf b = keeps_committed rf a"
  by (simp add: keeps_committed_def entry_at_def lastIndex_def index2LogPos_def)

lemma AppendEntries_accept:
  assumes "raft_inv rf" "AppendEntries C now args rf = Inr (r, rf')" "aerSuccess r" "agrees args rf"
    "state rf = Leader \<Longrightarrow> aeTerm args \<noteq> currentTerm rf"
  obtains rf1 where "raft_inv rf1" "keeps_committed rf rf1" "sent rf1 = sent rf" "lastApplied rf1 = lastApplied rf"
    "commitIndex rf1 = commitIndex rf" "currentTerm rf \<le> currentTerm rf1"
    "rf' = rf1 \<or> (\<exists>c. commitIndex rf1 \<le> c \<and> c \<le> lastIndex rf1 \<and> rf' = undateLastApplied (rf1\<lparr>commitIndex := c\<rparr>))"
  using assms(2)
proof (cases rule: AppendEntries_Inr)
  case (accept f s v rf3)
  from accept(3,8) assms(5) have nl: "state rf3 \<noteq> Leader" by auto
  from accept(3) have lg: "rlog rf3 = rlog rf" "lastIncludeIndex rf3 = lastIncludeIndex rf" "commitIndex rf3 = commitIndex rf"
    "lastApplied rf3 = lastApplied rf" "sent rf3 = sent rf" "currentTerm rf3 = aeTerm args" by (simp_all add: sent_def)
  have pr: "lastIncludeIndex rf3 \<le> aePrevLogIndex args" "aePrevLogIndex args \<le> lastIndex rf3"
    using accept(4,5) lg by (simp_all add: lastIndex_def)
  from accept(7) pr obtain g rf1 where
    rf1: "rf1 = rf3\<lparr>rlog := merged_log args rf3, disk := g\<rparr>" and
    rf': "rf' = (if commitIndex rf3 < min (aeLeaderCommit args) (lastIndex rf1)
       then undateLastApplied (rf1\<lparr>commitIndex := min (aeLeaderCommit args) (lastIndex rf1)\<rparr>) else rf1)"
    by (rule CopyEntries_Inr)
  have ml: "merged_log args rf3 = merged_log args rf" using lg by (simp add: merged_log_def)
  have c: "commitIndex rf \<le> lastIndex rf1" "keeps_committed rf rf1"
    using merged_keeps [OF accept(4,5) assms(4), of rf1] assms(1) rf1 lg ml by (simp_all add: raft_inv_def)
  have i1: "raft_inv rf1"
    using assms(1) c(1) rf1 lg nl by (auto simp: raft_inv_def idx_inv_def lastIndex_def sent_def)
  have fr: "currentTerm rf1 = aeTerm args" "commitIndex rf1 = commitIndex rf" "sent rf1 = sent rf" "lastApplied rf1 = lastApplied rf"
    using rf1 lg by (simp_all add: sent_def)
  have "rf' = rf1 \<or> (\<exists>c. commitIndex rf1 \<le> c \<and> c \<le> lastIndex rf1 \<and> rf' = undateLastApplied (rf1\<lparr>commitIndex := c\<rparr>))"
  proof (cases "commitIndex rf3 < min (aeLeaderCommit args) (lastIndex rf1)")
    case True
    then show ?thesis using rf' fr lg by (intro disjI2 exI [of _ "min (aeLeaderCommit args) (lastIndex rf1)"]) simp
  qed (simp only: rf' if_False simp_thms)
  with i1 c(2) fr accept(1) show thesis by (intro that [of rf1]) auto
qed (use assms(3) in auto)

lemma AppendEntries_ok [inv_intros]:
  assumes "raft_inv rf" "AppendEntries C now args rf = Inr (r, rf')" "agrees args rf"
    "state rf = Leader \<Longrightarrow> aeTerm args \<noteq> currentTerm rf"
  shows "ok_step rf rf'"
proof (cases "aerSuccess r")
  case True
  from AppendEntries_accept [OF assms(1,2) True assms(3,4)] obtain rf1 where
    1: "raft_inv rf1" "keeps_committed rf rf1" "commitIndex rf1 = commitIndex rf" "currentTerm rf \<le> currentTerm rf1" and
    u: "rf' = rf1 \<or> (\<exists>c. commitIndex rf1 \<le> c \<and> c \<le> lastIndex rf1 \<and> rf' = undateLastApplied (rf1\<lparr>commitIndex := c\<rparr>))"
    by metis
  from u show ?thesis
  proof
    assume "\<exists>c. commitIndex rf1 \<le> c \<and> c \<le> lastIndex rf1 \<and> rf' = undateLastApplied (rf1\<lparr>commitIndex := c\<rparr>)"
    then obtain c where c: "commitIndex rf1 \<le> c" "c \<le> lastIndex rf1" "rf' = undateLastApplied (rf1\<lparr>commitIndex := c\<rparr>)" by blast
    have "keeps_committed rf rf'" using 1(2) keeps_committed_cong [of rf' rf1 rf] c(3) by (simp add: frame_simps)
    with undate_inv(1) [OF 1(1) c(1,2)] 1 c show ?thesis by (simp add: ok_step_def advances_def frame_simps)
  qed (use 1 in \<open>simp add: ok_step_def advances_def\<close>)
next
  case False
  from assms(2) show ?thesis
    by (cases rule: AppendEntries_Inr) (use assms(1,4) False in \<open>auto intro!: ok_step_same_log simp: sent_def\<close>)
qed

lemma save_snapshot_Inr:
  "save_snapshot C i t d rf = Inr rf' \<Longrightarrow> \<exists>f. rf' = rf\<lparr>disk := f\<rparr>"
proof -
  assume a: "save_snapshot C i t d rf = Inr rf'"
  then obtain f1 where f1: "fs_write (disk rf) (snapshot_name i t) d = Inr f1"
    by (cases "fs_write (disk rf) (snapshot_name i t) d") (simp_all add: save_snapshot_def)
  with a obtain rf1 g where "rf1 = rf\<lparr>disk := g\<rparr>"
    "(case wal_Truncate (rwal rf1) (of_int i) (disk rf1) of Inl e \<Rightarrow> Inr rf1 | Inr f2 \<Rightarrow> Inr (rf1\<lparr>disk := f2\<rparr>)) = (Inr rf' :: raft res)"
    by (auto simp: save_snapshot_def res_bind_Inr_iff raft_write_Inr_iff)
  then show ?thesis by (cases "wal_Truncate (rwal rf1) (of_int i) (disk rf1)") auto
qed

lemma save_snapshot_total:
  assumes "disk_up rf" "dir_exists (disk rf)" "map_of (dirents (disk rf)) (snapshot_name i t) \<noteq> Some SubDir"
  shows "\<exists>rf'. save_snapshot C i t d rf = Inr rf'"
proof -
  obtain f1 where f1: "fs_write (disk rf) (snapshot_name i t) d = Inr f1" "\<not> io_fail f1"
  proof (cases "map_of (dirents (disk rf)) (snapshot_name i t)")
    case (Some x)
    with assms that show thesis by (cases x) (auto simp: disk_up_def fs_write_def)
  qed (use assms that in \<open>auto simp: disk_up_def fs_write_def fs_create_def\<close>)
  obtain rf2 where r: "raft_write (rf\<lparr>disk := f1\<rparr>) RecordTypeSnapshot
          (enc (snapC C) \<lparr>LastIncludedIndex = i, LastIncludedTerm = t, Path = path_join (dir (rwal rf)) (snapshot_name i t)\<rparr>) = Inr rf2"
    using f1(2) assms by (auto simp: raft_write_def wal_Write_def disk_up_def)
  show ?thesis
    by (cases "wal_Truncate (rwal rf2) (of_int i) (disk rf2)") (use f1 r in \<open>simp_all add: save_snapshot_def\<close>)
qed

lemma SnapshotInstall_Inr:
  assumes "SnapshotInstall C now args rf = Inr (r, rf')"
  obtains (stale) "siTerm args < currentTerm rf" "rf' = rf"
  | (old) f t s v where "siLastIncludeIndex args \<le> lastIncludeIndex rf" "currentTerm rf \<le> siTerm args" "t = siTerm args"
     "s = state rf \<and> v = votedFor rf \<and> siTerm args = currentTerm rf \<or> s = Follower \<and> currentTerm rf < siTerm args"
     "rf' = rf\<lparr>currentTerm := t, state := s, votedFor := v, disk := f, leaderId := siLeaderId args, lastHearBeatTime := now\<rparr>"
  | (installed) f t s v where "lastIncludeIndex rf < siLastIncludeIndex args" "currentTerm rf \<le> siTerm args" "t = siTerm args"
     "s = state rf \<and> v = votedFor rf \<and> siTerm args = currentTerm rf \<or> s = Follower \<and> currentTerm rf < siTerm args"
     "rf' = rf\<lparr>currentTerm := t, state := s, votedFor := v, disk := f, leaderId := siLeaderId args, lastHearBeatTime := now,
        lastIncludeIndex := siLastIncludeIndex args, lastIncludeTerm := siLastIncludeTerm args, rlog := [],
        lastApplied := max (lastApplied rf) (siLastIncludeIndex args), commitIndex := max (commitIndex rf) (siLastIncludeIndex args),
        applyChTerm := applyChTerm rf @ [snapshot_msg (siData args) (siLastIncludeIndex args) (siLastIncludeTerm args)]\<rparr>"
proof (cases "siTerm args < currentTerm rf")
  case True
  with assms show thesis by (intro stale) (auto simp: SnapshotInstall_def Let_def)
next
  case False
  then obtain rf1 where 1: "(if siTerm args > currentTerm rf
         then persistState C (rf\<lparr>currentTerm := siTerm args, state := Follower, votedFor := -1\<rparr>)
         else Inr rf) = Inr rf1"
    using assms by (auto simp: SnapshotInstall_def Let_def res_bind_Inr_iff)
  then obtain f s v where rf1: "rf1 = rf\<lparr>currentTerm := siTerm args, state := s, votedFor := v, disk := f\<rparr>"
    "s = state rf \<and> v = votedFor rf \<and> siTerm args = currentTerm rf \<or> s = Follower \<and> currentTerm rf < siTerm args"
    using False by (cases rf) (auto simp: res_simps split: if_splits)
  let ?rf2 = "rf1\<lparr>leaderId := siLeaderId args, lastHearBeatTime := now\<rparr>"
  show thesis
  proof (cases "siLastIncludeIndex args \<le> lastIncludeIndex rf")
    case True
    with False 1 rf1 assms show thesis by (intro old [of "siTerm args" s v f]) (auto simp: SnapshotInstall_def Let_def)
  next
    case gt: False
    with False 1 rf1 assms obtain rf3 where
      3: "save_snapshot C (siLastIncludeIndex args) (siLastIncludeTerm args) (siData args) ?rf2 = Inr rf3" and
      4: "rf' = rf3\<lparr>lastIncludeIndex := siLastIncludeIndex args,
            lastIncludeTerm := siLastIncludeTerm args,
            rlog := [],
            lastApplied := (if lastApplied rf3 < siLastIncludeIndex args then siLastIncludeIndex args else lastApplied rf3),
            commitIndex := (if commitIndex rf3 < siLastIncludeIndex args then siLastIncludeIndex args else commitIndex rf3),
            applyChTerm := applyChTerm rf3
              @ [snapshot_msg (siData args) (siLastIncludeIndex args) (siLastIncludeTerm args)]\<rparr>"
      by (auto simp: SnapshotInstall_def Let_def res_bind_Inr_iff)
    from save_snapshot_Inr [OF 3] obtain g where "rf3 = ?rf2\<lparr>disk := g\<rparr>" by blast
    with 4 rf1 False gt show thesis by (intro installed [of "siTerm args" s v g]) (auto simp: max_def)
  qed
qed

lemma SnapshotInstall_ok [inv_intros]:
  assumes "raft_inv rf" "SnapshotInstall C now args rf = Inr (r, rf')"
    "siLastIncludeIndex args \<le> lastIncludeIndex rf \<or> commitIndex rf \<le> siLastIncludeIndex args"
    "state rf = Leader \<Longrightarrow> siTerm args \<noteq> currentTerm rf"
  shows "ok_step rf rf'"
  using assms(2)
proof (cases rule: SnapshotInstall_Inr)
  case stale
  with assms(1) show ?thesis by (auto intro!: ok_step_same_log)
next
  case (old f t s v)
  with assms(1,4) show ?thesis by (auto intro!: ok_step_same_log simp: sent_def)
next
  case (installed f t s v)
  with assms(1,3,4) have "raft_inv rf'"
    by (auto simp: raft_inv_def idx_inv_def lastIndex_def sent_def stream_from_append snapshot_msg_def simp flip: append_assoc)
  with installed assms(3) show ?thesis by (auto simp: ok_step_def advances_def keeps_committed_def)
qed

lemma raft_Snapshot_Inr:
  assumes "raft_Snapshot C i d rf = Inr rf'"
  obtains (nothing) "i - 1 \<le> lastIncludeIndex rf" "rf' = rf"
  | (compact) f e where "lastIncludeIndex rf < i - 1" "entry_at rf (i - 1) = Some e"
     "rf' = rf\<lparr>rlog := drop (nat (i - 1 - lastIncludeIndex rf)) (rlog rf), lastIncludeIndex := i - 1,
        lastIncludeTerm := LogTerm e, disk := f\<rparr>"
proof (cases "i - 1 \<le> lastIncludeIndex rf")
  case True
  show thesis by (rule nothing) (use True assms in \<open>auto simp: raft_Snapshot_def Let_def\<close>)
next
  case False
  with assms obtain e rf1 l where e: "go_nth (rlog rf) (index2LogPos rf (i - 1)) = Inr e"
    and s: "save_snapshot C (i - 1) (LogTerm e) d rf = Inr rf1"
    and l: "go_from (rlog rf1) (i - 1 - lastIncludeIndex rf1) = Inr l"
    and r: "rf' = rf1\<lparr>rlog := l, lastIncludeIndex := i - 1, lastIncludeTerm := LogTerm e\<rparr>"
    by (auto simp: raft_Snapshot_def Let_def res_bind_Inr_iff)
  from save_snapshot_Inr [OF s] obtain f where f: "rf1 = rf\<lparr>disk := f\<rparr>" by blast
  have "entry_at rf (i - 1) = Some e"
    using e False by (auto simp: entry_at_def res_simps index2LogPos_def lastIndex_def)
  with r l f False show thesis by (intro compact [of e f]) (auto simp: res_simps)
qed

lemma raft_Snapshot_ok [inv_intros]:
  assumes "raft_inv rf" "raft_Snapshot C i d rf = Inr rf'" "i \<le> lastApplied rf + 1"
  shows "ok_step rf rf' \<and> lastIndex rf' = lastIndex rf \<and> lastTerm rf' = lastTerm rf \<and>
    (\<forall>j > lastIncludeIndex rf'. entry_at rf' j = entry_at rf j)"
  using assms(2)
proof (cases rule: raft_Snapshot_Inr)
  case nothing
  with assms(1) show ?thesis by (auto intro!: ok_step_same_log)
next
  case (compact f e)
  let ?k = "nat (i - 1 - lastIncludeIndex rf)"
  have k: "?k \<le> length (rlog rf)" "0 < ?k"
    using compact(1,2) by (auto simp: entry_at_def lastIndex_def split: if_splits)
  have "nat (index2LogPos rf (i - 1)) = ?k - 1" using compact(1) by (simp add: index2LogPos_def)
  then have e: "e = rlog rf ! (?k - 1)" "int ?k = i - 1 - lastIncludeIndex rf"
    using compact(1,2) by (auto simp: entry_at_def split: if_splits)
  have li: "lastIndex rf' = lastIndex rf" using compact(3) k e(2) by (simp add: lastIndex_def)
  have lt: "lastTerm rf' = lastTerm rf"
    using compact(3) k e(1) by (auto simp: lastTerm_def last_drop last_conv_nth)
  have en: "entry_at rf' j = entry_at rf j" if "lastIncludeIndex rf' < j" for j
  proof -
    have "nat (index2LogPos rf j) = ?k + nat (index2LogPos rf' j)"
      using that compact(1,3) by (simp add: index2LogPos_def)
    then show ?thesis using that compact(1,3) li k(1) by (auto simp: entry_at_def)
  qed
  have "raft_inv rf'" using assms(1,3) compact(1,3) li by (auto simp: raft_inv_def idx_inv_def sent_def)
  moreover have "advances rf rf'" using en compact(1,3) by (auto simp: advances_def keeps_committed_def)
  ultimately show ?thesis using li lt en by (simp add: ok_step_def)
qed

lemma raft_Start_ok [inv_intros]:
  assumes "raft_inv rf" "raft_Start C cmd rf = Inr (res, rf')"
  shows "ok_step rf rf'"
proof (cases "state rf = Leader")
  case False
  with assms show ?thesis by (auto intro!: ok_step_same_log simp: raft_Start_def)
next
  case True
  with assms(2) obtain f where f: "rf' = rf\<lparr>rlog := rlog rf @ [\<lparr>LogTerm = currentTerm rf, LogValue = cmd\<rparr>], disk := f\<rparr>"
    by (auto simp: raft_Start_def Let_def res_simps)
  with assms(1) have "raft_inv rf'" by (force simp: raft_inv_def idx_inv_def lastIndex_def sent_def)
  moreover have "keeps_committed rf rf'"
    using assms(1) f by (intro keeps_extended_log) (auto simp: raft_inv_def)
  ultimately show ?thesis using f by (simp add: ok_step_def advances_def)
qed

lemma election_begin_ok [inv_intros]:
  assumes "raft_inv rf" "election_begin C now ms rf = Inr (req, rf')"
  shows "ok_step rf rf'"
  using assms by (auto intro!: ok_step_same_log simp: election_begin_def Let_def res_simps sent_def split: if_splits)

lemma updateCommitIndex_frame:
  "updateCommitIndex rf = Inr rf' \<Longrightarrow> rlog rf' = rlog rf \<and> lastIncludeIndex rf' = lastIncludeIndex rf \<and>
     currentTerm rf' = currentTerm rf \<and> votedFor rf' = votedFor rf \<and> state rf' = state rf \<and> me rf' = me rf \<and>
     peers rf' = peers rf \<and> disk rf' = disk rf \<and> rwal rf' = rwal rf"
  by (cases "rf' = rf") (auto elim!: updateCommitIndex_Inr simp: frame_simps)

lemma updateCommitIndex_ok:
  assumes "raft_inv rf" "updateCommitIndex rf = Inr rf'"
  shows "ok_step rf rf'"
  using updateCommitIndex_inv [OF assms] updateCommitIndex_frame [OF assms(2)] keeps_same_log [of rf' rf]
  by (auto simp: ok_step_def advances_def)

lemma ok_step_trans: "ok_step a b \<Longrightarrow> ok_step b c \<Longrightarrow> ok_step a c"
  using advances_trans by (auto simp: ok_step_def)

lemma election_end_Inr:
  assumes "election_end C now c rf = Inr (won, rf')"
  obtains (same) "rf' = rf" "\<not> won"
  | (down) f where "\<not> won" "maxTerm c > currentTerm rf" "state rf = Candidate"
      "rf' = rf\<lparr>state := Follower, leaderId := -1, currentTerm := maxTerm c, votedFor := -1, disk := f\<rparr>"
  | (won) rf0 rf1 where "rf0 = rf\<lparr>IisBack := False, state := Leader, leaderId := me rf,
            nextIndex := replicate (peers rf) (lastIndex rf + 1), matchIndex := replicate (peers rf) (-1)\<rparr>"
      "updateCommitIndex rf0 = Inr rf1" "rf' = rf1\<lparr>lastSendHeartbeatTime := now - 2 * HeartBeatInterval\<rparr>"
      "won" "state rf = Candidate" "voteCount c > peers rf div 2" "maxTerm c \<le> currentTerm rf"
proof -
  consider (a) "state rf \<noteq> Candidate" | (b) "state rf = Candidate" "maxTerm c > currentTerm rf"
    | (c) "state rf = Candidate" "\<not> maxTerm c > currentTerm rf" "voteCount c > peers rf div 2"
    | (d) "state rf = Candidate" "\<not> maxTerm c > currentTerm rf" "\<not> voteCount c > peers rf div 2" by blast
  then show thesis
  proof cases
    case b
    with assms obtain rf1 where "persistState C (rf\<lparr>state := Follower, leaderId := -1, currentTerm := maxTerm c, votedFor := -1\<rparr>) = Inr rf1"
      "rf' = rf1" "\<not> won"
      by (auto simp: election_end_def res_bind_Inr_iff)
    with b that(2) show thesis by (auto simp: persistState_Inr_iff)
  next
    case c
    with assms that(3) show thesis by (auto simp: election_end_def res_bind_Inr_iff)
  qed (use assms that(1) in \<open>auto simp: election_end_def\<close>)
qed

lemma won_inv:
  assumes "raft_inv rf" "rf0 = rf\<lparr>IisBack := False, state := Leader, leaderId := me rf,
    nextIndex := replicate (peers rf) (lastIndex rf + 1), matchIndex := replicate (peers rf) (-1)\<rparr>"
  shows "raft_inv rf0"
  using assms by (auto simp: raft_inv_def idx_inv_def lastIndex_def sent_def)

lemma election_end_ok [inv_intros]:
  assumes "raft_inv rf" "election_end C now c rf = Inr (won, rf')"
  shows "ok_step rf rf'"
  using assms(2)
proof (cases rule: election_end_Inr)
  case (won rf0 rf1)
  from updateCommitIndex_ok [OF won_inv [OF assms(1) won(1)] won(2)] have u: "ok_step rf0 rf1" .
  have "advances rf rf0" by (rule advances_same_log) (simp_all add: won(1))
  moreover from u have "raft_inv rf1" by (simp add: ok_step_def)
  then have "ok_step rf1 rf'" using won(3) by (auto intro!: ok_step_same_log simp: sent_def)
  ultimately show ?thesis using u advances_trans by (meson ok_step_def)
qed (use assms(1) in \<open>auto intro!: ok_step_same_log simp: sent_def\<close>)

lemma record_match_inv:
  assumes "raft_inv rf" "m \<le> lastIndex rf"
  shows "raft_inv (rf\<lparr>nextIndex := ni, matchIndex := (matchIndex rf)[k := m]\<rparr>)"
proof -
  have "x \<le> lastIndex rf" if "state rf = Leader" "x \<in> set ((matchIndex rf)[k := m])" for x
    using that assms set_update_subset_insert [of "matchIndex rf" k m] by (auto simp: raft_inv_def)
  then show ?thesis using assms(1) by (auto simp: raft_inv_def idx_inv_def lastIndex_def sent_def)
qed

lemma record_match_ok:
  assumes "raft_inv rf" "updateCommitIndex (rf\<lparr>nextIndex := ni, matchIndex := (matchIndex rf)[k := m]\<rparr>) = Inr rf'" "m \<le> lastIndex rf"
  shows "ok_step rf rf'"
proof -
  let ?rf0 = "rf\<lparr>nextIndex := ni, matchIndex := (matchIndex rf)[k := m]\<rparr>"
  from updateCommitIndex_ok [OF record_match_inv [OF assms(1,3)] assms(2)] have "ok_step ?rf0 rf'" .
  moreover have "advances rf ?rf0" by (rule advances_same_log) auto
  ultimately show ?thesis using advances_trans by (auto simp: ok_step_def)
qed

lemma append_reply_Inr:
  assumes "append_reply C server args reply rf = Inr (res, rf')"
  shows "(\<exists>ni. rf' = rf\<lparr>nextIndex := ni\<rparr>) \<or> rf' = rf \<or>
    (\<exists>f t. currentTerm rf < t \<and> rf' = rf\<lparr>votedFor := -1, state := Follower, currentTerm := t, leaderId := -1, disk := f\<rparr>) \<or>
    (\<exists>ni. updateCommitIndex (rf\<lparr>nextIndex := ni,
          matchIndex := (matchIndex rf)[nat server := aePrevLogIndex args + int (length (aeEntries args))]\<rparr>) = Inr rf')"
proof (cases reply)
  case (Some r)
  consider "aeTerm args \<noteq> currentTerm rf" | "aeTerm args = currentTerm rf" "currentTerm rf < aerTerm r"
    | "aeTerm args = currentTerm rf" "\<not> currentTerm rf < aerTerm r" "aerSuccess r"
    | "aeTerm args = currentTerm rf" "\<not> currentTerm rf < aerTerm r" "\<not> aerSuccess r" by blast
  then show ?thesis
  proof cases
    case 2
    with assms Some have "persistState C (rf\<lparr>votedFor := -1, state := Follower, currentTerm := aerTerm r, leaderId := -1\<rparr>) = Inr rf'"
      by (auto simp: append_reply_def res_bind_Inr_iff)
    with 2(2) show ?thesis by (auto simp: persistState_Inr_iff)
  next
    case 3
    with assms Some show ?thesis by (simp add: append_reply_def Let_def res_bind_Inr_iff go_set_Inr_iff) blast
  next
    case 4
    with assms Some show ?thesis by (simp add: append_reply_def Let_def res_bind_Inr_iff) blast
  qed (use assms Some in \<open>simp add: append_reply_def\<close>)
qed (use assms in \<open>simp add: append_reply_def\<close>)

lemma snapshot_reply_Inr:
  assumes "snapshot_reply C server args reply rf = Inr rf'"
  shows "rf' = rf \<or>
    (\<exists>f t. currentTerm rf < t \<and> rf' = rf\<lparr>state := Follower, leaderId := -1, currentTerm := t, votedFor := -1, disk := f\<rparr>) \<or>
    (\<exists>ni. updateCommitIndex (rf\<lparr>nextIndex := ni, matchIndex := (matchIndex rf)[nat server := siLastIncludeIndex args]\<rparr>) = Inr rf')"
proof (cases reply)
  case (Some r)
  consider "currentTerm rf \<noteq> siTerm args" | "siTerm args = currentTerm rf" "sirTerm r > currentTerm rf"
    | "siTerm args = currentTerm rf" "\<not> sirTerm r > currentTerm rf" by metis
  then show ?thesis
  proof cases
    case 2
    with assms Some have "persistState C (rf\<lparr>state := Follower, leaderId := -1, currentTerm := sirTerm r, votedFor := -1\<rparr>) = Inr rf'"
      by (simp add: snapshot_reply_def)
    with 2(2) show ?thesis by (auto simp: persistState_Inr_iff)
  next
    case 3
    with assms Some show ?thesis by (simp add: snapshot_reply_def Let_def res_bind_Inr_iff go_set_Inr_iff) blast
  qed (use assms Some in \<open>simp add: snapshot_reply_def\<close>)
qed (use assms in \<open>simp add: snapshot_reply_def\<close>)

lemma append_reply_ok [inv_intros]:
  assumes "raft_inv rf" "append_reply C server args reply rf = Inr (res, rf')"
    "aePrevLogIndex args + int (length (aeEntries args)) \<le> lastIndex rf"
  shows "ok_step rf rf'"
proof -
  consider (same) ni where "rf' = rf\<lparr>nextIndex := ni\<rparr>" | (none) "rf' = rf"
    | (down) f t where "currentTerm rf < t" "rf' = rf\<lparr>votedFor := -1, state := Follower, currentTerm := t, leaderId := -1, disk := f\<rparr>"
    | (up) ni where "updateCommitIndex (rf\<lparr>nextIndex := ni,
          matchIndex := (matchIndex rf)[nat server := aePrevLogIndex args + int (length (aeEntries args))]\<rparr>) = Inr rf'"
    using append_reply_Inr [OF assms(2)] by blast
  then show ?thesis
  proof cases
    case up
    from record_match_ok [OF assms(1) this assms(3)] show ?thesis .
  qed (use assms(1) in \<open>auto intro!: ok_step_same_log simp: sent_def\<close>)
qed

lemma snapshot_reply_ok [inv_intros]:
  assumes "raft_inv rf" "snapshot_reply C server args reply rf = Inr rf'" "siLastIncludeIndex args \<le> lastIndex rf"
  shows "ok_step rf rf'"
proof -
  consider (none) "rf' = rf"
    | (down) f t where "currentTerm rf < t" "rf' = rf\<lparr>state := Follower, leaderId := -1, currentTerm := t, votedFor := -1, disk := f\<rparr>"
    | (up) ni where "updateCommitIndex (rf\<lparr>nextIndex := ni,
          matchIndex := (matchIndex rf)[nat server := siLastIncludeIndex args]\<rparr>) = Inr rf'"
    using snapshot_reply_Inr [OF assms(2)] by blast
  then show ?thesis
  proof cases
    case up
    from record_match_ok [OF assms(1) this assms(3)] show ?thesis .
  qed (use assms(1) in \<open>auto intro!: ok_step_same_log simp: sent_def\<close>)
qed

lemma Applyer_ok [inv_intros]: "raft_inv rf \<Longrightarrow> ok_step rf (Applyer rf)"
  by (rule ok_step_same_log) (auto simp: Applyer_def sent_def split: list.splits option.splits if_splits)

lemma Kill_ok [inv_intros]: "raft_inv rf \<Longrightarrow> ok_step rf (raft_Kill rf)"
  by (rule ok_step_same_log) (auto simp: raft_Kill_def sent_def)

lemma turn_ok [inv_intros]: "raft_inv rf \<Longrightarrow> appendEntries_turn now rf = Inr (ks, rf') \<Longrightarrow> ok_step rf rf'"
  by (rule ok_step_same_log) (auto simp: appendEntries_turn_def sent_def Let_def res_simps split: if_splits)

lemma node_step_ok: "node_step C rf rf' \<Longrightarrow> raft_inv rf \<Longrightarrow> ok_step rf rf'"
  by (induction rule: node_step.induct) (blast intro: inv_intros dest: raft_Snapshot_ok)+

lemma node_steps_ok: "(node_step C)\<^sup>*\<^sup>* rf rf' \<Longrightarrow> raft_inv rf \<Longrightarrow> ok_step rf rf'"
proof (induction rule: rtranclp_induct)
  case base
  then show ?case by (auto intro!: ok_step_same_log)
next
  case (step b c)
  then show ?case using node_step_ok ok_step_trans by (meson ok_step_def)
qed

lemma disk_up_write: "wal_Write w t d f = Inr f' \<Longrightarrow> disk_up (rf\<lparr>rwal := w, disk := f'\<rparr>)"
  by (auto simp: disk_up_def dest: wal_Write_up)

lemma sends_same: "lastApplied rf' = lastApplied rf \<Longrightarrow> sent rf' = sent rf \<Longrightarrow> sends rf rf'"
  by (simp add: sends_def)

lemma sends_cong:
  assumes "sends a b" "lastApplied a' = lastApplied a" "sent a' = sent a"
    "lastApplied b' = lastApplied b" "sent b' = sent b" "lastIncludeIndex b' = lastIncludeIndex b" "rlog b' = rlog b"
  shows "sends a' b'"
proof -
  have "carries b' = carries b"
    using assms(4-) by (simp add: carries_def fun_eq_iff entry_at_def lastIndex_def index2LogPos_def)
  with assms show ?thesis by (simp add: sends_def)
qed

lemma sends_undate:
  assumes "raft_inv rf" "commitIndex rf \<le> c" "c \<le> lastIndex rf"
  shows "sends rf (undateLastApplied (rf\<lparr>commitIndex := c\<rparr>))"
proof -
  let ?u = "undateLastApplied (rf\<lparr>commitIndex := c\<rparr>)" and ?ms = "map (command_msg rf) [lastApplied rf + 1..c]"
  have a: "lastIncludeIndex rf \<le> lastApplied rf" "lastApplied rf \<le> c" using assms by (auto simp: raft_inv_def idx_inv_def)
  have cm: "command_msg (rf\<lparr>commitIndex := c\<rparr>) = command_msg rf"
    by (simp add: command_msg_def fun_eq_iff index2LogPos_def)
  have u: "?u = rf\<lparr>commitIndex := c, lastApplied := c, applyChTerm := applyChTerm rf @ ?ms,
     IisBack := (IisBack rf \<or> lastApplied rf < IisBackIndex rf \<and> IisBackIndex rf \<le> c)\<rparr>"
    using a assms(3) undateLastApplied_spec [of "rf\<lparr>commitIndex := c\<rparr>"] by (simp add: lastIndex_def cm)
  have "list_all (carries ?u) ?ms"
    using a assms(3)
    by (auto simp: u list_all_iff carries_def command_msg_def entry_at_def lastIndex_def index2LogPos_def split: if_splits)
  then show ?thesis using a by (auto simp: sends_def u sent_def)
qed

lemma sends_updateCommitIndex:
  assumes "raft_inv rf" "updateCommitIndex rf = Inr rf'"
  shows "sends rf rf'"
proof (cases "rf' = rf")
  case False
  then obtain N where N: "commitIndex rf < N" "rf' = undateLastApplied (rf\<lparr>commitIndex := N\<rparr>)"
    using updateCommitIndex_Inr [OF assms(2)] by metis
  moreover have "N \<le> lastIndex rf" using updateCommitIndex_inv [OF assms] N(2) by (simp add: frame_simps)
  ultimately show ?thesis using sends_undate [OF assms(1)] by simp
qed (simp add: sends_same)

lemma sends_trans:
  assumes "sends a b" "sends b c" "raft_inv b" "keeps_committed b c"
  shows "sends a c"
proof -
  from assms(1,2) obtain ms ms' where ms: "sent b = sent a @ ms" "list_all (carries b) ms"
    "sent c = sent b @ ms'" "list_all (carries c) ms'" and le: "lastApplied a \<le> lastApplied b" "lastApplied b \<le> lastApplied c"
    by (auto simp: sends_def)
  have "carries c m" if "carries b m" for m
  proof -
    have "entry_at b i = Some e" if "entry_at c i = Some e" "i \<le> lastApplied b" for i e
      using that assms(3,4) by (force simp: keeps_committed_def raft_inv_def idx_inv_def entry_at_def split: if_splits)
    with that le(2) show ?thesis by (auto simp: carries_def)
  qed
  with ms(2) have "list_all (carries c) ms" by (auto simp: list_all_iff)
  with ms le show ?thesis by (auto simp: sends_def)
qed

lemma AppendEntries_sends:
  assumes "raft_inv rf" "AppendEntries C now args rf = Inr (r, rf')" "agrees args rf"
    "state rf = Leader \<Longrightarrow> aeTerm args \<noteq> currentTerm rf"
  shows "sends rf rf'"
proof (cases "aerSuccess r")
  case True
  from AppendEntries_accept [OF assms(1,2) True assms(3,4)] obtain rf1 where
    1: "raft_inv rf1" "sent rf1 = sent rf" "lastApplied rf1 = lastApplied rf" and
    u: "rf' = rf1 \<or> (\<exists>c. commitIndex rf1 \<le> c \<and> c \<le> lastIndex rf1 \<and> rf' = undateLastApplied (rf1\<lparr>commitIndex := c\<rparr>))"
    by metis
  from u sends_undate [OF 1(1)] have "sends rf1 rf'" by (auto simp: sends_same)
  with 1 show ?thesis by (auto elim: sends_cong)
next
  case False
  from assms(2) show ?thesis
    by (cases rule: AppendEntries_Inr) (use False in \<open>auto intro!: sends_same simp: sent_def\<close>)
qed

lemma SnapshotInstall_sends:
  assumes "SnapshotInstall C now args rf = Inr (r, rf')"
  shows "sends rf rf'"
  using assms
proof (cases rule: SnapshotInstall_Inr)
  case (installed f t s v)
  then show ?thesis by (auto simp: sends_def sent_def carries_def snapshot_msg_def)
qed (auto intro!: sends_same simp: sent_def)

lemma record_match_sends:
  assumes "raft_inv rf" "updateCommitIndex (rf\<lparr>nextIndex := ni, matchIndex := (matchIndex rf)[k := m]\<rparr>) = Inr rf'" "m \<le> lastIndex rf"
  shows "sends rf rf'"
proof -
  let ?rf0 = "rf\<lparr>nextIndex := ni, matchIndex := (matchIndex rf)[k := m]\<rparr>"
  from record_match_inv [OF assms(1,3)] assms(2) have "sends ?rf0 rf'" by (rule sends_updateCommitIndex)
  then show ?thesis by (rule sends_cong) (simp_all add: sent_def)
qed

lemma election_end_sends:
  assumes "raft_inv rf" "election_end C now c rf = Inr (won, rf')"
  shows "sends rf rf'"
  using assms(2)
proof (cases rule: election_end_Inr)
  case (won rf0 rf1)
  from updateCommitIndex_ok [OF _ won(2)] won_inv [OF assms(1) won(1)] have "sends rf0 rf1"
    using sends_updateCommitIndex won(2) by blast
  then show ?thesis by (rule sends_cong) (simp_all add: won(1,3) sent_def)
qed (auto intro!: sends_same simp: sent_def)

lemma node_step_sends: "node_step C rf rf' \<Longrightarrow> raft_inv rf \<Longrightarrow> sends rf rf'"
proof (induction rule: node_step.induct)
  case (request_vote now vargs rf vr rf')
  from request_vote(1) show ?case by (rule RequestVote_Inr) (auto intro!: sends_same simp: sent_def)
next
  case (snapshot i d rf rf')
  from snapshot(1) show ?case by (cases rule: raft_Snapshot_Inr) (auto intro!: sends_same simp: sent_def)
next
  case (append_replied server args reply rf ares rf')
  from append_reply_Inr [OF append_replied(1)] show ?case
    by (elim disjE exE) ((rule record_match_sends [OF append_replied(3) _ append_replied(2)], assumption)
      | force intro!: sends_same simp: sent_def)+
next
  case (snapshot_replied server sargs sreply rf rf')
  from snapshot_reply_Inr [OF snapshot_replied(1)] show ?case
    by (elim disjE exE) ((rule record_match_sends [OF snapshot_replied(3) _ snapshot_replied(2)], assumption)
      | force intro!: sends_same simp: sent_def)+
next
  case (start cmd rf res rf')
  then show ?case by (auto intro!: sends_same simp: sent_def raft_Start_def Let_def res_simps split: if_splits)
next
  case (election_starts now ms rf req rf')
  then show ?case by (auto intro!: sends_same simp: sent_def election_begin_def Let_def res_simps split: if_splits)
next
  case (heartbeat now rf ks rf')
  then show ?case by (auto intro!: sends_same simp: sent_def appendEntries_turn_def Let_def res_simps split: if_splits)
next
  case (applies rf)
  then show ?case
    by (intro sends_same) (auto simp: Applyer_def sent_def split: list.splits option.splits)
next
  case (killed rf)
  show ?case by (intro sends_same) (simp_all add: raft_Kill_def sent_def)
qed (blast intro: AppendEntries_sends SnapshotInstall_sends election_end_sends)+

lemma node_steps_sends: "(node_step C)\<^sup>*\<^sup>* rf rf' \<Longrightarrow> raft_inv rf \<Longrightarrow> sends rf rf'"
proof (induction rule: rtranclp_induct)
  case (step b c)
  from node_steps_ok [OF step(1,4)] have b: "raft_inv b" by (simp add: ok_step_def)
  from node_step_ok [OF step(2) b] have "keeps_committed b c" by (simp add: ok_step_def advances_def)
  with step b show ?case using node_step_sends sends_trans by blast
qed (simp add: sends_same)

lemma demo_committed_inv: "raft_inv demo_committed"
  by (simp add: demo_committed_def demo_defs raft_inv_def idx_inv_def lastIndex_def sent_def)

lemma demo_step:
  "\<exists>rf'. node_step count_codecs demo_committed rf'"
proof -
  have "disk_up demo_committed" by (simp add: demo_committed_def demo_defs disk_up_def fresh_wal_def)
  then obtain x where "AppendEntries count_codecs 5 demo_args demo_committed = Inr x"
    using AppendEntries_Inl [of count_codecs 5 demo_args demo_committed]
    by (cases "AppendEntries count_codecs 5 demo_args demo_committed") auto
  then have "AppendEntries count_codecs 5 demo_args demo_committed = Inr (fst x, snd x)" by simp
  from node_step.append_entries [OF this] show ?thesis
    by (auto simp: agrees_def demo_committed_def demo_defs)
qed

section \<open>Properties\<close>





text \<open>
  Taking a snapshot forgets nothing it should keep: the entries after the snapshot, the last
  index and the last term are what they were, and the log now starts right after the snapshot.
\<close>

theorem snapshot_keeps_suffix:
  assumes "raft_inv rf" "raft_Snapshot C i d rf = Inr rf'" "i \<le> lastApplied rf + 1"
  shows "lastIncludeIndex rf' = max (lastIncludeIndex rf) (i - 1) \<and> lastIndex rf' = lastIndex rf \<and> lastTerm rf' = lastTerm rf \<and>
    (\<forall>j. lastIncludeIndex rf' < j \<longrightarrow> entry_at rf' j = entry_at rf j) \<and>
    (lastIncludeIndex rf < i - 1 \<longrightarrow> map_option LogTerm (entry_at rf (i - 1)) = Some (lastIncludeTerm rf')) \<and> raft_inv rf'"
proof -
  have "lastIncludeIndex rf' = max (lastIncludeIndex rf) (i - 1) \<and>
    (lastIncludeIndex rf < i - 1 \<longrightarrow> map_option LogTerm (entry_at rf (i - 1)) = Some (lastIncludeTerm rf'))"
    using assms(2) by (cases rule: raft_Snapshot_Inr) auto
  with raft_Snapshot_ok [OF assms] show ?thesis by (auto simp: ok_step_def)
qed

theorem snapshot_keeps_suffix_witness:
  "\<exists>rf'. raft_Snapshot count_codecs 1 ''s'' demo_committed = Inr rf' \<and>
     lastIncludeIndex rf' = 0 \<and> lastIndex rf' = 1 \<and> entry_at rf' 1 = Some \<lparr>LogTerm = 1, LogValue = ''b''\<rparr>"
proof -
  let ?rf = demo_committed
  obtain rf1 where "save_snapshot count_codecs 0 1 ''s'' ?rf = Inr rf1"
    using save_snapshot_total [of ?rf 0 1 count_codecs "''s''"] demo_up demo_disk by (auto simp: disk_up_def demo_committed_def)
  moreover from save_snapshot_Inr [OF this] obtain g where "rf1 = ?rf\<lparr>disk := g\<rparr>" by blast
  ultimately have s: "\<exists>rf'. raft_Snapshot count_codecs 1 ''s'' ?rf = Inr rf'"
    by (simp add: raft_Snapshot_def demo_committed_def demo_defs go_nth_def go_from_def index2LogPos_def)
  then obtain rf' where s: "raft_Snapshot count_codecs 1 ''s'' ?rf = Inr rf'" by blast
  have d: "entry_at ?rf 1 = Some \<lparr>LogTerm = 1, LogValue = ''b''\<rparr>" "lastIndex ?rf = 1" "lastApplied ?rf = 0" "lastIncludeIndex ?rf = -1"
    by (simp_all add: demo_committed_def demo_defs entry_at_def lastIndex_def index2LogPos_def)
  with snapshot_keeps_suffix [OF demo_committed_inv s] s show ?thesis
    by (intro exI [of _ rf']) auto
qed

text \<open>
  C39: \<^verbatim>\<open>SnapshotInstall\<close> does not compare the snapshot with the commit index: a snapshot that is newer
  than the peer's own but older than what it has committed empties the log all the same, the
  committed entries after it are gone, and the commit index points past the end of the log.
\<close>

theorem install_drops_committed_entries:
  assumes "SnapshotInstall C now args rf = Inr (r, rf')" "currentTerm rf \<le> siTerm args"
    "lastIncludeIndex rf < siLastIncludeIndex args" "siLastIncludeIndex args < i" "i \<le> commitIndex rf"
  shows "entry_at rf' i = None \<and> i \<le> commitIndex rf' \<and> lastIndex rf' < i"
  using assms(1) by (cases rule: SnapshotInstall_Inr) (use assms(2-) in \<open>auto simp: entry_at_def lastIndex_def\<close>)

theorem install_drops_committed_entries_witness:
  "\<exists>r rf'. SnapshotInstall count_codecs 5
      \<lparr>siTerm = 1, siLeaderId = 0, siLastIncludeIndex = 0, siLastIncludeTerm = 1, siData = ''s''\<rparr>
      (demo_follower\<lparr>commitIndex := 1\<rparr>) = Inr (r, rf') \<and>
    entry_at (demo_follower\<lparr>commitIndex := 1\<rparr>) 1 \<noteq> None \<and> entry_at rf' 1 = None \<and> 1 \<le> commitIndex rf' \<and> lastIndex rf' < 1"
proof -
  let ?rf = "demo_follower\<lparr>commitIndex := 1\<rparr>" and
    ?a = "\<lparr>siTerm = 1, siLeaderId = 0, siLastIncludeIndex = 0, siLastIncludeTerm = 1, siData = ''s''\<rparr>"
  obtain rf1 where "save_snapshot count_codecs 0 1 ''s'' (?rf\<lparr>leaderId := 0, lastHearBeatTime := 5\<rparr>) = Inr rf1"
    using save_snapshot_total [of "?rf\<lparr>leaderId := 0, lastHearBeatTime := 5\<rparr>" 0 1 count_codecs "''s''"] demo_up demo_disk by (auto simp: disk_up_def)
  then have "\<exists>r rf'. SnapshotInstall count_codecs 5 ?a ?rf = Inr (r, rf')"
    by (simp add: SnapshotInstall_def demo_defs Let_def)
  then obtain r rf' where s: "SnapshotInstall count_codecs 5 ?a ?rf = Inr (r, rf')" by blast
  from install_drops_committed_entries [OF s, of 1] s show ?thesis
    by (intro exI [of _ r] exI [of _ rf']) (simp add: demo_defs entry_at_def lastIndex_def)
qed

end
