(* ===== verification/RaftPersist.thy ===== *)
theory RaftPersist
  imports RaftSteps
begin

text \<open>
  What a peer of \<^verbatim>\<open>src/raft/raft.go\<close> finds in its write-ahead log when it starts again. \<open>logged_step\<close> is
  a peer that never takes a snapshot and never has to drop conflicting entries, with crashes and
  restarts at any point between two steps: such a peer comes back with its term, its vote and its
  log. The two cases left out are the ones where it does not.
\<close>

section \<open>Notions the lemmas use\<close>

text \<open>What the records of the log say: recovery from them ends with this term, vote and log.\<close>

definition recovers :: "codecs \<Rightarrow> wal \<Rightarrow> fs \<Rightarrow> int \<Rightarrow> int \<Rightarrow> log_type list \<Rightarrow> bool" where
  "recovers C w f t v l \<longleftrightarrow>
     (\<exists>rs. log_replay (w, f) = Inr rs \<and>
        (\<forall>rf. currentTerm rf = 0 \<and> votedFor rf = -1 \<and> rlog rf = [] \<longrightarrow>
           load_records C rs rf = Inr (rf\<lparr>currentTerm := t, votedFor := v, rlog := l\<rparr>)))"

text \<open>The length of the segment the log appends to, which bounds every record in it.\<close>

definition active_bytes :: "wal \<Rightarrow> fs \<Rightarrow> nat" where
  "active_bytes w f = (case wfile w of None \<Rightarrow> 0 | Some i \<Rightarrow> length (inodes f i))"

text \<open>A well-formed log that recovers to the given state as long as its lengths fit their 32-bit fields.\<close>

definition saved :: "codecs \<Rightarrow> wal \<Rightarrow> fs \<Rightarrow> int \<Rightarrow> int \<Rightarrow> log_type list \<Rightarrow> bool" where
  "saved C w f t v l \<longleftrightarrow> log_ok (w, f) \<and> (active_bytes w f < 2 ^ 32 \<longrightarrow> recovers C w f t v l)"

definition durable :: "codecs \<Rightarrow> raft \<Rightarrow> bool" where
  "durable C rf \<longleftrightarrow> saved C (rwal rf) (disk rf) (currentTerm rf) (votedFor rf) (rlog rf) \<and> lastIncludeIndex rf = -1"

text \<open>The same for the term and the vote alone, whatever log there is.\<close>

definition vote_durable :: "codecs \<Rightarrow> raft \<Rightarrow> bool" where
  "vote_durable C rf \<longleftrightarrow> (\<exists>l. saved C (rwal rf) (disk rf) (currentTerm rf) (votedFor rf) l)"

text \<open>No entry of the message has another term than the entry the receiver has at its index.\<close>

definition no_conflict :: "ae_args \<Rightarrow> raft \<Rightarrow> bool" where
  "no_conflict args rf \<longleftrightarrow>
     (\<forall>j < length (aeEntries args). aePrevLogIndex args + 1 + int j \<le> lastIndex rf \<longrightarrow>
        map_option LogTerm (entry_at rf (aePrevLogIndex args + 1 + int j)) = Some (LogTerm (aeEntries args ! j)))"

inductive logged_step :: "codecs \<Rightarrow> raft \<Rightarrow> raft \<Rightarrow> bool" for C where
  request_vote: "RequestVote C now vargs rf = Inr (vr, rf') \<Longrightarrow> logged_step C rf rf'"
| append_entries: "AppendEntries C now args rf = Inr (r, rf') \<Longrightarrow> no_conflict args rf \<Longrightarrow> logged_step C rf rf'"
| old_snapshot: "SnapshotInstall C now sargs rf = Inr (sr, rf') \<Longrightarrow> siLastIncludeIndex sargs \<le> lastIncludeIndex rf \<Longrightarrow>
    logged_step C rf rf'"
| start: "raft_Start C cmd rf = Inr (res, rf') \<Longrightarrow> logged_step C rf rf'"
| election_starts: "election_begin C now ms rf = Inr (req, rf') \<Longrightarrow> logged_step C rf rf'"
| election_ends: "election_end C now c rf = Inr (won, rf') \<Longrightarrow> logged_step C rf rf'"
| append_replied: "append_reply C server args reply rf = Inr (ares, rf') \<Longrightarrow> logged_step C rf rf'"
| snapshot_replied: "snapshot_reply C server sargs sreply rf = Inr rf' \<Longrightarrow> logged_step C rf rf'"
| heartbeat: "appendEntries_turn now rf = Inr (ks, rf') \<Longrightarrow> logged_step C rf rf'"
| applies: "logged_step C rf (Applyer rf)"
| restarts: "raft_Make C now m d n (disk rf) = Inr rf' \<Longrightarrow> GetRaftStateSize rf < 2 ^ 32 \<Longrightarrow> logged_step C rf rf'"

text \<open>The peer that comes back from a log with this term, vote and log.\<close>

definition restarted :: "int \<Rightarrow> int \<Rightarrow> string \<Rightarrow> nat \<Rightarrow> wal \<Rightarrow> fs \<Rightarrow> int \<Rightarrow> int \<Rightarrow> log_type list \<Rightarrow> raft" where
  "restarted now m d n w f t v l = (zero_raft m (w\<lparr>dir := d\<rparr>) f)\<lparr>currentTerm := t, votedFor := v, rlog := l,
     nextIndex := replicate n 0, matchIndex := replicate n 0, lastHearBeatTime := now, lastSendHeartbeatTime := now,
     applyCh := Some [], applyChTerm := [], peers := n\<rparr>"

text \<open>Codecs with short encodings for the records of the examples.\<close>

definition short_codecs :: codecs where
  "short_codecs =
     \<lparr>stateC = pin_codec [\<lparr>StateTerm = 1, StateVotedFor = -1\<rparr>, \<lparr>StateTerm = 2, StateVotedFor = -1\<rparr>,
        \<lparr>StateTerm = 3, StateVotedFor = -1\<rparr>, \<lparr>StateTerm = 3, StateVotedFor = 2\<rparr>],
      snapC = pin_codec [\<lparr>LastIncludedIndex = 1, LastIncludedTerm = 1, Path = ''d/snapshot-1-1.dat''\<rparr>],
      entryC = pin_codec [\<lparr>LogTerm = 1, LogValue = ''a''\<rparr>, \<lparr>LogTerm = 1, LogValue = ''b''\<rparr>, \<lparr>LogTerm = 2, LogValue = ''c''\<rparr>],
      opC = count_codec\<rparr>"

definition fresh_peer :: raft where
  "fresh_peer = restarted 0 1 ''d'' 3 (fresh_wal ''d'') fresh_fs 0 (-1) []"

definition demo_vote :: rv_args where
  "demo_vote = \<lparr>rvTerm = 3, rvCandidateId = 2, rvLastLogIndex = -1, rvLastLogTerm = -1\<rparr>"

text \<open>The log with its one segment holding these bytes.\<close>

definition disk_of :: "bytes \<Rightarrow> fs" where
  "disk_of bs = fresh_fs\<lparr>inodes := (inodes fresh_fs)(0 := bs)\<rparr>"

text \<open>Two entries of term 1 reach the fresh peer.\<close>

definition demo_first :: ae_args where
  "demo_first = \<lparr>aeTerm = 1, aeLeaderId = 0, aePrevLogIndex = -1, aePrevLogTerm = -1, aeLeaderCommit = -1,
     aeEntries = [\<lparr>LogTerm = 1, LogValue = ''a''\<rparr>, \<lparr>LogTerm = 1, LogValue = ''b''\<rparr>]\<rparr>"

definition two_entries :: raft where
  "two_entries = fresh_peer\<lparr>currentTerm := 1, lastHearBeatTime := 5, leaderId := 0, rlog := aeEntries demo_first,
     disk := disk_of (wal_record RecordTypeState (enc (stateC short_codecs) \<lparr>StateTerm = 1, StateVotedFor = -1\<rparr>) @
       wal_record RecordTypeEntry (enc (entryC short_codecs) \<lparr>LogTerm = 1, LogValue = ''a''\<rparr>) @
       wal_record RecordTypeEntry (enc (entryC short_codecs) \<lparr>LogTerm = 1, LogValue = ''b''\<rparr>))\<rparr>"

section \<open>Lemmas\<close>

subsection \<open>One record\<close>

lemma load_records_append:
  "load_records C (rs @ rs') rf = res_bind (load_records C rs rf) (load_records C rs')"
  by (induction rs arbitrary: rf) (auto simp: res_bind_def split: sum.splits)

lemma raft_write_Inr:
  assumes "raft_write rf t d = Inr rf'" "log_ok (rwal rf, disk rf)"
  shows "rf' = rf\<lparr>disk := disk rf'\<rparr> \<and> log_ok (rwal rf, disk rf') \<and>
    active_bytes (rwal rf) (disk rf') = active_bytes (rwal rf) (disk rf) + 9 + length d \<and>
    (active_bytes (rwal rf) (disk rf') < 2 ^ 32 \<longrightarrow> (\<forall>rs. log_replay (rwal rf, disk rf) = Inr rs \<longrightarrow>
       log_replay (rwal rf, disk rf') = Inr (rs @ [(t, d)])))"
proof -
  from assms(1) obtain f where f: "wal_Write (rwal rf) t d (disk rf) = Inr f" "rf' = rf\<lparr>disk := f\<rparr>"
    by (auto simp: raft_write_def split: sum.splits)
  then have a: "log_append (rwal rf, disk rf) (t, d) = Inr (rwal rf, f)" by (simp add: log_append_def)
  from f(1) have b: "active_bytes (rwal rf) f = active_bytes (rwal rf) (disk rf) + 9 + length d"
    by (auto simp: wal_Write_def active_bytes_def split: option.splits if_splits)
  have ok: "log_ok (rwal rf, f)"
    using wal_wf_write [OF _ f(1)] assms(2) f(1) by (auto simp: log_ok_def wal_Write_def split: option.splits if_splits)
  have "log_fits (t, d)" if "active_bytes (rwal rf) f < 2 ^ 32" using that b by (simp add: log_fits_def)
  with wlog.wr_replay [OF assms(2) _ _ a] ok b f(2) show ?thesis by auto
qed

lemma recovers_snoc:
  assumes "recovers C w f t v l" "log_replay (w, f') = Inr (rs @ [r])" "log_replay (w, f) = Inr rs"
    "\<And>rf. load_record C r (rf\<lparr>currentTerm := t, votedFor := v, rlog := l\<rparr>) = Inr (rf\<lparr>currentTerm := t', votedFor := v', rlog := l'\<rparr>)"
  shows "recovers C w f' t' v' l'"
  using assms by (auto simp: recovers_def load_records_append)

lemma record_types [simp]: "RecordTypeEntry \<noteq> RecordTypeState"
  by (simp add: RecordTypeEntry_def RecordTypeState_def)

lemma write_saved:
  assumes "raft_write rf ty d = Inr rf'" "saved C (rwal rf) (disk rf) t v l"
    "\<And>rf. load_record C (ty, d) (rf\<lparr>currentTerm := t, votedFor := v, rlog := l\<rparr>) = Inr (rf\<lparr>currentTerm := t', votedFor := v', rlog := l'\<rparr>)"
  shows "\<exists>f. rf' = rf\<lparr>disk := f\<rparr> \<and> saved C (rwal rf) f t' v' l'"
proof -
  from assms(2) have ok: "log_ok (rwal rf, disk rf)" by (simp add: saved_def)
  note w = raft_write_Inr [OF assms(1) ok]
  have "recovers C (rwal rf) (disk rf') t' v' l'" if b: "active_bytes (rwal rf) (disk rf') < 2 ^ 32"
  proof -
    have r: "recovers C (rwal rf) (disk rf) t v l" using assms(2) b w by (auto simp: saved_def)
    then obtain rs where rs: "log_replay (rwal rf, disk rf) = Inr rs" by (auto simp: recovers_def)
    from w b rs have rs': "log_replay (rwal rf, disk rf') = Inr (rs @ [(ty, d)])" by auto
    show ?thesis by (rule recovers_snoc [OF r rs' rs assms(3)])
  qed
  with w show ?thesis by (intro exI [of _ "disk rf'"]) (simp add: saved_def)
qed

lemma persistState_saved:
  assumes "codecs_ok C" "persistState C rf = Inr rf'" "saved C (rwal rf) (disk rf) t v l"
  shows "\<exists>f. rf' = rf\<lparr>disk := f\<rparr> \<and> saved C (rwal rf) f (currentTerm rf) (votedFor rf) l"
  using assms(2) unfolding persistState_def
  by (rule write_saved [OF _ assms(3)]) (use assms(1) in \<open>simp add: load_record_def codecs_ok_def codec_ok_def\<close>)

lemma persistEntry_saved:
  assumes "codecs_ok C" "persistEntry C e rf = Inr rf'" "saved C (rwal rf) (disk rf) t v l"
  shows "\<exists>f. rf' = rf\<lparr>disk := f\<rparr> \<and> saved C (rwal rf) f t v (l @ [e])"
  using assms(2) unfolding persistEntry_def
  by (rule write_saved [OF _ assms(3)]) (use assms(1) in \<open>simp add: load_record_def codecs_ok_def codec_ok_def\<close>)

subsection \<open>The operations\<close>

text \<open>
  What a peer has to have on disk, as a predicate \<open>good\<close>: it depends on the log, the term and the vote only, and writing a
  state record or an entry with its entry in memory establishes it. Every operation that takes no snapshot and drops no
  entries keeps it.
\<close>

locale persistence =
  fixes C :: codecs and good :: "raft \<Rightarrow> bool"
  assumes cong: "good rf \<Longrightarrow> rwal rf' = rwal rf \<Longrightarrow> disk rf' = disk rf \<Longrightarrow> currentTerm rf' = currentTerm rf \<Longrightarrow>
      votedFor rf' = votedFor rf \<Longrightarrow> rlog rf' = rlog rf \<Longrightarrow> lastIncludeIndex rf' = lastIncludeIndex rf \<Longrightarrow> good rf'"
    and state: "persistState C rf1 = Inr rf' \<Longrightarrow> good rf \<Longrightarrow> rwal rf1 = rwal rf \<Longrightarrow> disk rf1 = disk rf \<Longrightarrow>
      rlog rf1 = rlog rf \<Longrightarrow> lastIncludeIndex rf1 = lastIncludeIndex rf \<Longrightarrow> good rf'"
    and entry: "persistEntry C e (rf\<lparr>rlog := rlog rf @ [e]\<rparr>) = Inr rf' \<Longrightarrow> good rf \<Longrightarrow> good rf'"
begin

lemma good_simps [simp]:
  "good (rf\<lparr>lastHearBeatTime := x1\<rparr>) = good rf" "good (rf\<lparr>leaderId := x2\<rparr>) = good rf"
  "good (rf\<lparr>state := s\<rparr>) = good rf" "good (rf\<lparr>lastSendHeartbeatTime := x1\<rparr>) = good rf"
  "good (rf\<lparr>nextIndex := ni\<rparr>) = good rf" "good (rf\<lparr>matchIndex := ni\<rparr>) = good rf"
  "good (rf\<lparr>IisBack := b\<rparr>) = good rf"
  by (auto elim: cong)

lemma undate [simp]: "good (undateLastApplied (rf\<lparr>commitIndex := c\<rparr>)) = good rf"
  by (auto elim!: cong simp: frame_simps)

lemma update_commit: "updateCommitIndex rf = Inr rf' \<Longrightarrow> good rf' = good rf"
  by (cases "rf' = rf") (auto elim!: updateCommitIndex_Inr)

lemma request_vote:
  assumes "RequestVote C now args rf = Inr (r, rf')" "good rf"
  shows "good rf'"
proof (cases "rvTerm args < currentTerm rf")
  case False
  define rf0 where "rf0 = rf\<lparr>currentTerm := rvTerm args, state := Follower, votedFor := -1, leaderId := -1\<rparr>"
  from False assms(1) obtain rf1 where 1: "(if currentTerm rf < rvTerm args then persistState C rf0 else Inr rf) = Inr rf1"
    and 2: "rf' = rf1 \<or> persistState C (rf1\<lparr>votedFor := rvCandidateId args, lastHearBeatTime := now\<rparr>) = Inr rf'"
    by (auto simp: RequestVote_def Let_def res_bind_Inr_iff rf0_def split: if_splits)
  from 1 have "good rf1"
    using state [OF _ assms(2), of rf0 rf1] assms(2) by (auto simp: rf0_def split: if_splits)
  then show ?thesis using 2 state by fastforce
qed (use assms in \<open>auto simp: RequestVote_def Let_def\<close>)

lemma begin_election: "election_begin C now ms rf = Inr (req, rf') \<Longrightarrow> good rf \<Longrightarrow> good rf'"
  using state [of _ rf' rf] by (auto simp: election_begin_def Let_def res_bind_Inr_iff split: if_splits)

lemma end_election: "election_end C now c rf = Inr (won, rf') \<Longrightarrow> good rf \<Longrightarrow> good rf'"
  using state [of _ rf' rf] by (auto simp: election_end_def Let_def res_bind_Inr_iff update_commit split: if_splits)

lemma append_answer: "append_reply C server args reply rf = Inr (res, rf') \<Longrightarrow> good rf \<Longrightarrow> good rf'"
  using state [of _ rf' rf]
  by (auto simp: append_reply_def Let_def res_bind_Inr_iff update_commit split: option.splits if_splits)

lemma snapshot_answer: "snapshot_reply C server args reply rf = Inr rf' \<Longrightarrow> good rf \<Longrightarrow> good rf'"
  using state [of _ rf' rf]
  by (auto simp: snapshot_reply_def Let_def res_bind_Inr_iff update_commit split: option.splits if_splits)

lemma start_command: "raft_Start C cmd rf = Inr (res, rf') \<Longrightarrow> good rf \<Longrightarrow> good rf'"
  using entry [of _ rf rf'] by (auto simp: raft_Start_def Let_def res_bind_Inr_iff split: if_splits)

lemma heartbeat_turn: "appendEntries_turn now rf = Inr (ks, rf') \<Longrightarrow> good rf \<Longrightarrow> good rf'"
  by (auto simp: appendEntries_turn_def Let_def res_bind_Inr_iff split: if_splits)

lemma hand_over: "good rf \<Longrightarrow> good (Applyer rf)"
  by (auto simp: Applyer_def elim: cong split: list.splits option.splits)

lemma old_install:
  assumes "SnapshotInstall C now args rf = Inr (r, rf')" "good rf" "siLastIncludeIndex args \<le> lastIncludeIndex rf"
  shows "good rf'"
proof (cases "siTerm args < currentTerm rf")
  case False
  define rf0 where "rf0 = rf\<lparr>currentTerm := siTerm args, state := Follower, votedFor := -1\<rparr>"
  from False assms(1) obtain rf1 where 1: "(if siTerm args > currentTerm rf then persistState C rf0 else Inr rf) = Inr rf1"
    and 2: "lastIncludeIndex rf1 = lastIncludeIndex rf \<Longrightarrow> rf' = rf1\<lparr>leaderId := siLeaderId args, lastHearBeatTime := now\<rparr>"
    using assms(3) by (auto simp: SnapshotInstall_def Let_def res_bind_Inr_iff rf0_def split: if_splits)
  from 1 have "good rf1"
    using state [OF _ assms(2), of rf0 rf1] assms(2) by (auto simp: rf0_def split: if_splits)
  moreover from 1 have "lastIncludeIndex rf1 = lastIncludeIndex rf" by (auto simp: rf0_def persistState_Inr_iff split: if_splits)
  ultimately show ?thesis using 2 by simp
qed (use assms in \<open>auto simp: SnapshotInstall_def Let_def\<close>)

text \<open>\<^verbatim>\<open>AppendEntries\<close> up to the point where it copies the entries.\<close>

lemma append_until_copy:
  assumes "AppendEntries C now args rf = Inr (r, rf')" "good rf"
  obtains rf3 where "good rf3" "rlog rf3 = rlog rf" "rwal rf3 = rwal rf" "lastIncludeIndex rf3 = lastIncludeIndex rf"
    "rf' = rf3 \<or> CopyEntries C args rf3 = Inr rf'"
proof (cases "currentTerm rf > aeTerm args")
  case True
  with assms show thesis by (intro that [of rf]) (auto simp: AppendEntries_def Let_def)
next
  case False
  with assms(1) obtain rf1 rf2 rf3 where 1: "ae_adopt_term C args rf = Inr rf1" and 2: "ae_leave_candidacy C args rf1 = Inr rf2"
    and rf3: "rf3 = rf2\<lparr>lastHearBeatTime := now, leaderId := aeLeaderId args\<rparr>" "rf' = rf3 \<or> CopyEntries C args rf3 = Inr rf'"
    by (auto simp: AppendEntries_def Let_def res_bind_Inr_iff split: option.splits)
  from 1 have d1: "good rf1" using state [OF _ assms(2)] assms(2) by (auto simp: ae_adopt_term_def split: if_splits)
  from 2 have d2: "good rf2" using state [OF _ d1] d1 by (auto simp: ae_leave_candidacy_def split: if_splits)
  have "rlog rf2 = rlog rf \<and> rwal rf2 = rwal rf \<and> lastIncludeIndex rf2 = lastIncludeIndex rf" using 1 2
    by (auto simp: ae_adopt_term_def ae_leave_candidacy_def persistState_Inr_iff split: if_splits)
  with d2 rf3 show thesis by (intro that [of rf3]) auto
qed

end

text \<open>The whole state of the peer, and its term and vote alone, are on disk in this sense.\<close>

interpretation dur: persistence C "\<lambda>rf. codecs_ok C \<longrightarrow> durable C rf" for C
proof
  fix rf rf1 rf' :: raft
  assume "persistState C rf1 = Inr rf'" "codecs_ok C \<longrightarrow> durable C rf" "rwal rf1 = rwal rf" "disk rf1 = disk rf"
    "rlog rf1 = rlog rf" "lastIncludeIndex rf1 = lastIncludeIndex rf"
  then show "codecs_ok C \<longrightarrow> durable C rf'" using persistState_saved [of C rf1 rf'] by (fastforce simp: durable_def)
next
  fix e and rf rf' :: raft
  assume "persistEntry C e (rf\<lparr>rlog := rlog rf @ [e]\<rparr>) = Inr rf'" "codecs_ok C \<longrightarrow> durable C rf"
  then show "codecs_ok C \<longrightarrow> durable C rf'" using persistEntry_saved [of C e "rf\<lparr>rlog := rlog rf @ [e]\<rparr>" rf'] by (fastforce simp: durable_def)
qed (auto simp: durable_def)

interpretation ballot: persistence C "\<lambda>rf. codecs_ok C \<longrightarrow> vote_durable C rf" for C
proof
  fix rf rf1 rf' :: raft
  assume "persistState C rf1 = Inr rf'" "codecs_ok C \<longrightarrow> vote_durable C rf" "rwal rf1 = rwal rf" "disk rf1 = disk rf"
  then show "codecs_ok C \<longrightarrow> vote_durable C rf'" using persistState_saved [of C rf1 rf'] by (fastforce simp: vote_durable_def)
next
  fix e and rf rf' :: raft
  assume "persistEntry C e (rf\<lparr>rlog := rlog rf @ [e]\<rparr>) = Inr rf'" "codecs_ok C \<longrightarrow> vote_durable C rf"
  then show "codecs_ok C \<longrightarrow> vote_durable C rf'"
    using persistEntry_saved [of C e "rf\<lparr>rlog := rlog rf @ [e]\<rparr>" rf'] by (fastforce simp: vote_durable_def)
qed (auto simp: vote_durable_def)

lemma durable_undate [simp]: "durable C (undateLastApplied (rf\<lparr>commitIndex := c\<rparr>)) = durable C rf"
  by (simp add: durable_def frame_simps)

lemma persistEntry_durable:
  assumes "codecs_ok C" "persistEntry C e (rf\<lparr>rlog := rlog rf @ [e]\<rparr>) = Inr rf'" "durable C rf"
  shows "durable C rf'"
  using dur.entry [OF assms(2)] assms by simp

lemma copy_loop_durable:
  assumes "copy_loop C idx es rf = Inr rf'" "codecs_ok C" "durable C rf"
    "\<And>j. j < length es \<Longrightarrow> idx + int j \<le> lastIndex rf \<Longrightarrow> map_option LogTerm (entry_at rf (idx + int j)) = Some (LogTerm (es ! j))"
  shows "durable C rf'"
  using assms(1,3,4)
proof (induction es arbitrary: idx rf)
  case (Cons e es)
  show ?case
  proof (cases "idx > lastIndex rf")
    case True
    with Cons.prems(1) obtain rf1 where 1: "persistEntry C e (rf\<lparr>rlog := rlog rf @ [e]\<rparr>) = Inr rf1" "copy_loop C (idx + 1) es rf1 = Inr rf'"
      by (auto simp: res_bind_Inr_iff)
    have "lastIndex rf1 = lastIndex rf + 1"
      using 1(1) by (auto simp: persistEntry_def raft_write_def lastIndex_def split: sum.splits)
    with Cons.IH [OF 1(2) persistEntry_durable [OF assms(2) 1(1) Cons.prems(2)]] True show ?thesis by auto
  next
    case False
    have t: "map_option LogTerm (entry_at rf idx) = Some (LogTerm e)" using Cons.prems(3) [of 0] False by simp
    with Cons.prems(1) False have 1: "copy_loop C (idx + 1) es rf = Inr rf'"
      by (auto simp: res_bind_Inr_iff entry_at_def go_nth_def split: if_splits)
    show ?thesis
      by (rule Cons.IH [OF 1 Cons.prems(2)]) (use Cons.prems(3) [of "Suc j" for j] in \<open>auto simp: algebra_simps\<close>)
  qed
qed simp

lemma copy_loop_saved:
  assumes "copy_loop C idx es rf = Inr rf'" "codecs_ok C" "saved C (rwal rf) (disk rf) t v l"
  shows "\<exists>es'. saved C (rwal rf') (disk rf') t v (l @ es')"
  using assms(1,3)
proof (induction es arbitrary: idx rf l)
  case (Cons e es)
  have w: "\<exists>es'. saved C (rwal rf') (disk rf') t v (l @ es')"
    if "persistEntry C e (rf\<lparr>rlog := k\<rparr>) = Inr rf1" "copy_loop C (idx + 1) es rf1 = Inr rf'" for k rf1
    using persistEntry_saved [OF assms(2) that(1), of t v l] Cons.IH [OF that(2), of "l @ [e]"] Cons.prems(2) by auto
  show ?case using Cons.prems w Cons.IH by (auto simp: res_bind_Inr_iff split: if_splits)
qed (metis append_Nil2 copy_loop.simps(1) sum.inject(2))

lemma CopyEntries_durable:
  assumes "CopyEntries C args rf = Inr rf'" "codecs_ok C" "durable C rf" "no_conflict args rf"
  shows "durable C rf'"
proof -
  from assms(1) obtain rf1 where 1: "copy_loop C (aePrevLogIndex args + 1) (aeEntries args) rf = Inr rf1"
    and rf': "rf' = rf1 \<or> (\<exists>c. rf' = undateLastApplied (rf1\<lparr>commitIndex := c\<rparr>))"
    by (auto simp: CopyEntries_def Let_def res_bind_Inr_iff split: if_splits)
  have "durable C rf1" by (rule copy_loop_durable [OF 1 assms(2,3)]) (use assms(4) in \<open>auto simp: no_conflict_def\<close>)
  with rf' show ?thesis by auto
qed

lemma CopyEntries_saved:
  assumes "CopyEntries C args rf = Inr rf'" "codecs_ok C" "saved C (rwal rf) (disk rf) t v l"
  shows "\<exists>es'. saved C (rwal rf') (disk rf') t v (l @ es')"
proof -
  from assms(1) obtain rf1 where 1: "copy_loop C (aePrevLogIndex args + 1) (aeEntries args) rf = Inr rf1"
    and rf': "rf' = rf1 \<or> (\<exists>c. rf' = undateLastApplied (rf1\<lparr>commitIndex := c\<rparr>))"
    by (auto simp: CopyEntries_def Let_def res_bind_Inr_iff split: if_splits)
  from copy_loop_saved [OF 1 assms(2,3)] rf' show ?thesis by (auto simp: frame_simps)
qed

lemma no_conflict_cong: "no_conflict args rf \<Longrightarrow> rlog rf' = rlog rf \<Longrightarrow> lastIncludeIndex rf' = lastIncludeIndex rf \<Longrightarrow> no_conflict args rf'"
  unfolding no_conflict_def lastIndex_def entry_at_def index2LogPos_def by (simp only:)

lemma AppendEntries_durable:
  assumes "AppendEntries C now args rf = Inr (r, rf')" "codecs_ok C" "durable C rf" "no_conflict args rf"
  shows "durable C rf'"
proof -
  obtain rf3 where a: "durable C rf3" "rlog rf3 = rlog rf" "lastIncludeIndex rf3 = lastIncludeIndex rf" "rf' = rf3 \<or> CopyEntries C args rf3 = Inr rf'"
    using dur.append_until_copy [OF assms(1)] assms(2,3) by metis
  with CopyEntries_durable [OF _ assms(2) a(1) no_conflict_cong [OF assms(4) a(2,3)]] show ?thesis by auto
qed

text \<open>Dropping entries leaves the term and the vote alone.\<close>

lemma copy_loop_vote:
  "copy_loop C idx es rf = Inr rf' \<Longrightarrow> currentTerm rf' = currentTerm rf \<and> votedFor rf' = votedFor rf"
  by (induction es arbitrary: idx rf) (fastforce simp: res_bind_Inr_iff persistEntry_Inr_iff split: if_splits)+

lemma AppendEntries_vote_durable:
  assumes "AppendEntries C now args rf = Inr (r, rf')" "codecs_ok C" "vote_durable C rf"
  shows "vote_durable C rf'"
proof -
  obtain rf3 where a: "vote_durable C rf3" "rf' = rf3 \<or> CopyEntries C args rf3 = Inr rf'"
    using ballot.append_until_copy [OF assms(1)] assms(2,3) by metis
  have "currentTerm rf' = currentTerm rf3 \<and> votedFor rf' = votedFor rf3" if "CopyEntries C args rf3 = Inr rf'"
    using that by (auto simp: CopyEntries_def Let_def res_bind_Inr_iff frame_simps dest!: copy_loop_vote split: if_splits)
  with a CopyEntries_saved [OF _ assms(2)] show ?thesis by (fastforce simp: vote_durable_def)
qed

subsection \<open>Restarting\<close>

lemma active_bytes_size:
  assumes "log_ok (w, f)"
  shows "int (active_bytes w f) \<le> wal_Size w f"
proof -
  from assms have wf: "wal_wf w f" and io: "\<not> io_fail f" by (simp_all add: log_ok_def)
  then obtain i where i: "wfile w = Some i" "(seg_name (seq w), RegFile i) \<in> set (dirents f)" and ex: "dir_exists f"
    by (auto simp: wal_wf_def)
  from wal_wf_names [OF wf] obtain ns where ns: "wal_names f = ns @ [seg_name (seq w)]" by blast
  have "fs_read f (seg_name (seq w)) = Inr (inodes f i)" using wal_wf_fs_read [OF wf io i(2)] .
  moreover have "0 \<le> sum_list (map (\<lambda>n. case fs_read f n of Inl _ \<Rightarrow> 0 | Inr bs \<Rightarrow> int (length bs)) ns)"
    by (rule sum_list_nonneg) (auto split: sum.splits)
  ultimately show ?thesis using i(1) ex io ns by (simp add: wal_Size_def listLogFiles_names active_bytes_def)
qed

lemma small_active:
  assumes "log_ok (rwal rf, disk rf)" "GetRaftStateSize rf < 2 ^ 32"
  shows "active_bytes (rwal rf) (disk rf) < 2 ^ 32"
  using active_bytes_size [OF assms(1)] assms(2) by (simp add: GetRaftStateSize_def)

lemma Make_saved:
  assumes "saved C w f t v l" "active_bytes w f < 2 ^ 32"
  shows "raft_Make C now m d n f = Inr (restarted now m d n w f t v l)"
proof -
  from assms obtain rs where ok: "log_ok (w, f)" and rs: "log_replay (w, f) = Inr rs"
    and load: "\<And>rf. currentTerm rf = 0 \<and> votedFor rf = -1 \<and> rlog rf = [] \<Longrightarrow>
      load_records C rs rf = Inr (rf\<lparr>currentTerm := t, votedFor := v, rlog := l\<rparr>)"
    by (auto simp: saved_def recovers_def)
  have "wal_Open d f = Inr (w\<lparr>dir := d\<rparr>, f)" using ok by (intro wal_open_wf) (simp_all add: log_ok_def)
  moreover have "wal_ReadAll (w\<lparr>dir := d\<rparr>) f = Inr rs" using rs by (simp add: log_replay_def wal_ReadAll_def)
  ultimately show ?thesis
    using load [of "zero_raft m (w\<lparr>dir := d\<rparr>) f"] by (simp add: raft_Make_def loadFromWAL_def zero_raft_def restarted_def)
qed

lemma saved_dir [simp]: "saved C (w\<lparr>dir := d\<rparr>) f t v l = saved C w f t v l"
  by (simp add: saved_def recovers_def active_bytes_def log_ok_def wal_wf_def log_replay_def wal_ReadAll_def)

lemma Make_durable:
  assumes "saved C w f t v l" "active_bytes w f < 2 ^ 32" "raft_Make C now m d n f = Inr rf"
  shows "durable C rf"
  using Make_saved [OF assms(1,2)] assms by (auto simp: durable_def restarted_def zero_raft_def)

lemma logged_step_durable:
  assumes "logged_step C rf rf'" "codecs_ok C" "durable C rf"
  shows "durable C rf'"
  using assms
proof (cases rule: logged_step.cases)
  case (restarts now m d n)
  from assms(3) have "saved C (rwal rf) (disk rf) (currentTerm rf) (votedFor rf) (rlog rf)" by (simp add: durable_def)
  with Make_durable [OF this _ restarts(1)] small_active [OF _ restarts(2)] show ?thesis by (simp add: saved_def)
qed (use assms in \<open>auto intro: dur.request_vote [THEN mp] AppendEntries_durable dur.old_install [THEN mp] dur.start_command [THEN mp]
    dur.begin_election [THEN mp] dur.end_election [THEN mp] dur.append_answer [THEN mp] dur.snapshot_answer [THEN mp]
    dur.heartbeat_turn [THEN mp] dur.hand_over [THEN mp]\<close>)

lemma logged_steps_durable:
  "(logged_step C)\<^sup>*\<^sup>* rf rf' \<Longrightarrow> codecs_ok C \<Longrightarrow> durable C rf \<Longrightarrow> durable C rf'"
  by (induction rule: rtranclp_induct) (auto intro: logged_step_durable)

lemma fresh_saved: "saved C (fresh_wal d) fresh_fs 0 (-1) []"
  by (auto simp: saved_def recovers_def)

lemma Make_empty: "raft_Make C now m d n empty_fs = raft_Make C now m d n fresh_fs"
proof -
  have "wal_Open d fresh_fs = Inr (fresh_wal d, fresh_fs)"
    using wal_open_wf [of "fresh_wal d" fresh_fs d] by (simp add: fresh_wal_def del: fresh_wf(1)) (metis fresh_wal_def fresh_wf(1))
  then show ?thesis by (simp add: raft_Make_def wal_open_empty)
qed

lemma fresh_active [simp]: "active_bytes (fresh_wal d) fresh_fs = 0"
  by (simp add: active_bytes_def fresh_wal_def fresh_fs_def fs_create_def empty_fs_def)

lemma Make_fresh:
  "raft_Make C now m d n empty_fs = Inr (restarted now m d n (fresh_wal d) fresh_fs 0 (-1) [])"
  unfolding Make_empty using fresh_saved by (rule Make_saved) simp

lemma fresh_durable: "raft_Make C now m d n empty_fs = Inr rf \<Longrightarrow> durable C rf"
  unfolding Make_empty by (rule Make_durable [OF fresh_saved [of C d]]) simp_all

subsection \<open>Snapshots\<close>

lemma truncate_files_dirents: "set (dirents (truncate_files li s ns f)) \<subseteq> set (dirents f)"
proof (induction ns arbitrary: s f)
  case (Cons n ns)
  have "set (dirents (fs_remove f n)) \<subseteq> set (dirents f)" by (auto simp: fs_remove_def)
  with Cons.IH [of "sscanf_hex n s" "fs_remove f n"] Cons.IH [of "sscanf_hex n s" f] show ?case by (auto simp: Let_def)
qed simp

lemma wal_truncate_gone:
  assumes "wal_wf w f" "\<not> io_fail f" "seq w \<le> li" "wal_Truncate w li f = Inr f'"
  shows "seg_name (seq w) \<notin> fst ` set (dirents f')"
proof
  assume "seg_name (seq w) \<in> fst ` set (dirents f')"
  then obtain e where e: "(seg_name (seq w), e) \<in> set (dirents f')" by auto
  then have "(seg_name (seq w), e) \<in> set (dirents f)"
    using assms(4) truncate_files_dirents by (fastforce simp: wal_Truncate_def res_bind_Inr_iff)
  with assms(1) have "is_file e" by (auto simp: wal_wf_def is_file_iff dest: eq_key_imp_eq_value)
  with e have "seg_name (seq w) \<in> set (wal_names f')" by (auto simp: set_wal_names is_file_iff)
  with wal_truncate_active [OF assms] show False by simp
qed

lemma fs_write_ok:
  assumes "log_ok (w, f)" "fs_write f n d = Inr f'" "\<not> suffix ''.wal'' n"
  shows "log_ok (w, f')"
proof -
  have "n \<noteq> seg_name s" for s using assms(3) by auto
  with assms show ?thesis
    by (auto simp: log_ok_def wal_wf_def fs_write_def fs_create_def dest!: map_of_SomeD split: if_splits option.splits dirent.splits)
      (auto simp: map_of_eq_None_iff)
qed

lemma snapshot_name_suffix: "\<not> suffix ''.wal'' (snapshot_name i t)"
proof
  assume "suffix ''.wal'' (snapshot_name i t)"
  then have "drop (length (snapshot_name i t) - 4) (snapshot_name i t) = ''.wal''" by (auto simp: suffix_def)
  then show False by (simp add: snapshot_name_def)
qed

lemma one_le_of_int:
  assumes "1 \<le> i" "i < 2 ^ 63"
  shows "1 \<le> (of_int i :: 64 word)"
  using assms by (simp add: word_le_def uint_word_of_int take_bit_int_eq_self)

lemma Make_no_segment:
  assumes "wal_names f = []" "\<not> io_fail f" "dir_exists f" "seg_name 1 \<notin> fst ` set (dirents f)"
  shows "\<exists>w f1. raft_Make C now m d n f = Inr (restarted now m d n w f1 0 (-1) [])"
proof -
  let ?f = "fs_create f (seg_name 1)" and ?w = "\<lparr>dir = d, wfile = Some (next_inode f), seq = 1\<rparr> :: wal"
  have h: "map_of (dirents f) (seg_name 1) = None" using assms(4) by (simp add: map_of_eq_None_iff)
  then have o: "wal_Open d f = Inr (?w, ?f)"
    using assms by (simp add: wal_Open_def listLogFiles_names newLogFile_def)
  have "filter (\<lambda>(n, e). is_file e \<and> suffix ''.wal'' n) (dirents f) = []"
    using arg_cong [OF assms(1), of length] by (simp add: wal_names_def del: length_0_conv) (simp only: length_0_conv)
  then have "wal_names ?f = [seg_name 1]" by (simp add: wal_names_def fs_create_def) (simp add: is_file_def)
  moreover have "fs_read ?f (seg_name 1) = Inr []"
    using assms(2) h by (simp add: fs_read_def fs_create_def map_add_def)
  ultimately have "wal_ReadAll ?w ?f = Inr []"
    using assms by (simp add: wal_ReadAll_def listLogFiles_names fs_create_def)
  with o have "raft_Make C now m d n f = Inr (restarted now m d n ?w ?f 0 (-1) [])"
    by (simp add: raft_Make_def loadFromWAL_def zero_raft_def restarted_def)
  then show ?thesis by blast
qed

section \<open>Properties\<close>

text \<open>
  C11: A peer that is started on an empty directory and then runs for ever, crashing and starting again
  at any point between two steps, comes back with the term it was in, the vote it has given and
  every entry of its log, as long as it has not taken a snapshot or dropped conflicting entries and
  its log is shorter than 4 GiB.
\<close>

theorem restart_recovers:
  assumes "codecs_ok C" "raft_Make C now0 m0 d0 n0 empty_fs = Inr rf0" "(logged_step C)\<^sup>*\<^sup>* rf0 rf" "GetRaftStateSize rf < 2 ^ 32"
  shows "\<exists>rf'. raft_Make C now m d n (disk rf) = Inr rf' \<and> currentTerm rf' = currentTerm rf \<and> votedFor rf' = votedFor rf \<and>
    rlog rf' = rlog rf \<and> lastIncludeIndex rf' = lastIncludeIndex rf \<and> state rf' = Follower \<and> peers rf' = n"
proof -
  have "durable C rf" using logged_steps_durable [OF assms(3,1)] fresh_durable [OF assms(2)] .
  then have s: "saved C (rwal rf) (disk rf) (currentTerm rf) (votedFor rf) (rlog rf)" and l: "lastIncludeIndex rf = -1"
    by (simp_all add: durable_def)
  from small_active [OF _ assms(4)] s have b: "active_bytes (rwal rf) (disk rf) < 2 ^ 32" by (simp add: saved_def)
  show ?thesis using Make_saved [OF s b, of now m d n] l by (simp add: restarted_def zero_raft_def)
qed

text \<open>
  C38: Entries that \<^verbatim>\<open>CopyEntries\<close> drops because they conflict with the leader's are not dropped from the
  write-ahead log: after a restart the peer has them again, in front of the entries that replaced
  them, so that its log is neither the one it had nor the leader's.
\<close>

theorem dropped_entries_return:
  assumes "codecs_ok C" "raft_Make C now0 m0 d0 n0 empty_fs = Inr rf0" "(logged_step C)\<^sup>*\<^sup>* rf0 rf"
    "AppendEntries C now1 args rf = Inr (r, rf1)" "\<not> prefix (rlog rf) (rlog rf1)" "GetRaftStateSize rf1 < 2 ^ 32"
  shows "\<exists>rf2. raft_Make C now m d n (disk rf1) = Inr rf2 \<and> prefix (rlog rf) (rlog rf2) \<and> rlog rf2 \<noteq> rlog rf1"
proof -
  have "durable C rf" using logged_steps_durable [OF assms(3,1)] fresh_durable [OF assms(2)] .
  then obtain rf3 where 3: "durable C rf3" "rlog rf3 = rlog rf" "rf1 = rf3 \<or> CopyEntries C args rf3 = Inr rf1"
    using dur.append_until_copy [OF assms(4)] assms(1) by metis
  with assms(5) have "CopyEntries C args rf3 = Inr rf1" by auto
  with CopyEntries_saved [OF _ assms(1)] 3(1) obtain es' where s: "saved C (rwal rf1) (disk rf1) (currentTerm rf3) (votedFor rf3) (rlog rf @ es')"
    using 3(2) by (fastforce simp: durable_def)
  from small_active [OF _ assms(6)] s have b: "active_bytes (rwal rf1) (disk rf1) < 2 ^ 32" by (simp add: saved_def)
  have "rlog rf @ es' \<noteq> rlog rf1" using assms(5) by (metis prefixI)
  with Make_saved [OF s b, of now m d n] show ?thesis by (simp add: restarted_def zero_raft_def)
qed

text \<open>
  C37: Once a peer has taken a snapshot past index 0, a restart forgets everything: the snapshot record is
  written to the segment that \<^verbatim>\<open>Truncate\<close> then removes, so the peer comes back in term 0, without its
  vote, without its log and without the snapshot.
\<close>

theorem snapshot_forgets_state:
  assumes "raft_Snapshot C i data rf = Inr rf1" "log_ok (rwal rf, disk rf)" "seq (rwal rf) = 1"
    "lastIncludeIndex rf < i - 1" "1 < i" "i < 2 ^ 63"
  shows "\<exists>rf2. raft_Make C now m d n (disk rf1) = Inr rf2 \<and> currentTerm rf2 = 0 \<and> votedFor rf2 = -1 \<and> rlog rf2 = [] \<and>
    lastIncludeIndex rf2 = -1"
proof -
  from assms(1,4) obtain e :: log_type and rf0 l where s: "save_snapshot C (i - 1) (LogTerm e) data rf = Inr rf0"
    "rf0\<lparr>rlog := l, lastIncludeIndex := i - 1, lastIncludeTerm := LogTerm e\<rparr> = rf1"
    by (simp add: raft_Snapshot_def Let_def res_bind_Inr_iff) blast
  from s(1) obtain f1 where f1: "fs_write (disk rf) (snapshot_name (i - 1) (LogTerm e)) data = Inr f1"
    by (auto simp: save_snapshot_def split: sum.splits)
  with s(1) obtain ra where ra: "raft_write (rf\<lparr>disk := f1\<rparr>) RecordTypeSnapshot (enc (snapC C) \<lparr>LastIncludedIndex = i - 1,
      LastIncludedTerm = LogTerm e, Path = path_join (dir (rwal rf)) (snapshot_name (i - 1) (LogTerm e))\<rparr>) = Inr ra"
    and tr: "(case wal_Truncate (rwal ra) (of_int (i - 1)) (disk ra) of Inl e \<Rightarrow> Inr ra | Inr f2 \<Rightarrow> Inr (ra\<lparr>disk := f2\<rparr>)) = (Inr rf0 :: raft res)"
    by (auto simp: save_snapshot_def res_bind_Inr_iff)
  have "log_ok (rwal rf, f1)" by (rule fs_write_ok [OF assms(2) f1 snapshot_name_suffix])
  with raft_write_Inr [OF ra] have ra': "log_ok (rwal ra, disk ra)" "rwal ra = rwal rf"
    using ra by (auto simp: raft_write_def split: sum.splits)
  then have wf: "wal_wf (rwal ra) (disk ra)" "\<not> io_fail (disk ra)" by (simp_all add: log_ok_def)
  then obtain f2 where f2: "wal_Truncate (rwal ra) (of_int (i - 1)) (disk ra) = Inr f2"
    by (auto simp: wal_Truncate_def listLogFiles_names wal_wf_def)
  have le: "seq (rwal ra) \<le> of_int (i - 1)" using one_le_of_int [of "i - 1"] assms(3,5,6) ra'(2) by simp
  from tr f2 have "disk rf1 = f2" using s(2) by auto
  with Make_no_segment wal_truncate_active [OF wf le f2] wal_truncate_gone [OF wf le f2] ra'(2) assms(3)
  show ?thesis by (fastforce simp: restarted_def zero_raft_def)
qed

lemma disk_of_fresh: "fresh_fs = disk_of []"
  by (simp add: disk_of_def fresh_fs_def empty_fs_def fs_create_def)

lemma Write_disk_of [simp]: "wal_Write (fresh_wal d) t x (disk_of bs) = Inr (disk_of (bs @ wal_record t x))"
  by (simp add: wal_Write_def fresh_wal_def disk_of_def fresh_fs_def fs_create_def empty_fs_def)

lemma Size_disk_of [simp]: "wal_Size (fresh_wal d) (disk_of bs) = int (length bs)"
  by (simp add: wal_Size_def listLogFiles_def disk_of_def fresh_fs_def fs_create_def empty_fs_def is_file_def fs_read_def)

lemma fresh_dir [simp]: "fresh_wal d\<lparr>dir := d\<rparr> = fresh_wal d"
  by (simp add: fresh_wal_def)

lemma short_codecs_ok [simp]: "codecs_ok short_codecs"
  by (simp add: codecs_ok_def short_codecs_def)

lemmas demo_run_defs = fresh_peer_def restarted_def zero_raft_def disk_of_fresh persistState_def persistEntry_def raft_write_def lastIndex_def lastTerm_def

lemma demo_voted:
  "\<exists>r rf. RequestVote short_codecs 5 demo_vote fresh_peer = Inr (r, rf) \<and> rvrVoteGranted r \<and> currentTerm rf = 3 \<and>
     votedFor rf = 2 \<and> GetRaftStateSize rf < 2 ^ 32"
  by (simp add: RequestVote_def demo_vote_def demo_run_defs GetRaftStateSize_def)
    (simp add: short_codecs_def pin_codec_def)

theorem restart_recovers_witness:
  "\<exists>r rf rf'. RequestVote short_codecs 5 demo_vote fresh_peer = Inr (r, rf) \<and> rvrVoteGranted r \<and>
     raft_Make short_codecs 9 1 ''d'' 3 (disk rf) = Inr rf' \<and> currentTerm rf' = 3 \<and> votedFor rf' = 2"
proof -
  obtain r rf where v: "RequestVote short_codecs 5 demo_vote fresh_peer = Inr (r, rf)" "rvrVoteGranted r" "currentTerm rf = 3"
    "votedFor rf = 2" "GetRaftStateSize rf < 2 ^ 32" using demo_voted by blast
  have m: "raft_Make short_codecs 0 1 ''d'' 3 empty_fs = Inr fresh_peer" by (simp add: Make_fresh fresh_peer_def)
  have "(logged_step short_codecs)\<^sup>*\<^sup>* fresh_peer rf" using v(1) by (blast intro: logged_step.request_vote)
  from restart_recovers [OF short_codecs_ok m this v(5), of 9 1 "''d''" 3] v show ?thesis by auto
qed

lemmas ae_run_defs = AppendEntries_def Let_def ae_adopt_term_def ae_leave_candidacy_def ae_check_def CopyEntries_def

lemma demo_two: "\<exists>r. AppendEntries short_codecs 5 demo_first fresh_peer = Inr (r, two_entries)"
  by (simp add: ae_run_defs demo_first_def demo_run_defs two_entries_def)

lemma demo_drop:
  "\<exists>r rf. AppendEntries short_codecs 7 demo_args two_entries = Inr (r, rf) \<and>
     rlog rf = [\<lparr>LogTerm = 1, LogValue = ''a''\<rparr>, \<lparr>LogTerm = 2, LogValue = ''c''\<rparr>] \<and> GetRaftStateSize rf < 2 ^ 32"
  by (simp add: ae_run_defs demo_args_def two_entries_def demo_first_def demo_run_defs go_nth_def go_upto_def index2LogPos_def
      GetRaftStateSize_def frame_simps) (simp add: short_codecs_def pin_codec_def)

theorem dropped_entries_return_witness:
  "\<exists>r rf1 rf2. AppendEntries short_codecs 7 demo_args two_entries = Inr (r, rf1) \<and>
     raft_Make short_codecs 9 1 ''d'' 3 (disk rf1) = Inr rf2 \<and> prefix (rlog two_entries) (rlog rf2) \<and> rlog rf2 \<noteq> rlog rf1"
proof -
  obtain r rf1 where a: "AppendEntries short_codecs 7 demo_args two_entries = Inr (r, rf1)"
    "rlog rf1 = [\<lparr>LogTerm = 1, LogValue = ''a''\<rparr>, \<lparr>LogTerm = 2, LogValue = ''c''\<rparr>]" "GetRaftStateSize rf1 < 2 ^ 32"
    using demo_drop by blast
  have m: "raft_Make short_codecs 0 1 ''d'' 3 empty_fs = Inr fresh_peer" by (simp add: Make_fresh fresh_peer_def)
  have "no_conflict demo_first fresh_peer"
    by (simp add: no_conflict_def demo_first_def fresh_peer_def restarted_def zero_raft_def lastIndex_def)
  with demo_two have "(logged_step short_codecs)\<^sup>*\<^sup>* fresh_peer two_entries" by (blast intro: logged_step.append_entries)
  moreover have "\<not> prefix (rlog two_entries) (rlog rf1)" by (simp add: a(2) two_entries_def demo_first_def)
  ultimately show ?thesis
    using dropped_entries_return [OF short_codecs_ok m _ a(1) _ a(3), of 9 1 "''d''" 3] a(1) by blast
qed

lemma demo_snapshot: "\<exists>rf. raft_Snapshot short_codecs 2 ''s'' two_entries = Inr rf"
proof -
  have "io_fail (disk_of bs) = False" "dir_exists (disk_of bs)" "dirents (disk_of bs) = [(seg_name 1, RegFile 0)]" for bs
    by (simp_all add: disk_of_def fresh_fs_def empty_fs_def fs_create_def)
  moreover have "snapshot_name i t \<noteq> seg_name 1" for i t using snapshot_name_suffix by (metis suffix_seg_name)
  ultimately show ?thesis
    by (simp add: raft_Snapshot_def save_snapshot_def two_entries_def demo_first_def demo_run_defs go_nth_def go_from_def index2LogPos_def
      fs_write_def wal_Write_def fresh_wal_def fs_create_def split: sum.splits)
qed

lemma two_entries_ok: "log_ok (rwal two_entries, disk two_entries)" "seq (rwal two_entries) = 1" "lastIncludeIndex two_entries = -1"
  by (auto simp: two_entries_def fresh_peer_def restarted_def zero_raft_def log_ok_def disk_of_def wal_wf_inodes) (simp_all add: fresh_wal_def)

theorem snapshot_forgets_state_witness:
  "\<exists>rf1 rf2. raft_Snapshot short_codecs 2 ''s'' two_entries = Inr rf1 \<and> currentTerm two_entries = 1 \<and> length (rlog two_entries) = 2 \<and>
     raft_Make short_codecs 9 1 ''d'' 3 (disk rf1) = Inr rf2 \<and> currentTerm rf2 = 0 \<and> rlog rf2 = []"
proof -
  obtain rf1 where s: "raft_Snapshot short_codecs 2 ''s'' two_entries = Inr rf1" using demo_snapshot by blast
  from snapshot_forgets_state [OF s two_entries_ok(1,2), of 9 1 "''d''" 3] two_entries_ok(3) s show ?thesis
    by (auto simp: two_entries_def demo_first_def)
qed

end
