(* ===== verification/Store.thy ===== *)
theory Store
  imports Types
begin

text \<open>
  The interface \<^verbatim>\<open>common.DB\<close> of \<^verbatim>\<open>src/common/common.go\<close>: a record of the operations the key-value server
  calls, and the laws the server relies on as a locale. The provider is \<^verbatim>\<open>BoltDB\<close>.
\<close>

datatype db_error = DbNotFound | DbDecode | DbLibrary string

text \<open>
  An operation that changes the database returns the error beside the new database. The cursor loops
  of an implementation may in principle not return (\<open>None\<close>); \<^verbatim>\<open>Keys\<close> and \<^verbatim>\<open>KVs\<close> panic on a negative
  page size. \<open>op_New\<close> is the constructor \<^verbatim>\<open>bboltdb.NewDB\<close> the server calls.
\<close>

record 'd db_ops =
  op_Del :: "'d \<Rightarrow> string \<Rightarrow> db_error option \<times> 'd"
  op_DelWithPrefix :: "'d \<Rightarrow> string \<Rightarrow> (db_error option \<times> 'd) option"
  op_GetEntry :: "'d \<Rightarrow> string \<Rightarrow> db_error + entry"
  op_GetEntryWithPrefix :: "'d \<Rightarrow> string \<Rightarrow> (db_error + entry list) option"
  op_GetPairsWithPrefix :: "'d \<Rightarrow> string \<Rightarrow> (db_error + pair list) option"
  op_PutEntry :: "'d \<Rightarrow> string \<Rightarrow> entry \<Rightarrow> db_error option \<times> 'd"
  op_Keys :: "'d \<Rightarrow> int \<Rightarrow> int \<Rightarrow> (db_error + pair list) option res"
  op_KVs :: "'d \<Rightarrow> int \<Rightarrow> int \<Rightarrow> (db_error + pair list) option res"
  op_SnapshotData :: "'d \<Rightarrow> db_error + bytes"
  op_InstallSnapshotData :: "'d \<Rightarrow> bytes \<Rightarrow> db_error option \<times> 'd"
  op_New :: 'd

text \<open>The entry a caller that ignores the error sees: the zero value when there is one.\<close>

definition entry_or_zero :: "db_error + entry \<Rightarrow> entry" where
  "entry_or_zero r = (case r of Inl _ \<Rightarrow> zero_entry | Inr e \<Rightarrow> e)"

text \<open>
  \<open>view d\<close> is the map of keys to entries a database stands for, \<open>ok\<close> its invariant, \<open>fits\<close> what can be
  stored.
\<close>

locale kv_store =
  fixes D :: "'d db_ops"
    and view :: "'d \<Rightarrow> string \<Rightarrow> entry option"
    and ok :: "'d \<Rightarrow> bool"
    and fits :: "string \<Rightarrow> entry \<Rightarrow> bool"
  assumes get: "ok d \<Longrightarrow> op_GetEntry D d k = (case view d k of None \<Rightarrow> Inl DbNotFound | Some e \<Rightarrow> Inr e)"
    and put: "ok d \<Longrightarrow> fits k e \<Longrightarrow> \<exists>d'. op_PutEntry D d k e = (None, d') \<and> ok d' \<and> view d' = (view d)(k \<mapsto> e)"
    and put_empty_key: "ok d \<Longrightarrow> \<exists>err. op_PutEntry D d [] e = (Some err, d)"
    and del: "ok d \<Longrightarrow> \<exists>d'. op_Del D d k = (None, d') \<and> ok d' \<and> view d' = (view d)(k := None)"
    and del_prefix: "ok d \<Longrightarrow> \<exists>d'. op_DelWithPrefix D d p = Some (None, d') \<and> ok d' \<and>
      view d' = (\<lambda>k. if prefix p k then None else view d k)"
    and pairs: "ok d \<Longrightarrow> \<exists>ps. op_GetPairsWithPrefix D d p = Some (Inr ps) \<and>
      sorted (map PairKey ps) \<and> distinct (map PairKey ps) \<and>
      (\<forall>k e. \<lparr>PairKey = k, PairEntry = e\<rparr> \<in> set ps \<longleftrightarrow> prefix p k \<and> view d k = Some e)"
    and snapshot: "ok d \<Longrightarrow> ok d0 \<Longrightarrow> \<exists>bs d'. op_SnapshotData D d = Inr bs \<and>
      op_InstallSnapshotData D d0 bs = (None, d') \<and> ok d' \<and> view d' = view d"
begin

text \<open>Reading after a write, a deletion, and a snapshot transfer.\<close>

lemma get_after_put:
  assumes "ok d" "fits k e" "op_PutEntry D d k e = (err, d')"
  shows "op_GetEntry D d' k' = (if k' = k then Inr e else op_GetEntry D d k')"
proof -
  from put [OF assms(1,2)] assms(3) have "ok d'" "view d' = (view d)(k \<mapsto> e)" by auto
  with assms(1) show ?thesis by (simp add: get)
qed

lemma get_after_del:
  assumes "ok d" "op_Del D d k = (err, d')"
  shows "op_GetEntry D d' k' = (if k' = k then Inl DbNotFound else op_GetEntry D d k')"
proof -
  from del [OF assms(1), of k] assms(2) have "ok d'" "view d' = (view d)(k := None)" by auto
  with assms(1) show ?thesis by (simp add: get)
qed

lemma entry_or_zero_get:
  "ok d \<Longrightarrow> entry_or_zero (op_GetEntry D d k) = (case view d k of None \<Rightarrow> zero_entry | Some e \<Rightarrow> e)"
  by (simp add: get entry_or_zero_def split: option.splits)

end

end
