(* ===== verification/BoltDB.thy ===== *)
theory BoltDB
  imports Store
begin

text \<open>
  The storage of the service, \<^verbatim>\<open>src/pkg/bboltdb/bboltdb.go\<close>, which implements the interface \<^verbatim>\<open>common.DB\<close>
  of \<^verbatim>\<open>src/common/common.go\<close> on top of the library bbolt. The library is a parameter: a record of the
  bucket and cursor operations the code calls, over an abstract type \<open>'b\<close> of databases and \<open>'c\<close> of
  cursors. \<open>bolt_ok\<close> states what bbolt documents of them. A loop over a cursor need not end for an
  arbitrary parameter, so the loops are partial functions, and that they return is proved.
\<close>

section \<open>Definitions\<close>

text \<open>
  bbolt as the code uses it: \<^verbatim>\<open>Bucket.Get\<close>, \<^verbatim>\<open>Put\<close>, \<^verbatim>\<open>Delete\<close>, the cursor operations (each returns the
  cursor and the pair it now points to), \<^verbatim>\<open>Tx.WriteTo\<close>, \<^verbatim>\<open>Open\<close> on a file with the given content, and
  the database \<^verbatim>\<open>Open\<close> creates in an empty file, with the bucket created in it.
\<close>

record ('b, 'c) bolt =
  bk_get :: "'b \<Rightarrow> bytes \<Rightarrow> bytes option"
  bk_put :: "'b \<Rightarrow> bytes \<Rightarrow> bytes \<Rightarrow> db_error + 'b"
  bk_delete :: "'b \<Rightarrow> bytes \<Rightarrow> db_error + 'b"
  c_first :: "'b \<Rightarrow> 'c \<times> (bytes \<times> bytes) option"
  c_seek :: "'b \<Rightarrow> bytes \<Rightarrow> 'c \<times> (bytes \<times> bytes) option"
  c_next :: "'b \<Rightarrow> 'c \<Rightarrow> 'c \<times> (bytes \<times> bytes) option"
  c_delete :: "'b \<Rightarrow> 'c \<Rightarrow> db_error + 'b \<times> 'c"
  tx_write :: "'b \<Rightarrow> bytes"
  bk_open :: "bytes \<Rightarrow> db_error + 'b"
  bk_new :: 'b

text \<open>\<^verbatim>\<open>BoltDB\<close>: the open database, \<open>None\<close> once it is closed.\<close>

record 'b boltdb =
  bdb :: "'b option"
  bpath :: string

definition NewDB :: "('b, 'c) bolt \<Rightarrow> string \<Rightarrow> 'b boltdb" where
  "NewDB B path = \<lparr>bdb = Some (bk_new B), bpath = path\<rparr>"

definition boltdb_Close :: "'b boltdb \<Rightarrow> 'b boltdb" where
  "boltdb_Close d = d\<lparr>bdb := None\<rparr>"

text \<open>
  \<^verbatim>\<open>DB.Update\<close> and \<^verbatim>\<open>DB.View\<close>: run the closure on the open database; an error rolls the update back.
  The error is returned beside the database.
\<close>

definition db_update :: "'b boltdb \<Rightarrow> ('b \<Rightarrow> db_error + 'b) \<Rightarrow> db_error option \<times> 'b boltdb" where
  "db_update d f =
     (case bdb d of
        None \<Rightarrow> (Some (DbLibrary ''database not open''), d)
      | Some b \<Rightarrow> (case f b of Inl e \<Rightarrow> (Some e, d) | Inr b' \<Rightarrow> (None, d\<lparr>bdb := Some b'\<rparr>)))"

definition db_view :: "'b boltdb \<Rightarrow> ('b \<Rightarrow> db_error + 'a) \<Rightarrow> db_error + 'a" where
  "db_view d f = (case bdb d of None \<Rightarrow> Inl (DbLibrary ''database not open'') | Some b \<Rightarrow> f b)"

definition boltdb_Del :: "('b, 'c) bolt \<Rightarrow> 'b boltdb \<Rightarrow> string \<Rightarrow> db_error option \<times> 'b boltdb" where
  "boltdb_Del B d key = db_update d (\<lambda>b. bk_delete B b key)"

text \<open>The loop of \<^verbatim>\<open>DelWithPrefix\<close>: delete at the cursor, then move it on.\<close>

partial_function (option) del_loop ::
  "('b, 'c) bolt \<Rightarrow> bytes \<Rightarrow> 'b \<Rightarrow> 'c \<times> (bytes \<times> bytes) option \<Rightarrow> (db_error + 'b) option" where
  "del_loop B p b cur =
     (case snd cur of
        None \<Rightarrow> Some (Inr b)
      | Some kv \<Rightarrow>
          if prefix p (fst kv) then
            (case c_delete B b (fst cur) of
               Inl e \<Rightarrow> Some (Inl e)
             | Inr bc \<Rightarrow> del_loop B p (fst bc) (c_next B (fst bc) (snd bc)))
          else Some (Inr b))"

definition boltdb_DelWithPrefix ::
  "('b, 'c) bolt \<Rightarrow> 'b boltdb \<Rightarrow> string \<Rightarrow> (db_error option \<times> 'b boltdb) option" where
  "boltdb_DelWithPrefix B d p =
     (case bdb d of
        None \<Rightarrow> Some (Some (DbLibrary ''database not open''), d)
      | Some b \<Rightarrow>
          (case del_loop B p b (c_seek B b p) of
             None \<Rightarrow> None
           | Some r \<Rightarrow> Some (db_update d (\<lambda>_. r))))"

definition boltdb_Get :: "('b, 'c) bolt \<Rightarrow> 'b boltdb \<Rightarrow> string \<Rightarrow> db_error + bytes" where
  "boltdb_Get B d key =
     db_view d (\<lambda>b. case bk_get B b key of None \<Rightarrow> Inl DbNotFound | Some v \<Rightarrow> Inr v)"

text \<open>The pairs a cursor loop over the keys with a prefix visits.\<close>

partial_function (option) prefix_loop ::
  "('b, 'c) bolt \<Rightarrow> bytes \<Rightarrow> 'b \<Rightarrow> 'c \<times> (bytes \<times> bytes) option \<Rightarrow> (bytes \<times> bytes) list option" where
  "prefix_loop B p b cur =
     (case snd cur of
        None \<Rightarrow> Some []
      | Some kv \<Rightarrow>
          if prefix p (fst kv) then
            Option.bind (prefix_loop B p b (c_next B b (fst cur))) (\<lambda>rest. Some (kv # rest))
          else Some [])"

definition view_prefix ::
  "('b, 'c) bolt \<Rightarrow> 'b boltdb \<Rightarrow> string \<Rightarrow> (bytes \<times> bytes \<Rightarrow> 'a option) \<Rightarrow> (db_error + 'a list) option" where
  "view_prefix B d p f =
     (case bdb d of
        None \<Rightarrow> Some (Inl (DbLibrary ''database not open''))
      | Some b \<Rightarrow> Option.bind (prefix_loop B p b (c_seek B b p)) (\<lambda>kvs. Some (Inr (List.map_filter f kvs))))"

definition boltdb_GetWithPrefix :: "('b, 'c) bolt \<Rightarrow> 'b boltdb \<Rightarrow> string \<Rightarrow> (db_error + bytes list) option" where
  "boltdb_GetWithPrefix B d p = view_prefix B d p (\<lambda>kv. Some (snd kv))"

definition GetEntry :: "('b, 'c) bolt \<Rightarrow> entry codec \<Rightarrow> 'b boltdb \<Rightarrow> string \<Rightarrow> db_error + entry" where
  "GetEntry B G d key =
     db_view d (\<lambda>b. case bk_get B b key of
        None \<Rightarrow> Inl DbNotFound
      | Some v \<Rightarrow> (case dec G v of None \<Rightarrow> Inl DbDecode | Some e \<Rightarrow> Inr e))"

definition GetEntryWithPrefix ::
  "('b, 'c) bolt \<Rightarrow> entry codec \<Rightarrow> 'b boltdb \<Rightarrow> string \<Rightarrow> (db_error + entry list) option" where
  "GetEntryWithPrefix B G d p = view_prefix B d p (\<lambda>kv. dec G (snd kv))"

definition GetPairsWithPrefix ::
  "('b, 'c) bolt \<Rightarrow> entry codec \<Rightarrow> 'b boltdb \<Rightarrow> string \<Rightarrow> (db_error + pair list) option" where
  "GetPairsWithPrefix B G d p =
     view_prefix B d p (\<lambda>kv. map_option (\<lambda>e. \<lparr>PairKey = fst kv, PairEntry = e\<rparr>) (dec G (snd kv)))"

definition PutEntry ::
  "('b, 'c) bolt \<Rightarrow> entry codec \<Rightarrow> 'b boltdb \<Rightarrow> string \<Rightarrow> entry \<Rightarrow> db_error option \<times> 'b boltdb" where
  "PutEntry B G d key e = db_update d (\<lambda>b. bk_put B b key (enc G e))"

definition boltdb_Put ::
  "('b, 'c) bolt \<Rightarrow> entry codec \<Rightarrow> 'b boltdb \<Rightarrow> string \<Rightarrow> bytes \<Rightarrow> int \<Rightarrow> db_error option \<times> 'b boltdb" where
  "boltdb_Put B G d key v dead_time = PutEntry B G d key \<lparr>Value = v, DeadTime = dead_time\<rparr>"

text \<open>
  Paging: move the cursor past the first \<open>skip\<close> pairs, then collect up to \<open>pageSize\<close> decodable pairs.
  \<^verbatim>\<open>make\<close> with a negative capacity panics.
\<close>

fun skip_loop :: "('b, 'c) bolt \<Rightarrow> 'b \<Rightarrow> nat \<Rightarrow> 'c \<times> (bytes \<times> bytes) option \<Rightarrow> 'c \<times> (bytes \<times> bytes) option" where
  "skip_loop B b 0 cur = cur"
| "skip_loop B b (Suc n) cur = (if snd cur = None then cur else skip_loop B b n (c_next B b (fst cur)))"

partial_function (option) page_loop ::
  "('b, 'c) bolt \<Rightarrow> entry codec \<Rightarrow> 'b \<Rightarrow> int \<Rightarrow> int \<Rightarrow> 'c \<times> (bytes \<times> bytes) option \<Rightarrow> pair list option" where
  "page_loop B G b pageSize count cur =
     (case snd cur of
        None \<Rightarrow> Some []
      | Some kv \<Rightarrow>
          if count < pageSize then
            (case dec G (snd kv) of
               None \<Rightarrow> page_loop B G b pageSize count (c_next B b (fst cur))
             | Some e \<Rightarrow>
                 Option.bind (page_loop B G b pageSize (count + 1) (c_next B b (fst cur)))
                   (\<lambda>rest. Some (\<lparr>PairKey = fst kv, PairEntry = e\<rparr> # rest)))
          else Some [])"

definition KVs ::
  "('b, 'c) bolt \<Rightarrow> entry codec \<Rightarrow> 'b boltdb \<Rightarrow> int \<Rightarrow> int \<Rightarrow> (db_error + pair list) option res" where
  "KVs B G d pageSize pageIndex =
     (if pageSize < 0 then Inl SliceBounds
      else Inr (case bdb d of
        None \<Rightarrow> Some (Inl (DbLibrary ''database not open''))
      | Some b \<Rightarrow>
          Option.bind (page_loop B G b pageSize 0 (skip_loop B b (nat (pageIndex * pageSize)) (c_first B b)))
            (\<lambda>ps. Some (Inr ps))))"

definition clear_value :: "pair \<Rightarrow> pair" where
  "clear_value p = p\<lparr>PairEntry := (PairEntry p)\<lparr>Value := []\<rparr>\<rparr>"

definition Keys ::
  "('b, 'c) bolt \<Rightarrow> entry codec \<Rightarrow> 'b boltdb \<Rightarrow> int \<Rightarrow> int \<Rightarrow> (db_error + pair list) option res" where
  "Keys B G d pageSize pageIndex =
     res_bind (KVs B G d pageSize pageIndex) (\<lambda>r. Inr (map_option (map_sum id (map clear_value)) r))"

definition SnapshotData :: "('b, 'c) bolt \<Rightarrow> 'b boltdb \<Rightarrow> db_error + bytes" where
  "SnapshotData B d = db_view d (\<lambda>b. Inr (tx_write B b))"

definition InstallSnapshotData :: "('b, 'c) bolt \<Rightarrow> 'b boltdb \<Rightarrow> bytes \<Rightarrow> db_error option \<times> 'b boltdb" where
  "InstallSnapshotData B d data =
     (case bk_open B data of
        Inl e \<Rightarrow> (Some e, d\<lparr>bdb := None\<rparr>)
      | Inr b \<Rightarrow> (None, d\<lparr>bdb := Some b\<rparr>))"

subsection \<open>What bbolt documents\<close>

text \<open>
  \<open>cnt b\<close> is the content of a bucket in key order, \<open>at b c xs\<close> says that the cursor \<open>c\<close> points to the
  first of the pairs \<open>xs\<close>, the last of the content: keys are unique and in byte order, \<^verbatim>\<open>First\<close>,
  \<^verbatim>\<open>Seek\<close> and \<^verbatim>\<open>Next\<close> visit them in that order, \<^verbatim>\<open>Put\<close> needs a key that is neither empty nor longer than
  32768 bytes and a value of at most $2^{31}-2$ bytes, \<^verbatim>\<open>Delete\<close> of a missing key does nothing, a
  database copied with \<^verbatim>\<open>WriteTo\<close> opens with the same content.
\<close>

definition points :: "('b \<Rightarrow> 'c \<Rightarrow> (bytes \<times> bytes) list \<Rightarrow> bool) \<Rightarrow> 'b \<Rightarrow> 'c \<times> (bytes \<times> bytes) option \<Rightarrow> (bytes \<times> bytes) list \<Rightarrow> bool" where
  "points at b cur xs \<longleftrightarrow> (case xs of [] \<Rightarrow> snd cur = None | x # _ \<Rightarrow> snd cur = Some x \<and> at b (fst cur) xs)"

definition fits_bolt :: "bytes \<Rightarrow> bytes \<Rightarrow> bool" where
  "fits_bolt k v \<longleftrightarrow> k \<noteq> [] \<and> length k \<le> 32768 \<and> length v \<le> 2 ^ 31 - 2"

definition bolt_ok ::
  "('b, 'c) bolt \<Rightarrow> ('b \<Rightarrow> (bytes \<times> bytes) list) \<Rightarrow> ('b \<Rightarrow> 'c \<Rightarrow> (bytes \<times> bytes) list \<Rightarrow> bool) \<Rightarrow> bool" where
  "bolt_ok B cnt at \<longleftrightarrow>
     (\<forall>b. sorted (map fst (cnt b)) \<and> distinct (map fst (cnt b))) \<and>
     (\<forall>b k. bk_get B b k = map_of (cnt b) k) \<and>
     (\<forall>b k v. fits_bolt k v \<longrightarrow> (\<exists>b'. bk_put B b k v = Inr b' \<and> map_of (cnt b') = (map_of (cnt b))(k \<mapsto> v))) \<and>
     (\<forall>b v. bk_put B b [] v = Inl (DbLibrary ''key required'')) \<and>
     (\<forall>b k. \<exists>b'. bk_delete B b k = Inr b' \<and> map_of (cnt b') = (map_of (cnt b))(k := None)) \<and>
     (\<forall>b. points at b (c_first B b) (cnt b)) \<and>
     (\<forall>b k. points at b (c_seek B b k) (dropWhile (\<lambda>p. fst p < k) (cnt b))) \<and>
     (\<forall>b c x xs. at b c (x # xs) \<longrightarrow> points at b (c_next B b c) xs) \<and>
     (\<forall>b. \<exists>b'. bk_open B (tx_write B b) = Inr b' \<and> cnt b' = cnt b) \<and>
     cnt (bk_new B) = []"

text \<open>
  What \<^verbatim>\<open>DelWithPrefix\<close> relies on beyond that: after \<^verbatim>\<open>Delete\<close>, \<^verbatim>\<open>Next\<close> goes on with the pair after the
  deleted one. (The documentation asks callers to reposition the cursor instead.)
\<close>

definition delete_keeps_place ::
  "('b, 'c) bolt \<Rightarrow> ('b \<Rightarrow> (bytes \<times> bytes) list) \<Rightarrow> ('b \<Rightarrow> 'c \<Rightarrow> (bytes \<times> bytes) list \<Rightarrow> bool) \<Rightarrow> bool" where
  "delete_keeps_place B cnt at \<longleftrightarrow>
     (\<forall>b c x xs. at b c (x # xs) \<longrightarrow>
        (\<exists>b' c'. c_delete B b c = Inr (b', c') \<and> map_of (cnt b') = (map_of (cnt b))(fst x := None) \<and>
           points at b' (c_next B b' c') xs))"

definition bolt_ops :: "('b, 'c) bolt \<Rightarrow> entry codec \<Rightarrow> string \<Rightarrow> 'b boltdb db_ops" where
  "bolt_ops B G path =
     \<lparr>op_Del = boltdb_Del B, op_DelWithPrefix = boltdb_DelWithPrefix B, op_GetEntry = GetEntry B G,
      op_GetEntryWithPrefix = GetEntryWithPrefix B G, op_GetPairsWithPrefix = GetPairsWithPrefix B G,
      op_PutEntry = PutEntry B G, op_Keys = Keys B G, op_KVs = KVs B G, op_SnapshotData = SnapshotData B,
      op_InstallSnapshotData = InstallSnapshotData B, op_New = NewDB B path\<rparr>"

text \<open>
  The map of keys to entries a database stands for, and its invariant: it is open, and every value in
  it was written by \<^verbatim>\<open>PutEntry\<close>, so that it decodes.
\<close>

definition db_map :: "('b \<Rightarrow> (bytes \<times> bytes) list) \<Rightarrow> entry codec \<Rightarrow> 'b boltdb \<Rightarrow> string \<Rightarrow> entry option" where
  "db_map cnt G d k = Option.bind (bdb d) (\<lambda>b. Option.bind (map_of (cnt b) k) (dec G))"

definition db_wf :: "('b \<Rightarrow> (bytes \<times> bytes) list) \<Rightarrow> entry codec \<Rightarrow> 'b boltdb \<Rightarrow> bool" where
  "db_wf cnt G d \<longleftrightarrow> (case bdb d of None \<Rightarrow> False | Some b \<Rightarrow> (\<forall>kv \<in> set (cnt b). dec G (snd kv) \<noteq> None))"

definition bolt_laws ::
  "('b, 'c) bolt \<Rightarrow> entry codec \<Rightarrow> ('b \<Rightarrow> (bytes \<times> bytes) list) \<Rightarrow> ('b \<Rightarrow> 'c \<Rightarrow> (bytes \<times> bytes) list \<Rightarrow> bool) \<Rightarrow> bool" where
  "bolt_laws B G cnt at \<longleftrightarrow> bolt_ok B cnt at \<and> delete_keeps_place B cnt at \<and> codec_ok G"

definition db_ok ::
  "('b, 'c) bolt \<Rightarrow> entry codec \<Rightarrow> ('b \<Rightarrow> (bytes \<times> bytes) list) \<Rightarrow> ('b \<Rightarrow> 'c \<Rightarrow> (bytes \<times> bytes) list \<Rightarrow> bool) \<Rightarrow>
   'b boltdb \<Rightarrow> bool" where
  "db_ok B G cnt at d \<longleftrightarrow> bolt_laws B G cnt at \<and> db_wf cnt G d"

definition entry_fits :: "entry codec \<Rightarrow> string \<Rightarrow> entry \<Rightarrow> bool" where
  "entry_fits G k e \<longleftrightarrow> fits_bolt k (enc G e)"

text \<open>The pairs of a database in key order.\<close>

definition all_pairs :: "('b \<Rightarrow> (bytes \<times> bytes) list) \<Rightarrow> entry codec \<Rightarrow> 'b boltdb \<Rightarrow> pair list" where
  "all_pairs cnt G d =
     (case bdb d of None \<Rightarrow> []
      | Some b \<Rightarrow> map (\<lambda>kv. \<lparr>PairKey = fst kv, PairEntry = the (dec G (snd kv))\<rparr>) (cnt b))"

text \<open>A lawful parameter for the witnesses: finite maps, with the remaining pairs as a cursor.\<close>

definition head_option :: "'a list \<Rightarrow> 'a option" where
  "head_option xs = (case xs of [] \<Rightarrow> None | x # _ \<Rightarrow> Some x)"

definition fm_bolt :: "((bytes, bytes) fmap, (bytes \<times> bytes) list) bolt" where
  "fm_bolt =
     \<lparr>bk_get = fmlookup,
      bk_put = (\<lambda>b k v. if k = [] then Inl (DbLibrary ''key required'') else Inr (fmupd k v b)),
      bk_delete = (\<lambda>b k. Inr (fmdrop k b)),
      c_first = (\<lambda>b. (sorted_list_of_fmap b, head_option (sorted_list_of_fmap b))),
      c_seek = (\<lambda>b k. let xs = dropWhile (\<lambda>p. fst p < k) (sorted_list_of_fmap b) in (xs, head_option xs)),
      c_next = (\<lambda>b c. (tl c, head_option (tl c))),
      c_delete = (\<lambda>b c. Inr (fmdrop (fst (hd c)) b, c)),
      tx_write = enc count_codec,
      bk_open = (\<lambda>bs. Inr (the (dec count_codec bs))),
      bk_new = fmempty\<rparr>"

section \<open>Lemmas\<close>

lemma bolt_okD:
  assumes "bolt_ok B cnt at"
  shows bolt_sorted: "sorted (map fst (cnt b))" and bolt_distinct: "distinct (map fst (cnt b))"
    and bolt_get: "bk_get B b k = map_of (cnt b) k"
    and bolt_put: "fits_bolt k v \<Longrightarrow> \<exists>b'. bk_put B b k v = Inr b' \<and> map_of (cnt b') = (map_of (cnt b))(k \<mapsto> v)"
    and bolt_put_empty: "bk_put B b [] v = Inl (DbLibrary ''key required'')"
    and bolt_delete: "\<exists>b'. bk_delete B b k = Inr b' \<and> map_of (cnt b') = (map_of (cnt b))(k := None)"
    and bolt_first: "points at b (c_first B b) (cnt b)"
    and bolt_seek: "points at b (c_seek B b k) (dropWhile (\<lambda>p. fst p < k) (cnt b))"
    and bolt_next: "at b c (x # xs) \<Longrightarrow> points at b (c_next B b c) xs"
    and bolt_copy: "\<exists>b'. bk_open B (tx_write B b) = Inr b' \<and> cnt b' = cnt b"
    and bolt_new: "cnt (bk_new B) = []"
  using assms unfolding bolt_ok_def by blast+

lemma db_wfD: "db_wf cnt G d \<Longrightarrow> \<exists>b. bdb d = Some b \<and> (\<forall>kv \<in> set (cnt b). dec G (snd kv) \<noteq> None)"
  by (simp add: db_wf_def split: option.splits)

lemma decodable_map_of:
  "distinct (map fst xs) \<Longrightarrow> (\<forall>kv \<in> set xs. P (snd kv)) \<longleftrightarrow> (\<forall>k v. map_of xs k = Some v \<longrightarrow> P v)"
  by (auto simp: map_of_eq_Some_iff)

lemma db_wf_map:
  assumes "bolt_ok B cnt at"
  shows "db_wf cnt G d \<longleftrightarrow> (\<exists>b. bdb d = Some b \<and> (\<forall>k v. map_of (cnt b) k = Some v \<longrightarrow> dec G v \<noteq> None))"
  using decodable_map_of [OF bolt_distinct [OF assms], of _ "\<lambda>v. dec G v \<noteq> None"] by (auto simp: db_wf_def split: option.splits)

text \<open>The keys with a prefix are a segment of the sorted content, which starts where \<^verbatim>\<open>Seek\<close> goes.\<close>

lemma prefix_ge: "prefix p k \<Longrightarrow> p \<le> (k::string)"
  by (induction p arbitrary: k) (auto simp: prefix_def)

lemma prefix_convex:
  "p \<le> k \<Longrightarrow> k \<le> k' \<Longrightarrow> prefix p k' \<Longrightarrow> prefix p (k::string)"
proof (induction p arbitrary: k k')
  case (Cons x p)
  from Cons.prems(3) obtain t' where k': "k' = x # t'" "prefix p t'" by (cases k') auto
  from Cons.prems(1) obtain y t where k: "k = y # t" by (cases k) auto
  from Cons.prems k k' have "y = x" by auto
  with Cons k k' show ?case by auto
qed simp

lemma seek_prefix_segment:
  fixes xs :: "(string \<times> 'v) list"
  assumes "sorted (map fst xs)"
  shows "takeWhile (\<lambda>kv. prefix p (fst kv)) (dropWhile (\<lambda>kv. fst kv < p) xs) = filter (\<lambda>kv. prefix p (fst kv)) xs"
  using assms
proof (induction xs)
  case (Cons x xs)
  then have le: "fst x \<le> fst y" if "y \<in> set xs" for y using that by auto
  show ?case
  proof (cases "fst x < p")
    case True
    then have "\<not> prefix p (fst x)" using prefix_ge [of p "fst x"] by auto
    with True Cons show ?thesis by simp
  next
    case False
    then have p: "p \<le> fst x" by simp
    have "dropWhile (\<lambda>kv. fst kv < p) xs = xs" using p le by (cases xs) force+
    moreover have "filter (\<lambda>kv. prefix p (fst kv)) xs = []" if n: "\<not> prefix p (fst x)"
    proof (rule filter_False, rule ballI)
      fix y assume "y \<in> set xs"
      from prefix_convex [OF p le [OF this]] n show "\<not> prefix p (fst y)" by blast
    qed
    ultimately show ?thesis using False Cons by auto
  qed
qed simp

lemma points_Nil: "points at b cur [] \<longleftrightarrow> snd cur = None"
  and points_Cons: "points at b cur (x # xs) \<longleftrightarrow> snd cur = Some x \<and> at b (fst cur) (x # xs)"
  by (simp_all add: points_def)

lemma prefix_loop_points:
  assumes "bolt_ok B cnt at"
  shows "points at b cur xs \<Longrightarrow> prefix_loop B p b cur = Some (takeWhile (\<lambda>kv. prefix p (fst kv)) xs)"
proof (induction xs arbitrary: cur)
  case Nil
  then show ?case by (simp add: points_Nil prefix_loop.simps)
next
  case (Cons x xs)
  then have c: "snd cur = Some x" "at b (fst cur) (x # xs)" by (simp_all add: points_Cons)
  from bolt_next [OF assms c(2)] have "points at b (c_next B b (fst cur)) xs" .
  with Cons.IH c(1) show ?case by (simp add: prefix_loop.simps [of B p b cur])
qed

lemma view_prefix_eq:
  assumes "bolt_ok B cnt at" "bdb d = Some b"
  shows "view_prefix B d p f = Some (Inr (List.map_filter f (filter (\<lambda>kv. prefix p (fst kv)) (cnt b))))"
  using prefix_loop_points [OF assms(1) bolt_seek [OF assms(1)]] seek_prefix_segment [OF bolt_sorted [OF assms(1)]] assms(2)
  by (simp add: view_prefix_def)

lemma del_loop_points:
  assumes "bolt_ok B cnt at" "delete_keeps_place B cnt at"
  shows "points at b cur xs \<Longrightarrow>
    \<exists>b'. del_loop B p b cur = Some (Inr b') \<and>
      map_of (cnt b') = (\<lambda>k. if k \<in> fst ` set (takeWhile (\<lambda>kv. prefix p (fst kv)) xs) then None else map_of (cnt b) k)"
proof (induction xs arbitrary: b cur)
  case Nil
  then show ?case by (simp add: points_Nil del_loop.simps)
next
  case (Cons x xs)
  then have c: "snd cur = Some x" "at b (fst cur) (x # xs)" by (simp_all add: points_Cons)
  show ?case
  proof (cases "prefix p (fst x)")
    case False
    with c show ?thesis by (simp add: del_loop.simps)
  next
    case True
    from c(2) assms(2) obtain b1 c1 where d: "c_delete B b (fst cur) = Inr (b1, c1)"
      "map_of (cnt b1) = (map_of (cnt b))(fst x := None)" "points at b1 (c_next B b1 c1) xs"
      unfolding delete_keeps_place_def by blast
    from Cons.IH [OF d(3)] obtain b' where "del_loop B p b1 (c_next B b1 c1) = Some (Inr b')"
      "map_of (cnt b') = (\<lambda>k. if k \<in> fst ` set (takeWhile (\<lambda>kv. prefix p (fst kv)) xs) then None else map_of (cnt b1) k)"
      by blast
    with True c(1) d(1,2) show ?thesis by (auto simp: del_loop.simps [of B p b cur])
  qed
qed

lemma map_filter_pairs:
  assumes "\<forall>kv \<in> set xs. dec G (snd kv) \<noteq> None"
  shows "List.map_filter (\<lambda>kv. map_option (\<lambda>e. \<lparr>PairKey = fst kv, PairEntry = e\<rparr>) (dec G (snd kv))) xs
    = map (\<lambda>kv. \<lparr>PairKey = fst kv, PairEntry = the (dec G (snd kv))\<rparr>) xs"
  using assms by (induction xs) (auto simp: List.map_filter_def)

lemma boltdb_get_view: "db_ok B G cnt at d \<Longrightarrow> GetEntry B G d k = (case db_map cnt G d k of None \<Rightarrow> Inl DbNotFound | Some e \<Rightarrow> Inr e)"
  by (fastforce simp: GetEntry_def db_view_def db_map_def db_ok_def bolt_laws_def db_wf_map bolt_get split: option.splits)

lemma boltdb_put_view:
  assumes "db_ok B G cnt at d" "entry_fits G k e"
  shows "\<exists>d'. PutEntry B G d k e = (None, d') \<and> db_ok B G cnt at d' \<and> db_map cnt G d' = (db_map cnt G d)(k \<mapsto> e)"
proof -
  from assms have ok: "bolt_ok B cnt at" and G: "codec_ok G" by (simp_all add: db_ok_def bolt_laws_def)
  from assms(1) ok obtain b where b: "bdb d = Some b" "\<forall>k v. map_of (cnt b) k = Some v \<longrightarrow> dec G v \<noteq> None"
    by (auto simp: db_ok_def db_wf_map)
  from bolt_put [OF ok] assms(2) [unfolded entry_fits_def] obtain b' where b': "bk_put B b k (enc G e) = Inr b'"
    "map_of (cnt b') = (map_of (cnt b))(k \<mapsto> enc G e)" by blast
  have "db_wf cnt G (d\<lparr>bdb := Some b'\<rparr>)" using b(2) G by (auto simp: db_wf_map [OF ok] b'(2))
  moreover have "db_map cnt G (d\<lparr>bdb := Some b'\<rparr>) = (db_map cnt G d)(k \<mapsto> e)"
    using b(1) G by (auto simp: db_map_def b'(2))
  ultimately show ?thesis using b(1) b'(1) assms(1) by (simp add: PutEntry_def db_update_def db_ok_def)
qed

lemma boltdb_del_view:
  assumes "db_ok B G cnt at d"
  shows "\<exists>d'. boltdb_Del B d k = (None, d') \<and> db_ok B G cnt at d' \<and> db_map cnt G d' = (db_map cnt G d)(k := None)"
proof -
  from assms have ok: "bolt_ok B cnt at" by (simp add: db_ok_def bolt_laws_def)
  from assms ok obtain b where b: "bdb d = Some b" "\<forall>k v. map_of (cnt b) k = Some v \<longrightarrow> dec G v \<noteq> None"
    by (auto simp: db_ok_def db_wf_map)
  from bolt_delete [OF ok] obtain b' where b': "bk_delete B b k = Inr b'"
    "map_of (cnt b') = (map_of (cnt b))(k := None)" by blast
  have "db_wf cnt G (d\<lparr>bdb := Some b'\<rparr>)" using b(2) by (auto simp: db_wf_map [OF ok] b'(2))
  moreover have "db_map cnt G (d\<lparr>bdb := Some b'\<rparr>) = (db_map cnt G d)(k := None)"
    using b(1) by (auto simp: db_map_def b'(2))
  ultimately show ?thesis using b(1) b'(1) assms(1) by (simp add: boltdb_Del_def db_update_def db_ok_def)
qed

lemma boltdb_del_prefix_view:
  assumes "db_ok B G cnt at d"
  shows "\<exists>d'. boltdb_DelWithPrefix B d p = Some (None, d') \<and> db_ok B G cnt at d' \<and>
    db_map cnt G d' = (\<lambda>k. if prefix p k then None else db_map cnt G d k)"
proof -
  from assms have ok: "bolt_ok B cnt at" and dk: "delete_keeps_place B cnt at" by (simp_all add: db_ok_def bolt_laws_def)
  from assms ok obtain b where b: "bdb d = Some b" "\<forall>k v. map_of (cnt b) k = Some v \<longrightarrow> dec G v \<noteq> None"
    by (auto simp: db_ok_def db_wf_map)
  from del_loop_points [OF ok dk bolt_seek [OF ok, of b p], of p] obtain b' where
    l: "del_loop B p b (c_seek B b p) = Some (Inr b')" and
    m0: "map_of (cnt b') = (\<lambda>k. if k \<in> fst ` set (filter (\<lambda>kv. prefix p (fst kv)) (cnt b)) then None else map_of (cnt b) k)"
    by (auto simp: seek_prefix_segment [OF bolt_sorted [OF ok]])
  have m: "map_of (cnt b') k = (if prefix p k then None else map_of (cnt b) k)" for k
    by (cases "map_of (cnt b) k") (auto simp: m0 map_of_eq_None_iff dest: map_of_SomeD intro: rev_image_eqI)
  have "db_wf cnt G (d\<lparr>bdb := Some b'\<rparr>)" using b(2) by (auto simp: db_wf_map [OF ok] m)
  moreover have "db_map cnt G (d\<lparr>bdb := Some b'\<rparr>) = (\<lambda>k. if prefix p k then None else db_map cnt G d k)"
    using b(1) by (auto simp: db_map_def m)
  ultimately show ?thesis using b(1) l assms by (simp add: boltdb_DelWithPrefix_def db_update_def db_ok_def)
qed

lemma boltdb_pairs_view:
  assumes "db_ok B G cnt at d"
  shows "\<exists>ps. GetPairsWithPrefix B G d p = Some (Inr ps) \<and> sorted (map PairKey ps) \<and> distinct (map PairKey ps) \<and>
      (\<forall>k e. \<lparr>PairKey = k, PairEntry = e\<rparr> \<in> set ps \<longleftrightarrow> prefix p k \<and> db_map cnt G d k = Some e)"
proof -
  from assms have ok: "bolt_ok B cnt at" by (simp add: db_ok_def bolt_laws_def)
  from assms have "db_wf cnt G d" by (simp add: db_ok_def)
  from db_wfD [OF this] obtain b where b: "bdb d = Some b" "\<forall>kv \<in> set (cnt b). dec G (snd kv) \<noteq> None" by blast
  let ?xs = "filter (\<lambda>kv. prefix p (fst kv)) (cnt b)"
  let ?ps = "map (\<lambda>kv. \<lparr>PairKey = fst kv, PairEntry = the (dec G (snd kv))\<rparr>) ?xs"
  have eq: "GetPairsWithPrefix B G d p = Some (Inr ?ps)"
    unfolding GetPairsWithPrefix_def view_prefix_eq [OF ok b(1)] by (subst map_filter_pairs) (use b(2) in auto)
  have ks: "map PairKey ?ps = filter (prefix p) (map fst (cnt b))" by (simp add: filter_map comp_def)
  have "sorted (map PairKey ?ps)" "distinct (map PairKey ?ps)"
    unfolding ks using bolt_sorted [OF ok] bolt_distinct [OF ok] by (simp_all add: sorted_wrt_filter)
  moreover have "\<lparr>PairKey = k, PairEntry = e\<rparr> \<in> set ?ps \<longleftrightarrow> prefix p k \<and> db_map cnt G d k = Some e" for k e
    using b bolt_distinct [OF ok, of b]
    by (force simp: db_map_def bind_eq_Some_conv map_of_eq_Some_iff)
  ultimately show ?thesis using eq by blast
qed

lemma boltdb_snapshot_view:
  assumes "db_ok B G cnt at d" "db_ok B G cnt at d0"
  shows "\<exists>bs d'. SnapshotData B d = Inr bs \<and> InstallSnapshotData B d0 bs = (None, d') \<and> db_ok B G cnt at d' \<and>
    db_map cnt G d' = db_map cnt G d"
proof -
  from assms have ok: "bolt_ok B cnt at" by (simp add: db_ok_def bolt_laws_def)
  from assms have "db_wf cnt G d" by (simp add: db_ok_def)
  from db_wfD [OF this] obtain b where b: "bdb d = Some b" "\<forall>kv \<in> set (cnt b). dec G (snd kv) \<noteq> None" by blast
  from bolt_copy [OF ok] obtain b' where "bk_open B (tx_write B b) = Inr b'" "cnt b' = cnt b" by blast
  with b assms show ?thesis
    by (auto simp: SnapshotData_def db_view_def InstallSnapshotData_def db_ok_def db_wf_def db_map_def fun_eq_iff)
qed

section \<open>BoltDB provides the interface\<close>

interpretation bdb: kv_store "bolt_ops B G path" "db_map cnt G" "db_ok B G cnt at" "entry_fits G"
  for B :: "('b, 'c) bolt" and G path cnt at
proof unfold_locales
  fix d :: "'b boltdb" and e
  assume "db_ok B G cnt at d"
  then show "\<exists>err. op_PutEntry (bolt_ops B G path) d [] e = (Some err, d)"
    by (auto simp: bolt_ops_def PutEntry_def db_update_def db_ok_def bolt_laws_def bolt_put_empty dest!: db_wfD)
qed (simp_all add: bolt_ops_def boltdb_get_view boltdb_put_view boltdb_del_view boltdb_del_prefix_view
    boltdb_pairs_view boltdb_snapshot_view [simplified])

section \<open>Paging\<close>

lemma skip_loop_points:
  assumes "bolt_ok B cnt at"
  shows "points at b cur xs \<Longrightarrow> points at b (skip_loop B b n cur) (drop n xs)"
proof (induction n arbitrary: cur xs)
  case (Suc n)
  show ?case
  proof (cases xs)
    case Nil
    with Suc.prems show ?thesis by (simp add: points_Nil)
  next
    case (Cons x ys)
    with Suc.prems have c: "snd cur = Some x" "at b (fst cur) (x # ys)" by (simp_all add: points_Cons)
    from Suc.IH [OF bolt_next [OF assms c(2)]] c(1) Cons show ?thesis by simp
  qed
qed simp

lemma page_loop_points:
  assumes "bolt_ok B cnt at"
  shows "points at b cur xs \<Longrightarrow> \<forall>kv \<in> set xs. dec G (snd kv) \<noteq> None \<Longrightarrow>
    page_loop B G b ps c cur = Some (map (\<lambda>kv. \<lparr>PairKey = fst kv, PairEntry = the (dec G (snd kv))\<rparr>) (take (nat (ps - c)) xs))"
proof (induction xs arbitrary: cur c)
  case Nil
  then show ?case by (simp add: points_Nil page_loop.simps)
next
  case (Cons x xs)
  then have c: "snd cur = Some x" "at b (fst cur) (x # xs)" by (simp_all add: points_Cons)
  show ?case
  proof (cases "c < ps")
    case False
    with c show ?thesis by (simp add: page_loop.simps)
  next
    case True
    then have n: "nat (ps - c) = Suc (nat (ps - (c + 1)))" by simp
    from Cons.IH [OF bolt_next [OF assms c(2)], of "c + 1"] Cons.prems(2) c(1) True show ?thesis
      by (auto simp: page_loop.simps [of B G b ps c cur] n)
  qed
qed

lemma map_fst_sorted_list_of_fmap: "map fst (sorted_list_of_fmap m) = sorted_list_of_fset (fmdom m)"
  by (simp add: sorted_list_of_fmap_def comp_def)

lemma points_head [simp]: "points (\<lambda>b c xs. c = xs) b (xs, head_option xs) xs"
  by (cases xs) (auto simp: points_def head_option_def)

lemma fm_bolt_laws: "codec_ok G \<Longrightarrow> bolt_laws fm_bolt G sorted_list_of_fmap (\<lambda>b c xs. c = xs)"
proof -
  assume G: "codec_ok G"
  have fs: "sorted (map fst (sorted_list_of_fmap b)) \<and> distinct (map fst (sorted_list_of_fmap b))" for b :: "(bytes, bytes) fmap"
    by (simp add: map_fst_sorted_list_of_fmap sorted_list_of_fset.rep_eq)
  have em: "sorted_list_of_fmap (fmempty :: (bytes, bytes) fmap) = []"
    by (simp add: sorted_list_of_fmap_def sorted_list_of_fset.rep_eq)
  have op: "\<exists>b'. bk_open fm_bolt (tx_write fm_bolt b) = Inr b' \<and> sorted_list_of_fmap b' = sorted_list_of_fmap b" for b
    by (simp add: fm_bolt_def)
  have "bolt_ok fm_bolt sorted_list_of_fmap (\<lambda>b c xs. c = xs)"
    unfolding bolt_ok_def
    by (intro conjI allI op; (use fs in blast)?)
      (auto simp: fm_bolt_def fits_bolt_def Let_def em fun_eq_iff)
  moreover have "delete_keeps_place fm_bolt sorted_list_of_fmap (\<lambda>b c xs. c = xs)"
    by (auto simp: delete_keeps_place_def fm_bolt_def)
  ultimately show ?thesis using G by (simp add: bolt_laws_def)
qed

lemma fm_new_ok: "codec_ok G \<Longrightarrow> db_ok fm_bolt G sorted_list_of_fmap (\<lambda>b c xs. c = xs) (NewDB fm_bolt path)"
  using fm_bolt_laws [of G] bolt_new [of fm_bolt sorted_list_of_fmap] by (auto simp: db_ok_def db_wf_def NewDB_def bolt_laws_def)

section \<open>Properties\<close>

text \<open>
  The store returns what was written: a \<^verbatim>\<open>PutEntry\<close> of a key and an entry that bbolt accepts
  succeeds, afterwards \<^verbatim>\<open>GetEntry\<close> returns the entry for that key and is unchanged for every other key,
  and the database is still well formed.
\<close>

theorem put_then_get:
  assumes "db_ok B G cnt at d" "entry_fits G k e" "PutEntry B G d k e = (err, d')"
  shows "err = None \<and> db_ok B G cnt at d' \<and> (\<forall>k'. GetEntry B G d' k' = (if k' = k then Inr e else GetEntry B G d k'))"
proof -
  from bdb.put [OF assms(1,2), of undefined] assms(3) have "err = None" "db_ok B G cnt at d'" by (auto simp: bolt_ops_def)
  moreover from bdb.get_after_put [OF assms(1,2), of undefined err d'] assms(3)
  have "GetEntry B G d' k' = (if k' = k then Inr e else GetEntry B G d k')" for k' by (simp add: bolt_ops_def)
  ultimately show ?thesis by simp
qed

theorem put_then_get_witness:
  "\<exists>d'. PutEntry fm_bolt (pin_codec [zero_entry]) (NewDB fm_bolt ''p'') ''k'' zero_entry = (None, d') \<and>
     GetEntry fm_bolt (pin_codec [zero_entry]) d' ''k'' = Inr zero_entry"
proof -
  let ?G = "pin_codec [zero_entry]" and ?d = "NewDB fm_bolt ''p''"
  obtain err d' where p: "PutEntry fm_bolt ?G ?d ''k'' zero_entry = (err, d')" by (rule prod.exhaust)
  have ok: "db_ok fm_bolt ?G sorted_list_of_fmap (\<lambda>b c xs. c = xs) ?d" by (rule fm_new_ok) simp
  have "entry_fits ?G ''k'' zero_entry" by (simp add: entry_fits_def fits_bolt_def pin_codec_def)
  from put_then_get [OF ok this p] p show ?thesis by auto
qed



text \<open>
  Paging is exact: with a positive page size, page \<open>i\<close> of \<^verbatim>\<open>KVs\<close> is the \<open>i\<close>-th block of the pairs of
  the database in key order (so the pages partition it), and the code returns for every page.
\<close>

theorem kvs_pages:
  assumes "db_ok B G cnt at d" "0 \<le> pageSize" "0 \<le> pageIndex"
  shows "KVs B G d pageSize pageIndex =
    Inr (Some (Inr (take (nat pageSize) (drop (nat pageIndex * nat pageSize) (all_pairs cnt G d)))))"
proof -
  from assms(1) have ok: "bolt_ok B cnt at" and "db_wf cnt G d" by (simp_all add: db_ok_def bolt_laws_def)
  from db_wfD [OF this(2)] obtain b where b: "bdb d = Some b" "\<forall>kv \<in> set (cnt b). dec G (snd kv) \<noteq> None" by blast
  let ?n = "nat (pageIndex * pageSize)"
  have n: "?n = nat pageIndex * nat pageSize" using assms(3) by (simp add: nat_mult_distrib)
  have "\<forall>kv \<in> set (drop ?n (cnt b)). dec G (snd kv) \<noteq> None" using b(2) in_set_dropD by fast
  from page_loop_points [OF ok skip_loop_points [OF ok bolt_first [OF ok]] this, of pageSize 0] b(1) assms(2) n
  show ?thesis by (simp add: KVs_def all_pairs_def drop_map take_map)
qed

theorem kvs_pages_witness:
  "KVs fm_bolt count_codec (NewDB fm_bolt ''p'') 2 1 = Inr (Some (Inr []))"
  using kvs_pages [OF fm_new_ok [of count_codec "''p''"], of 2 1]
  by (simp add: all_pairs_def NewDB_def fm_bolt_def sorted_list_of_fmap_def sorted_list_of_fset.rep_eq)

text \<open>
  A snapshot transfers the whole store: installing the bytes of \<^verbatim>\<open>SnapshotData\<close> in any other
  database gives the same entry for every key.
\<close>

theorem snapshot_install_roundtrip:
  assumes "db_ok B G cnt at d" "db_ok B G cnt at d0"
  shows "\<exists>bs d'. SnapshotData B d = Inr bs \<and> InstallSnapshotData B d0 bs = (None, d') \<and> db_ok B G cnt at d' \<and>
    (\<forall>k. GetEntry B G d' k = GetEntry B G d k)"
  using boltdb_snapshot_view [OF assms] assms(1) by (auto simp: boltdb_get_view)

theorem snapshot_install_roundtrip_witness:
  "\<exists>bs d'. SnapshotData fm_bolt (NewDB fm_bolt ''p'') = Inr bs \<and> InstallSnapshotData fm_bolt (NewDB fm_bolt ''q'') bs = (None, d') \<and>
    (\<forall>k. GetEntry fm_bolt count_codec d' k = GetEntry fm_bolt count_codec (NewDB fm_bolt ''p'') k)"
  using snapshot_install_roundtrip [OF fm_new_ok [of count_codec "''p''"] fm_new_ok [of count_codec "''q''"]] by auto

end
