(* ===== verification/Lease.thy ===== *)
theory Lease
  imports Types
begin

text \<open>
  Leases: the manager of \<^verbatim>\<open>src/pkg/lease/manager.go\<close>, its background goroutine, and the RPC handlers of
  \<^verbatim>\<open>src/kvraft/lease_service.go\<close> that only touch the manager. Times and durations are nanoseconds; the
  clock is an argument. An operation that waits for the manager's lock or for its goroutine while the
  goroutine is blocked never returns: it yields \<open>Deadlock\<close>.
\<close>

section \<open>Definitions\<close>

definition Second :: int where "Second = 1000000000"

definition Millisecond :: int where "Millisecond = 1000000"

text \<open>\<^verbatim>\<open>Lease\<close>; the key set of a Go map has no order, the list stands for any.\<close>

record lease =
  LeaseID :: int
  TTL :: int
  ExpiresAt :: int
  LeaseKeys :: "string list"

text \<open>
  \<^verbatim>\<open>LeaseManager\<close>. \<open>stuck\<close>: the goroutine \<^verbatim>\<open>run\<close> is blocked in \<^verbatim>\<open>checkExpirations\<close>, which sends on the
  unbuffered \<^verbatim>\<open>revokeC\<close> that only \<^verbatim>\<open>run\<close> itself receives from, and holds the lock. \<open>stopped\<close>: \<^verbatim>\<open>run\<close> has ended.
\<close>

record lease_mgr =
  leases :: "(int, lease) fmap"
  nextLeaseID :: int
  minLeaseTTL :: int
  stuck :: bool
  stopped :: bool

definition NewLeaseManager :: "int \<Rightarrow> lease_mgr" where
  "NewLeaseManager minTTL =
     \<lparr>leases = fmempty, nextLeaseID = 1, minLeaseTTL = minTTL, stuck = False, stopped = False\<rparr>"

text \<open>Taking the manager's lock (for reading or writing) blocks for ever once \<^verbatim>\<open>run\<close> is stuck.\<close>

definition with_lock :: "lease_mgr \<Rightarrow> 'a \<Rightarrow> 'a res" where
  "with_lock lm x = (if stuck lm then Inl Deadlock else Inr x)"

definition Grant :: "int \<Rightarrow> int \<Rightarrow> lease_mgr \<Rightarrow> (lease \<times> lease_mgr) res" where
  "Grant now ttl0 lm = with_lock lm
     (let ttl = (if ttl0 < minLeaseTTL lm then minLeaseTTL lm else ttl0);
          l = \<lparr>LeaseID = nextLeaseID lm, TTL = ttl, ExpiresAt = now + ttl, LeaseKeys = []\<rparr>
      in (l, lm\<lparr>leases := fmupd (LeaseID l) l (leases lm), nextLeaseID := nextLeaseID lm + 1\<rparr>))"

definition revokeLease :: "int \<Rightarrow> lease_mgr \<Rightarrow> lease_mgr" where
  "revokeLease i lm =
     (case fmlookup (leases lm) i of None \<Rightarrow> lm | Some _ \<Rightarrow> lm\<lparr>leases := fmdrop i (leases lm)\<rparr>)"

text \<open>\<^verbatim>\<open>Revoke\<close> hands the identifier to \<^verbatim>\<open>run\<close>, which then calls \<^verbatim>\<open>revokeLease\<close>.\<close>

definition Revoke :: "int \<Rightarrow> lease_mgr \<Rightarrow> lease_mgr res" where
  "Revoke i lm = (if stuck lm \<or> stopped lm then Inl Deadlock else Inr (revokeLease i lm))"

definition KeepAlive :: "int \<Rightarrow> int \<Rightarrow> lease_mgr \<Rightarrow> (lease option \<times> lease_mgr) res" where
  "KeepAlive now i lm = with_lock lm
     (case fmlookup (leases lm) i of
        None \<Rightarrow> (None, lm)
      | Some l \<Rightarrow> let l' = l\<lparr>ExpiresAt := now + TTL l\<rparr> in (Some l', lm\<lparr>leases := fmupd i l' (leases lm)\<rparr>))"

definition AttachKey :: "int \<Rightarrow> string \<Rightarrow> lease_mgr \<Rightarrow> lease_mgr res" where
  "AttachKey i k lm = with_lock lm
     (case fmlookup (leases lm) i of
        None \<Rightarrow> lm
      | Some l \<Rightarrow> lm\<lparr>leases := fmupd i (l\<lparr>LeaseKeys := List.insert k (LeaseKeys l)\<rparr>) (leases lm)\<rparr>)"

definition DetachKey :: "int \<Rightarrow> string \<Rightarrow> lease_mgr \<Rightarrow> lease_mgr res" where
  "DetachKey i k lm = with_lock lm
     (case fmlookup (leases lm) i of
        None \<Rightarrow> lm
      | Some l \<Rightarrow> lm\<lparr>leases := fmupd i (l\<lparr>LeaseKeys := removeAll k (LeaseKeys l)\<rparr>) (leases lm)\<rparr>)"

definition expired_at :: "int \<Rightarrow> lease \<Rightarrow> bool" where
  "expired_at now l = (now > ExpiresAt l)"

definition lease_ids :: "lease_mgr \<Rightarrow> int list" where
  "lease_ids lm = sorted_list_of_fset (fmdom (leases lm))"

definition expired_ids :: "int \<Rightarrow> lease_mgr \<Rightarrow> int list" where
  "expired_ids now lm =
     filter (\<lambda>i. case fmlookup (leases lm) i of None \<Rightarrow> False | Some l \<Rightarrow> expired_at now l) (lease_ids lm)"

text \<open>\<^verbatim>\<open>checkExpirations\<close>, one tick of \<^verbatim>\<open>run\<close>: the first expired lease blocks the goroutine.\<close>

definition checkExpirations :: "int \<Rightarrow> lease_mgr \<Rightarrow> lease_mgr" where
  "checkExpirations now lm =
     (if stuck lm \<or> stopped lm \<or> expired_ids now lm = [] then lm else lm\<lparr>stuck := True\<rparr>)"

definition ExpiredLeases :: "int \<Rightarrow> lease_mgr \<Rightarrow> int list res" where
  "ExpiredLeases now lm = with_lock lm (expired_ids now lm)"

definition lease_Stop :: "lease_mgr \<Rightarrow> lease_mgr res" where
  "lease_Stop lm = (if stuck lm then Inl Deadlock else Inr (lm\<lparr>stopped := True\<rparr>))"

definition GetLease :: "int \<Rightarrow> lease_mgr \<Rightarrow> lease option res" where
  "GetLease i lm = with_lock lm (fmlookup (leases lm) i)"

definition GetLeaseKeys :: "int \<Rightarrow> lease_mgr \<Rightarrow> string list res" where
  "GetLeaseKeys i lm = with_lock lm
     (case fmlookup (leases lm) i of None \<Rightarrow> [] | Some l \<Rightarrow> LeaseKeys l)"

subsection \<open>The lease service\<close>

record lease_reply =
  lrID :: int
  lrTTLMs :: int
  lrKeys :: "string list"

text \<open>\<^verbatim>\<open>time.Duration(ms) * time.Millisecond\<close> wraps at 64 bits.\<close>

definition duration_ms :: "int \<Rightarrow> int" where
  "duration_ms ms = sint (of_int (ms * Millisecond) :: 64 word)"

definition LeaseGrant :: "int \<Rightarrow> int \<Rightarrow> lease_mgr \<Rightarrow> (lease_reply \<times> lease_mgr) res" where
  "LeaseGrant now ttlMs lm =
     res_bind (Grant now (duration_ms ttlMs) lm) (\<lambda>(l, lm').
       Inr (\<lparr>lrID = LeaseID l, lrTTLMs = TTL l div Millisecond, lrKeys = []\<rparr>, lm'))"

text \<open>What is left of a lease at time \<open>now\<close>, in milliseconds.\<close>

definition remaining_ms :: "int \<Rightarrow> lease \<Rightarrow> int" where
  "remaining_ms now l = (let r = ExpiresAt l - now in if r < 0 then 0 else r div Millisecond)"

text \<open>One request of the \<^verbatim>\<open>LeaseKeepAlive\<close> stream; \<open>now'\<close> is the clock when the reply is built.\<close>

definition LeaseKeepAlive :: "int \<Rightarrow> int \<Rightarrow> int \<Rightarrow> lease_mgr \<Rightarrow> (lease_reply \<times> lease_mgr) res" where
  "LeaseKeepAlive now now' i lm =
     res_bind (KeepAlive now i lm) (\<lambda>(r, lm').
       Inr (case r of
              None \<Rightarrow> \<lparr>lrID = i, lrTTLMs = 0, lrKeys = []\<rparr>
            | Some l \<Rightarrow> \<lparr>lrID = LeaseID l, lrTTLMs = remaining_ms now' l, lrKeys = []\<rparr>, lm'))"

definition LeaseTimeToLive :: "int \<Rightarrow> int \<Rightarrow> bool \<Rightarrow> lease_mgr \<Rightarrow> lease_reply res" where
  "LeaseTimeToLive now i wantKeys lm =
     res_bind (GetLease i lm) (\<lambda>r.
       case r of
         None \<Rightarrow> Inr \<lparr>lrID = i, lrTTLMs = 0, lrKeys = []\<rparr>
       | Some l \<Rightarrow>
           res_bind (if wantKeys then GetLeaseKeys (LeaseID l) lm else Inr []) (\<lambda>ks.
             Inr \<lparr>lrID = LeaseID l, lrTTLMs = remaining_ms now l, lrKeys = ks\<rparr>))"

subsection \<open>Steps\<close>

text \<open>
  Everything that changes the manager. The invariant: identifiers are positive, below the next one
  and stored under themselves, no lease is shorter than the minimum, and a key set has no repetition.
\<close>

inductive lease_step :: "lease_mgr \<Rightarrow> lease_mgr \<Rightarrow> bool" where
  grant: "Grant now ttl lm = Inr (l, lm') \<Longrightarrow> lease_step lm lm'"
| revoke: "Revoke i lm = Inr lm' \<Longrightarrow> lease_step lm lm'"
| keep_alive: "KeepAlive now i lm = Inr (r, lm') \<Longrightarrow> lease_step lm lm'"
| attach: "AttachKey i k lm = Inr lm' \<Longrightarrow> lease_step lm lm'"
| detach: "DetachKey i k lm = Inr lm' \<Longrightarrow> lease_step lm lm'"
| tick: "lease_step lm (checkExpirations now lm)"
| stop: "lease_Stop lm = Inr lm' \<Longrightarrow> lease_step lm lm'"

definition lease_inv :: "lease_mgr \<Rightarrow> bool" where
  "lease_inv lm \<longleftrightarrow>
     (\<forall>i l. fmlookup (leases lm) i = Some l \<longrightarrow>
        LeaseID l = i \<and> 1 \<le> i \<and> i < nextLeaseID lm \<and> minLeaseTTL lm \<le> TTL l \<and> distinct (LeaseKeys l))"

text \<open>A manager with one lease, for the witnesses.\<close>

definition demo_lm :: lease_mgr where
  "demo_lm = (NewLeaseManager 1)\<lparr>leases := fmupd 1 \<lparr>LeaseID = 1, TTL = 1, ExpiresAt = 2, LeaseKeys = []\<rparr> fmempty\<rparr>"

section \<open>Lemmas\<close>

lemma with_lock_Inr_iff [res_simps]: "with_lock lm x = Inr y \<longleftrightarrow> \<not> stuck lm \<and> y = x"
  by (auto simp: with_lock_def)

lemma lease_step_inv: "lease_step lm lm' \<Longrightarrow> lease_inv lm \<Longrightarrow> 1 \<le> nextLeaseID lm \<Longrightarrow> lease_inv lm' \<and> nextLeaseID lm \<le> nextLeaseID lm'"
proof (induction rule: lease_step.induct)
  case (grant now ttl lm l lm')
  then show ?case by (force simp: Grant_def lease_inv_def res_simps Let_def split: if_splits)
next
  case (revoke i lm lm')
  then show ?case by (auto simp: Revoke_def revokeLease_def lease_inv_def split: if_splits option.splits)
next
  case (keep_alive now i lm r lm')
  then show ?case by (auto simp: KeepAlive_def lease_inv_def res_simps Let_def split: option.splits if_splits)
next
  case (attach i k lm lm')
  then show ?case by (auto simp: AttachKey_def lease_inv_def res_simps split: option.splits if_splits)
next
  case (detach i k lm lm')
  then show ?case by (auto simp: DetachKey_def lease_inv_def res_simps distinct_removeAll split: option.splits if_splits)
qed (auto simp: checkExpirations_def lease_Stop_def lease_inv_def split: if_splits)

lemma lease_steps_inv:
  "lease_step\<^sup>*\<^sup>* lm lm' \<Longrightarrow> lease_inv lm \<Longrightarrow> 1 \<le> nextLeaseID lm \<Longrightarrow> lease_inv lm' \<and> nextLeaseID lm \<le> nextLeaseID lm'"
  by (induction rule: rtranclp_induct) (use lease_step_inv order_trans in \<open>blast+\<close>)

lemma lease_step_min: "lease_step lm lm' \<Longrightarrow> minLeaseTTL lm' = minLeaseTTL lm"
  by (induction rule: lease_step.induct)
    (auto simp: Grant_def Revoke_def revokeLease_def KeepAlive_def AttachKey_def DetachKey_def checkExpirations_def
      lease_Stop_def Let_def res_simps split: if_splits option.splits)

lemma lease_steps_min: "lease_step\<^sup>*\<^sup>* lm lm' \<Longrightarrow> minLeaseTTL lm' = minLeaseTTL lm"
  by (induction rule: rtranclp_induct) (simp_all add: lease_step_min)

lemma stuck_step: "lease_step lm lm' \<Longrightarrow> stuck lm \<Longrightarrow> lm' = lm"
  by (induction rule: lease_step.induct)
    (auto simp: Grant_def Revoke_def KeepAlive_def AttachKey_def DetachKey_def with_lock_def checkExpirations_def lease_Stop_def)

lemma stuck_steps: "lease_step\<^sup>*\<^sup>* lm lm' \<Longrightarrow> stuck lm \<Longrightarrow> lm' = lm"
  by (induction rule: rtranclp_induct) (use stuck_step in auto)

section \<open>Properties\<close>

text \<open>
  Lease identifiers are never reused: in every state reachable from a new manager, a granted lease
  gets an identifier no live lease has, at least the minimum duration, and no keys; the leases granted
  before are untouched, and the invariant of the manager holds.
\<close>

theorem lease_grant_fresh:
  assumes "lease_step\<^sup>*\<^sup>* (NewLeaseManager m) lm" "Grant now ttl lm = Inr (l, lm')"
  shows "fmlookup (leases lm) (LeaseID l) = None \<and> fmlookup (leases lm') (LeaseID l) = Some l \<and>
    now + m \<le> ExpiresAt l \<and> LeaseKeys l = [] \<and>
    (\<forall>i. i \<noteq> LeaseID l \<longrightarrow> fmlookup (leases lm') i = fmlookup (leases lm) i) \<and> lease_inv lm'"
proof -
  have "lease_inv (NewLeaseManager m)" "nextLeaseID (NewLeaseManager m) = 1" by (simp_all add: NewLeaseManager_def lease_inv_def)
  with lease_steps_inv [OF assms(1)] have i: "lease_inv lm" "1 \<le> nextLeaseID lm" by simp_all
  have m: "minLeaseTTL lm = m" using lease_steps_min [OF assms(1)] by (simp add: NewLeaseManager_def)
  from assms(2) have l: "LeaseID l = nextLeaseID lm" "m \<le> TTL l" "ExpiresAt l = now + TTL l" "LeaseKeys l = []"
    "lm' = lm\<lparr>leases := fmupd (LeaseID l) l (leases lm), nextLeaseID := nextLeaseID lm + 1\<rparr>"
    using m by (auto simp: Grant_def res_simps Let_def)
  moreover have "lease_inv lm'" using lease_step_inv [OF lease_step.grant [OF assms(2)] i] by simp
  moreover have "fmlookup (leases lm) (nextLeaseID lm) = None"
    using i(1) by (cases "fmlookup (leases lm) (nextLeaseID lm)") (auto simp: lease_inv_def)
  ultimately show ?thesis by auto
qed

theorem lease_grant_fresh_witness:
  "\<exists>l lm'. Grant 5 Second (NewLeaseManager Second) = Inr (l, lm') \<and> fmlookup (leases lm') (LeaseID l) = Some l \<and>
     5 + Second \<le> ExpiresAt l"
proof -
  have g: "Grant 5 Second (NewLeaseManager Second) =
    Inr (\<lparr>LeaseID = 1, TTL = Second, ExpiresAt = 5 + Second, LeaseKeys = []\<rparr>,
      (NewLeaseManager Second)\<lparr>leases := fmupd 1 \<lparr>LeaseID = 1, TTL = Second, ExpiresAt = 5 + Second, LeaseKeys = []\<rparr> fmempty, nextLeaseID := 2\<rparr>)"
    by (simp add: Grant_def NewLeaseManager_def with_lock_def Let_def)
  from lease_grant_fresh [OF rtranclp.rtrancl_refl g] g show ?thesis by auto
qed

text \<open>
  Keys follow their lease: after \<^verbatim>\<open>AttachKey\<close> (\<^verbatim>\<open>DetachKey\<close>) of a live lease, \<^verbatim>\<open>GetLeaseKeys\<close> returns the
  old keys with the key added (removed), every other lease keeps its keys, and a renewal keeps them too.
\<close>

theorem lease_keys_follow:
  assumes "\<not> stuck lm" "fmlookup (leases lm) i = Some l"
  shows "\<exists>lm1 lm2 lm3 r ks1 ks2.
    AttachKey i k lm = Inr lm1 \<and> DetachKey i k lm = Inr lm2 \<and> KeepAlive now i lm = Inr (r, lm3) \<and>
    GetLeaseKeys i lm1 = Inr ks1 \<and> set ks1 = insert k (set (LeaseKeys l)) \<and>
    GetLeaseKeys i lm2 = Inr ks2 \<and> set ks2 = set (LeaseKeys l) - {k} \<and>
    GetLeaseKeys i lm3 = Inr (LeaseKeys l) \<and> map_option ExpiresAt r = Some (now + TTL l) \<and>
    (\<forall>j. j \<noteq> i \<longrightarrow> GetLeaseKeys j lm1 = GetLeaseKeys j lm \<and> GetLeaseKeys j lm2 = GetLeaseKeys j lm \<and>
      GetLeaseKeys j lm3 = GetLeaseKeys j lm)"
  using assms by (simp add: AttachKey_def DetachKey_def KeepAlive_def GetLeaseKeys_def with_lock_def Let_def)

theorem lease_keys_follow_witness:
  "\<exists>lm1 ks1. AttachKey 1 ''k'' demo_lm = Inr lm1 \<and>
     GetLeaseKeys 1 lm1 = Inr ks1 \<and> set ks1 = {''k''}"
  using lease_keys_follow [of demo_lm 1 _ "''k''" 0] by (fastforce simp: demo_lm_def NewLeaseManager_def)



end
