(* ===== verification/Watch.thy ===== *)
theory Watch
  imports Types
begin

text \<open>
  Watches: \<^verbatim>\<open>WatcherManager\<close> of \<^verbatim>\<open>src/kvraft/server.go\<close>, with the buffered channel of each watcher. A
  channel is a number; \<open>chans\<close> holds what is buffered in it and not yet received. The order in which Go
  iterates over its maps is unspecified; the order of the keys stands for any.
\<close>

section \<open>Definitions\<close>

datatype event_type = PutEvent | DeleteEvent

record watch_event =
  EvType :: event_type
  EvKey :: string
  EvValue :: bytes

record watcher =
  watch_id :: int
  watch_key :: string
  isPrefix :: bool
  eventChan :: nat

type_synonym watchers = "(string, (int, watcher) fmap) fmap"

record watch_mgr =
  nextWatcherID :: int
  exactWatchers :: watchers
  prefixWatchers :: watchers
  chans :: "nat \<Rightarrow> watch_event list"

definition NewWatcherManager :: watch_mgr where
  "NewWatcherManager =
     \<lparr>nextWatcherID = 1, exactWatchers = fmempty, prefixWatchers = fmempty, chans = (\<lambda>_. [])\<rparr>"

text \<open>The capacity of the channel \<^verbatim>\<open>Watch\<close> makes for a client.\<close>

definition watch_cap :: nat where "watch_cap = 10"

text \<open>Adding to, and removing from, the watchers of a key; an empty entry is deleted.\<close>

definition add_watcher :: "watcher \<Rightarrow> watchers \<Rightarrow> watchers" where
  "add_watcher w ws =
     (let m = (case fmlookup ws (watch_key w) of None \<Rightarrow> fmempty | Some m \<Rightarrow> m)
      in fmupd (watch_key w) (fmupd (watch_id w) w m) ws)"

definition del_watcher :: "int \<Rightarrow> string \<Rightarrow> watchers \<Rightarrow> watchers" where
  "del_watcher i k ws =
     (case fmlookup ws k of
        None \<Rightarrow> ws
      | Some m \<Rightarrow>
          if fmlookup m i = None then ws
          else let m' = fmdrop i m in if m' = fmempty then fmdrop k ws else fmupd k m' ws)"

definition Register :: "string \<Rightarrow> bool \<Rightarrow> nat \<Rightarrow> watch_mgr \<Rightarrow> int \<times> watch_mgr" where
  "Register key isP c wm =
     (let i = nextWatcherID wm; w = \<lparr>watch_id = i, watch_key = key, isPrefix = isP, eventChan = c\<rparr>;
          wm1 = wm\<lparr>nextWatcherID := i + 1\<rparr>
      in (i, if isP then wm1\<lparr>prefixWatchers := add_watcher w (prefixWatchers wm1)\<rparr>
             else wm1\<lparr>exactWatchers := add_watcher w (exactWatchers wm1)\<rparr>))"

definition Deregister :: "int \<Rightarrow> string \<Rightarrow> bool \<Rightarrow> watch_mgr \<Rightarrow> watch_mgr" where
  "Deregister i key isP wm =
     (if isP then wm\<lparr>prefixWatchers := del_watcher i key (prefixWatchers wm)\<rparr>
      else wm\<lparr>exactWatchers := del_watcher i key (exactWatchers wm)\<rparr>)"

text \<open>The watchers an event goes to, and the non-blocking send to one of them.\<close>

definition map_values :: "('k::linorder, 'v) fmap \<Rightarrow> 'v list" where
  "map_values m = map snd (sorted_list_of_fmap m)"

definition event_watchers :: "watch_mgr \<Rightarrow> string \<Rightarrow> watcher list" where
  "event_watchers wm key =
     (case fmlookup (exactWatchers wm) key of None \<Rightarrow> [] | Some m \<Rightarrow> map_values m)
     @ concat (map (\<lambda>pm. if prefix (fst pm) key then map_values (snd pm) else [])
         (sorted_list_of_fmap (prefixWatchers wm)))"

definition offer :: "watch_event \<Rightarrow> watcher \<Rightarrow> (nat \<Rightarrow> watch_event list) \<Rightarrow> nat \<Rightarrow> watch_event list" where
  "offer ev w cs =
     (if length (cs (eventChan w)) < watch_cap
      then cs(eventChan w := cs (eventChan w) @ [ev]) else cs)"

definition Notify :: "watch_event \<Rightarrow> watch_mgr \<Rightarrow> watch_mgr" where
  "Notify ev wm = wm\<lparr>chans := fold (offer ev) (event_watchers wm (EvKey ev)) (chans wm)\<rparr>"

text \<open>\<^verbatim>\<open>notifierLoop\<close> over the events received so far.\<close>

definition notifierLoop :: "watch_event list \<Rightarrow> watch_mgr \<Rightarrow> watch_mgr" where
  "notifierLoop evs wm = fold Notify evs wm"

text \<open>The watcher registered under an identifier.\<close>

definition watcher_at :: "watch_mgr \<Rightarrow> string \<Rightarrow> bool \<Rightarrow> int \<Rightarrow> watcher option" where
  "watcher_at wm k isP i =
     Option.bind (fmlookup (if isP then prefixWatchers wm else exactWatchers wm) k) (\<lambda>m. fmlookup m i)"

text \<open>
  The invariant: a watcher is stored under its own key, kind and identifier, identifiers are below the
  next one, no entry is empty, and no two watchers share a channel.
\<close>

definition watch_inv :: "watch_mgr \<Rightarrow> bool" where
  "watch_inv wm \<longleftrightarrow>
     (\<forall>k isP i w. watcher_at wm k isP i = Some w \<longrightarrow>
        watch_key w = k \<and> isPrefix w = isP \<and> watch_id w = i \<and> i < nextWatcherID wm) \<and>
     (\<forall>k. fmlookup (exactWatchers wm) k \<noteq> Some fmempty) \<and> (\<forall>k. fmlookup (prefixWatchers wm) k \<noteq> Some fmempty) \<and>
     (\<forall>k isP i w k' isP' i' w'. watcher_at wm k isP i = Some w \<longrightarrow> watcher_at wm k' isP' i' = Some w' \<longrightarrow>
        eventChan w = eventChan w' \<longrightarrow> w = w')"

section \<open>Lemmas\<close>

lemma set_map_values: "w \<in> set (map_values m) \<longleftrightarrow> (\<exists>i. fmlookup m i = Some w)"
  by (force simp: map_values_def sorted_list_of_fmap_def sorted_list_of_fset.rep_eq fmlookup_dom_iff)

lemma distinct_map_values: "inj_on (fmlookup m) (fset (fmdom m)) \<Longrightarrow> distinct (map_values m)"
  by (auto simp: map_values_def sorted_list_of_fmap_def sorted_list_of_fset.rep_eq distinct_map inj_on_def
      fmlookup_dom_iff)

lemma set_event_watchers:
  "w \<in> set (event_watchers wm key) \<longleftrightarrow>
     (\<exists>i. watcher_at wm key False i = Some w) \<or> (\<exists>p i. prefix p key \<and> watcher_at wm p True i = Some w)"
  by (force simp: event_watchers_def watcher_at_def set_map_values sorted_list_of_fmap_def sorted_list_of_fset.rep_eq
      fmlookup_dom_iff bind_eq_Some_conv split: option.splits if_splits)

lemma distinct_concat_map:
  "distinct ps \<Longrightarrow> (\<And>p. p \<in> set ps \<Longrightarrow> distinct (f p)) \<Longrightarrow>
   (\<And>p q. p \<in> set ps \<Longrightarrow> q \<in> set ps \<Longrightarrow> p \<noteq> q \<Longrightarrow> set (f p) \<inter> set (f q) = {}) \<Longrightarrow> distinct (concat (map f ps))"
proof (induction ps)
  case (Cons p ps)
  have "set (f p) \<inter> set (f q) = {}" if "q \<in> set ps" for q
    using Cons.prems(1) Cons.prems(3) [of p q] that by auto
  then have "set (f p) \<inter> \<Union> (set ` f ` set ps) = {}" by blast
  moreover have "distinct (concat (map f ps))" by (rule Cons.IH) (use Cons.prems in auto)
  ultimately show ?case using Cons.prems(2) by simp
qed simp

lemma sorted_list_of_fmap_lookup: "(k, v) \<in> set (sorted_list_of_fmap m) \<longleftrightarrow> fmlookup m k = Some v"
  by (force simp: sorted_list_of_fmap_def sorted_list_of_fset.rep_eq fmlookup_dom_iff)

lemma distinct_sorted_list_of_fmap: "distinct (sorted_list_of_fmap m)"
  by (simp add: sorted_list_of_fmap_def sorted_list_of_fset.rep_eq distinct_map inj_on_def)

lemma distinct_event_watchers:
  assumes "watch_inv wm"
  shows "distinct (event_watchers wm key)"
proof -
  have wat: "watch_key w = k \<and> isPrefix w = isP \<and> watch_id w = i" if "watcher_at wm k isP i = Some w" for k isP i w
    using assms that by (auto simp: watch_inv_def)
  have dm: "distinct (map_values m)" if "\<And>i. fmlookup m i = watcher_at wm k isP i" for m :: "(int, watcher) fmap" and k isP
  proof (rule distinct_map_values, rule inj_onI)
    fix x y assume "x \<in> fset (fmdom m)" "y \<in> fset (fmdom m)" and e: "fmlookup m x = fmlookup m y"
    then obtain w where w: "fmlookup m x = Some w" by (auto simp: fmlookup_dom_iff)
    with e that have "watcher_at wm k isP x = Some w" "watcher_at wm k isP y = Some w" by auto
    with wat have "watch_id w = x" "watch_id w = y" by blast+
    then show "x = y" by simp
  qed
  have d1: "distinct (case fmlookup (exactWatchers wm) key of None \<Rightarrow> [] | Some m \<Rightarrow> map_values m)"
    using dm [of _ key False] by (auto simp: watcher_at_def split: option.split)
  let ?f = "\<lambda>pm. if prefix (fst pm) key then map_values (snd pm) else []"
  have d2: "distinct (concat (map ?f (sorted_list_of_fmap (prefixWatchers wm))))"
  proof (rule distinct_concat_map [OF distinct_sorted_list_of_fmap])
    fix p assume "p \<in> set (sorted_list_of_fmap (prefixWatchers wm))"
    then have "fmlookup (prefixWatchers wm) (fst p) = Some (snd p)" by (simp add: sorted_list_of_fmap_lookup [symmetric])
    then show "distinct (?f p)" using dm [of "snd p" "fst p" True] by (simp add: watcher_at_def)
  next
    fix p q assume "p \<in> set (sorted_list_of_fmap (prefixWatchers wm))" "q \<in> set (sorted_list_of_fmap (prefixWatchers wm))" "p \<noteq> q"
    then have l: "fmlookup (prefixWatchers wm) (fst p) = Some (snd p)" "fmlookup (prefixWatchers wm) (fst q) = Some (snd q)"
      by (simp_all add: sorted_list_of_fmap_lookup [symmetric])
    moreover have "fst p \<noteq> fst q" using l \<open>p \<noteq> q\<close> by (metis option.inject prod.expand)
    ultimately have "fst p \<noteq> fst q" "fmlookup (prefixWatchers wm) (fst p) = Some (snd p)"
      "fmlookup (prefixWatchers wm) (fst q) = Some (snd q)" by simp_all
    then show "set (?f p) \<inter> set (?f q) = {}"
      using wat [of "fst p" True] wat [of "fst q" True] by (force simp: set_map_values watcher_at_def)
  qed
  have "set (case fmlookup (exactWatchers wm) key of None \<Rightarrow> [] | Some m \<Rightarrow> map_values m) \<inter>
      set (concat (map ?f (sorted_list_of_fmap (prefixWatchers wm)))) = {}"
  proof -
    have "\<not> isPrefix w" if "w \<in> set (case fmlookup (exactWatchers wm) key of None \<Rightarrow> [] | Some m \<Rightarrow> map_values m)" for w
    proof -
      from that obtain i where "watcher_at wm key False i = Some w"
        by (cases "fmlookup (exactWatchers wm) key") (auto simp: set_map_values watcher_at_def)
      with wat show ?thesis by blast
    qed
    moreover have "isPrefix w" if "w \<in> set (concat (map ?f (sorted_list_of_fmap (prefixWatchers wm))))" for w
    proof -
      from that obtain p m i where "fmlookup (prefixWatchers wm) p = Some m" "fmlookup m i = Some w"
        by (auto simp: set_map_values sorted_list_of_fmap_lookup split: if_splits)
      then have "watcher_at wm p True i = Some w" by (simp add: watcher_at_def)
      with wat show ?thesis by blast
    qed
    ultimately show ?thesis by blast
  qed
  with d1 d2 show ?thesis by (simp add: event_watchers_def)
qed

lemma fold_offer:
  "distinct (map eventChan ws) \<Longrightarrow> fold (offer ev) ws cs c =
     (if c \<in> eventChan ` set ws \<and> length (cs c) < watch_cap then cs c @ [ev] else cs c)"
proof (induction ws arbitrary: cs)
  case (Cons w ws)
  then have "fold (offer ev) ws (offer ev w cs) c =
     (if c \<in> eventChan ` set ws \<and> length (offer ev w cs c) < watch_cap then offer ev w cs c @ [ev] else offer ev w cs c)"
    by simp
  moreover have "offer ev w cs c = (if c = eventChan w \<and> length (cs c) < watch_cap then cs c @ [ev] else cs c)"
    by (simp add: offer_def)
  ultimately show ?case using Cons.prems by auto
qed simp

lemma eventChan_inj:
  assumes "watch_inv wm" "watcher_at wm k isP i = Some w" "w' \<in> set (event_watchers wm key)" "eventChan w' = eventChan w"
  shows "w' = w"
proof -
  from assms(3) obtain k' isP' i' where "watcher_at wm k' isP' i' = Some w'" by (auto simp: set_event_watchers)
  with assms(1,2,4) show ?thesis unfolding watch_inv_def by metis
qed

lemma distinct_event_chans:
  assumes "watch_inv wm"
  shows "distinct (map eventChan (event_watchers wm key))"
proof -
  have "inj_on eventChan (set (event_watchers wm key))"
  proof (rule inj_onI)
    fix w w' assume a: "w \<in> set (event_watchers wm key)" "w' \<in> set (event_watchers wm key)" "eventChan w = eventChan w'"
    from a(2) obtain k' isP' i' where "watcher_at wm k' isP' i' = Some w'" by (auto simp: set_event_watchers)
    from eventChan_inj [OF assms this a(1,3)] show "w = w'" .
  qed
  with distinct_event_watchers [OF assms] show ?thesis by (simp add: distinct_map)
qed

section \<open>Properties\<close>

text \<open>
  C29: A watcher gets exactly the events of its key (of the keys with its prefix), each once, in order
  and at the end of its channel, until the channel is full; events of other keys and of other
  watchers never reach it.
\<close>

theorem notify_delivers_matching:
  assumes "watch_inv wm" "watcher_at wm k isP i = Some w"
  shows "chans (Notify ev wm) (eventChan w) =
    (if (if isP then prefix k (EvKey ev) else k = EvKey ev) \<and> length (chans wm (eventChan w)) < watch_cap
     then chans wm (eventChan w) @ [ev] else chans wm (eventChan w))"
proof -
  have "eventChan w \<in> eventChan ` set (event_watchers wm (EvKey ev)) \<longleftrightarrow> w \<in> set (event_watchers wm (EvKey ev))"
  proof
    assume "eventChan w \<in> eventChan ` set (event_watchers wm (EvKey ev))"
    then obtain w' where "w' \<in> set (event_watchers wm (EvKey ev))" "eventChan w' = eventChan w" by force
    with eventChan_inj [OF assms this] show "w \<in> set (event_watchers wm (EvKey ev))" by simp
  qed simp
  also have "\<dots> \<longleftrightarrow> (if isP then prefix k (EvKey ev) else k = EvKey ev)"
  proof -
    have w: "watch_key w = k" "isPrefix w = isP" "watch_id w = i" using assms by (auto simp: watch_inv_def)
    have u: "watch_key w = k'" "isPrefix w = isP'" if "watcher_at wm k' isP' i' = Some w" for k' isP' i'
      using assms(1) that by (auto simp: watch_inv_def)
    show ?thesis
    proof
      assume "w \<in> set (event_watchers wm (EvKey ev))"
      then show "if isP then prefix k (EvKey ev) else k = EvKey ev"
        unfolding set_event_watchers using u w by (metis (full_types))
    next
      assume "if isP then prefix k (EvKey ev) else k = EvKey ev"
      then show "w \<in> set (event_watchers wm (EvKey ev))"
        unfolding set_event_watchers using assms(2) by (cases isP) auto
    qed
  qed
  finally show ?thesis using fold_offer [OF distinct_event_chans [OF assms(1)]] by (simp add: Notify_def)
qed

lemma Register_fresh:
  assumes "watch_inv wm"
  shows "watcher_at wm k isP (nextWatcherID wm) = None"
proof (cases "watcher_at wm k isP (nextWatcherID wm)")
  case (Some w)
  with assms have "nextWatcherID wm < nextWatcherID wm" unfolding watch_inv_def by metis
  then show ?thesis by simp
qed

lemma add_del_watcher:
  assumes "Option.bind (fmlookup ws (watch_key w)) (\<lambda>m. fmlookup m (watch_id w)) = None" "fmlookup ws (watch_key w) \<noteq> Some fmempty"
  shows "del_watcher (watch_id w) (watch_key w) (add_watcher w ws) = ws"
proof (cases "fmlookup ws (watch_key w)")
  case None
  then show ?thesis by (auto simp: add_watcher_def del_watcher_def Let_def fmap_ext)
next
  case (Some m)
  with assms have "fmlookup m (watch_id w) = None" "m \<noteq> fmempty" by auto
  then have "fmdrop (watch_id w) (fmupd (watch_id w) w m) = m" by (auto intro!: fmap_ext)
  with Some \<open>m \<noteq> fmempty\<close> show ?thesis by (auto simp: add_watcher_def del_watcher_def Let_def intro!: fmap_ext)
qed

text \<open>
  \<^verbatim>\<open>Deregister\<close> undoes \<^verbatim>\<open>Register\<close>: a watcher gets a new identifier and is the one found under it, and
  removing it leaves the watchers exactly as they were (no empty entry is left behind).
\<close>

theorem register_deregister:
  assumes "watch_inv wm" "Register k isP c wm = (i, wm')"
  shows "watcher_at wm k isP i = None \<and>
    watcher_at wm' k isP i = Some \<lparr>watch_id = i, watch_key = k, isPrefix = isP, eventChan = c\<rparr> \<and>
    Deregister i k isP wm' = wm\<lparr>nextWatcherID := nextWatcherID wm + 1\<rparr>"
proof -
  let ?w = "\<lparr>watch_id = nextWatcherID wm, watch_key = k, isPrefix = isP, eventChan = c\<rparr>"
  let ?ws = "if isP then prefixWatchers wm else exactWatchers wm"
  have i: "i = nextWatcherID wm" using assms(2) by (auto simp: Register_def Let_def)
  have f: "Option.bind (fmlookup ?ws k) (\<lambda>m. fmlookup m i) = None"
    using Register_fresh [OF assms(1), of k isP] by (simp add: watcher_at_def i)
  have ne: "fmlookup (prefixWatchers wm) k \<noteq> Some fmempty" "fmlookup (exactWatchers wm) k \<noteq> Some fmempty"
    using assms(1) by (auto simp: watch_inv_def)
  have "del_watcher i k (add_watcher ?w ?ws) = ?ws"
    using add_del_watcher [of ?ws ?w] f ne i by (cases isP) auto
  then have "Deregister i k isP wm' = wm\<lparr>nextWatcherID := nextWatcherID wm + 1\<rparr>"
    using assms(2) i by (cases isP) (auto simp: Register_def Deregister_def Let_def)
  moreover have "watcher_at wm' k isP i = Some ?w"
    using assms(2) i by (cases isP) (auto simp: Register_def watcher_at_def add_watcher_def Let_def)
  ultimately show ?thesis using f i by (simp add: watcher_at_def)
qed

theorem register_deregister_witness:
  "\<exists>i wm'. Register ''a'' True 0 NewWatcherManager = (i, wm') \<and>
     watcher_at wm' ''a'' True i \<noteq> None \<and> Deregister i ''a'' True wm' = NewWatcherManager\<lparr>nextWatcherID := 2\<rparr>"
proof -
  obtain i wm' where r: "Register ''a'' True 0 NewWatcherManager = (i, wm')" by (rule prod.exhaust)
  have "watch_inv NewWatcherManager" by (auto simp: watch_inv_def watcher_at_def NewWatcherManager_def)
  from register_deregister [OF this r] r show ?thesis by (auto simp: NewWatcherManager_def)
qed

theorem notify_delivers_matching_witness:
  "\<exists>wm w. watcher_at wm ''a'' True 1 = Some w \<and>
     chans (Notify \<lparr>EvType = PutEvent, EvKey = ''ab'', EvValue = ''v''\<rparr> wm) (eventChan w)
       = [\<lparr>EvType = PutEvent, EvKey = ''ab'', EvValue = ''v''\<rparr>]"
proof -
  let ?wm = "snd (Register ''a'' True 0 NewWatcherManager)"
  have wat: "watcher_at ?wm k isP i =
    (if isP \<and> k = ''a'' \<and> i = 1 then Some \<lparr>watch_id = 1, watch_key = ''a'', isPrefix = True, eventChan = 0\<rparr> else None)" for k isP i
    by (simp add: Register_def NewWatcherManager_def watcher_at_def add_watcher_def Let_def)
  then have inv: "watch_inv ?wm"
    unfolding watch_inv_def by (auto simp: Register_def NewWatcherManager_def add_watcher_def Let_def split: if_splits)
  have w: "watcher_at ?wm ''a'' True 1 = Some \<lparr>watch_id = 1, watch_key = ''a'', isPrefix = True, eventChan = 0\<rparr>" by (simp add: wat)
  have "chans ?wm = (\<lambda>_. [])" by (simp add: Register_def NewWatcherManager_def Let_def)
  with notify_delivers_matching [OF inv w, of "\<lparr>EvType = PutEvent, EvKey = ''ab'', EvValue = ''v''\<rparr>"] w show ?thesis
    by (intro exI [of _ ?wm] exI [of _ "\<lparr>watch_id = 1, watch_key = ''a'', isPrefix = True, eventChan = 0\<rparr>"]) (simp add: watch_cap_def)
qed

end
