(* ===== verification/KVServer.thy ===== *)
theory KVServer
  imports RaftNode BoltDB Lease Watch
begin

text \<open>
  The key-value server, \<^verbatim>\<open>src/kvraft/server.go\<close>: the state machine that applies what Raft commits, the
  RPC handlers \<^verbatim>\<open>Get\<close>, \<^verbatim>\<open>PutAppend\<close> and \<^verbatim>\<open>Watch\<close>, snapshots, and lease revocation. The storage is the interface
  \<^verbatim>\<open>common.DB\<close> (a record of operations). A call of the logger that ends the process, a wait that never
  ends and a cursor loop that does not return are values of \<^typ>\<open>panic\<close>. The channel \<^verbatim>\<open>lastIndexCh\<close>, which
  only wakes waiting handlers, is not modelled: a handler polls.
\<close>

section \<open>Definitions\<close>

subsection \<open>Data\<close>

datatype kv_err = ErrOK | ErrNoKey | ErrCasFaildInt | ErrWrongLeader | ErrWaitForRecover

record duplicateType =
  dOffset :: "32 word"
  CASResult :: bool

record get_args =
  gaKey :: string
  gaClientId :: int
  gaLatestOffset :: "32 word"
  gaWithPrefix :: bool
  gaOp :: optype
  gaPageSize :: int
  gaPageIndex :: int

record get_reply =
  grErr :: kv_err
  grLeaderId :: int
  grServerId :: int
  grValue :: "bytes list"

record put_args =
  paKey :: string
  paValue :: bytes
  paOp :: optype
  paClientId :: int
  paLatestOffset :: "32 word"
  paOriValue :: bytes
  paDeadTime :: int
  paLeaseId :: int

record put_reply =
  prErr :: kv_err
  prLeaderId :: int
  prServerId :: int

text \<open>The encoders of the server: Raft's, and \<^verbatim>\<open>gob\<close> for batches, pairs and snapshots.\<close>

record kv_codecs =
  raftC :: codecs
  batchC :: "op list codec"
  kvpairC :: "pair codec"
  kvsnapC :: "((int, duplicateType) fmap \<times> bytes) codec"

record 'd kvserver =
  kv_me :: int
  kv_rf :: raft
  kv_dead :: bool
  maxraftstate :: int
  lastAppliedIndex :: int
  db :: 'd
  duplicateMap :: "(int, duplicateType) fmap"
  watcherManager :: watch_mgr
  eventNotifier :: "watch_event list"
  leaseMgr :: lease_mgr

definition notifier_cap :: nat where "notifier_cap = 1024"

text \<open>Reading the Go map \<^verbatim>\<open>duplicateMap\<close>: the zero value for a client it does not have.\<close>

definition dup_of :: "'d kvserver \<Rightarrow> int \<Rightarrow> duplicateType" where
  "dup_of kv c = (case fmlookup (duplicateMap kv) c of None \<Rightarrow> \<lparr>dOffset = 0, CASResult = False\<rparr> | Some d \<Rightarrow> d)"

definition put_event :: "string \<Rightarrow> bytes \<Rightarrow> watch_event" where
  "put_event k v = \<lparr>EvType = PutEvent, EvKey = k, EvValue = v\<rparr>"

definition delete_event :: "string \<Rightarrow> watch_event" where
  "delete_event k = \<lparr>EvType = DeleteEvent, EvKey = k, EvValue = []\<rparr>"

subsection \<open>Applying a command\<close>

text \<open>\<^verbatim>\<open>if OP.LeaseId != 0 ... AttachKey\<close> (\<^verbatim>\<open>DetachKey\<close>).\<close>

definition attach_lease :: "op \<Rightarrow> 'd kvserver \<Rightarrow> 'd kvserver res" where
  "attach_lease o' kv =
     (if LeaseId o' \<noteq> 0
      then res_bind (AttachKey (LeaseId o') (Key o') (leaseMgr kv)) (\<lambda>lm. Inr (kv\<lparr>leaseMgr := lm\<rparr>))
      else Inr kv)"

definition detach_lease :: "op \<Rightarrow> 'd kvserver \<Rightarrow> 'd kvserver res" where
  "detach_lease o' kv =
     (if LeaseId o' \<noteq> 0
      then res_bind (DetachKey (LeaseId o') (Key o') (leaseMgr kv)) (\<lambda>lm. Inr (kv\<lparr>leaseMgr := lm\<rparr>))
      else Inr kv)"

text \<open>A store operation whose error is ignored, and one whose error ends the process.\<close>

definition set_db :: "'d kvserver \<Rightarrow> db_error option \<times> 'd \<Rightarrow> 'd kvserver" where
  "set_db kv r = kv\<lparr>db := snd r\<rparr>"

definition set_db_fatal :: "'d kvserver \<Rightarrow> db_error option \<times> 'd \<Rightarrow> 'd kvserver res" where
  "set_db_fatal kv r = (case fst r of Some e \<Rightarrow> Inl LoggerFatal | None \<Rightarrow> Inr (kv\<lparr>db := snd r\<rparr>))"

definition del_prefix_db :: "'d db_ops \<Rightarrow> 'd kvserver \<Rightarrow> string \<Rightarrow> 'd kvserver res" where
  "del_prefix_db D kv p = (case op_DelWithPrefix D (db kv) p of None \<Rightarrow> Inl Deadlock | Some r \<Rightarrow> Inr (set_db kv r))"

definition appended :: "'d db_ops \<Rightarrow> 'd kvserver \<Rightarrow> op \<Rightarrow> entry" where
  "appended D kv o' =
     \<lparr>Value = Value (entry_or_zero (op_GetEntry D (db kv) (Key o'))) @ Value (OpEntry o'), DeadTime = DeadTime (OpEntry o')\<rparr>"

definition apply_put :: "'d db_ops \<Rightarrow> op \<Rightarrow> 'd kvserver \<Rightarrow> (watch_event list \<times> 'd kvserver) res" where
  "apply_put D o' kv =
     res_bind (set_db_fatal kv (op_PutEntry D (db kv) (Key o') (OpEntry o'))) (\<lambda>kv1.
       res_bind (attach_lease o' kv1) (\<lambda>kv2.
         Inr ([put_event (Key o') (Value (OpEntry o'))], kv2)))"

definition apply_append :: "'d db_ops \<Rightarrow> op \<Rightarrow> 'd kvserver \<Rightarrow> (watch_event list \<times> 'd kvserver) res" where
  "apply_append D o' kv =
     (let e = appended D kv o' in
      res_bind (set_db_fatal kv (op_PutEntry D (db kv) (Key o') e)) (\<lambda>kv1.
        res_bind (attach_lease o' kv1) (\<lambda>kv2.
          Inr ([put_event (Key o') (Value e)], kv2))))"

definition apply_del :: "'d db_ops \<Rightarrow> op \<Rightarrow> 'd kvserver \<Rightarrow> (watch_event list \<times> 'd kvserver) res" where
  "apply_del D o' kv =
     (let r = op_GetEntry D (db kv) (Key o') in
      res_bind (detach_lease o' (set_db kv (op_Del D (db kv) (Key o')))) (\<lambda>kv1.
        Inr (case r of Inl _ \<Rightarrow> [] | Inr _ \<Rightarrow> [delete_event (Key o')], kv1)))"

definition apply_del_prefix :: "'d db_ops \<Rightarrow> op \<Rightarrow> 'd kvserver \<Rightarrow> (watch_event list \<times> 'd kvserver) res" where
  "apply_del_prefix D o' kv =
     res_bind (del_prefix_db D kv (Key o')) (\<lambda>kv1. Inr ([delete_event (Key o')], kv1))"

definition apply_cas :: "'d db_ops \<Rightarrow> op \<Rightarrow> 'd kvserver \<Rightarrow> (watch_event list \<times> 'd kvserver) res" where
  "apply_cas D o' kv =
     (if Value (entry_or_zero (op_GetEntry D (db kv) (Key o'))) = OriValue o' then
        res_bind
          (if Value (OpEntry o') = [] then
             res_bind (detach_lease o' (set_db kv (op_Del D (db kv) (Key o')))) (\<lambda>kv1.
               Inr ([delete_event (Key o')], kv1))
           else
             res_bind (attach_lease o' (set_db kv (op_PutEntry D (db kv) (Key o') (OpEntry o')))) (\<lambda>kv1.
               Inr ([put_event (Key o') (Value (OpEntry o'))], kv1)))
          (\<lambda>(evs, kv1).
             Inr (evs, kv1\<lparr>duplicateMap := fmupd (ClientId o') \<lparr>dOffset = Offset o', CASResult = True\<rparr> (duplicateMap kv1)\<rparr>))
      else Inr ([], kv))"

text \<open>One operation of a batch: errors of the store are ignored, other operation types are skipped.\<close>

definition apply_batch_op :: "'d db_ops \<Rightarrow> op \<Rightarrow> 'd kvserver \<Rightarrow> (watch_event list \<times> 'd kvserver) res" where
  "apply_batch_op D o' kv =
     (case OpType o' of
        PutT \<Rightarrow>
          res_bind (attach_lease o' (set_db kv (op_PutEntry D (db kv) (Key o') (OpEntry o')))) (\<lambda>kv1.
            Inr ([put_event (Key o') (Value (OpEntry o'))], kv1))
      | AppendT \<Rightarrow>
          (let e = appended D kv o' in
           res_bind (attach_lease o' (set_db kv (op_PutEntry D (db kv) (Key o') e))) (\<lambda>kv1.
             Inr ([put_event (Key o') (Value e)], kv1)))
      | DelT \<Rightarrow>
          res_bind (detach_lease o' (set_db kv (op_Del D (db kv) (Key o')))) (\<lambda>kv1.
            Inr ([delete_event (Key o')], kv1))
      | DelWithPrefixT \<Rightarrow>
          res_bind (del_prefix_db D kv (Key o')) (\<lambda>kv1. Inr ([delete_event (Key o')], kv1))
      | _ \<Rightarrow> Inr ([], kv))"

fun apply_batch :: "'d db_ops \<Rightarrow> op list \<Rightarrow> 'd kvserver \<Rightarrow> (watch_event list \<times> 'd kvserver) res" where
  "apply_batch D [] kv = Inr ([], kv)"
| "apply_batch D (o' # os) kv =
     res_bind (apply_batch_op D o' kv) (\<lambda>(evs, kv1).
       res_bind (apply_batch D os kv1) (\<lambda>(evs', kv2). Inr (evs @ evs', kv2)))"

text \<open>The \<^verbatim>\<open>switch\<close> of \<^verbatim>\<open>HandleApplychCommand\<close>, and the whole of it.\<close>

definition apply_op :: "'d db_ops \<Rightarrow> kv_codecs \<Rightarrow> op \<Rightarrow> 'd kvserver \<Rightarrow> (watch_event list \<times> 'd kvserver) res" where
  "apply_op D K o' kv =
     (case OpType o' of
        PutT \<Rightarrow> apply_put D o' kv
      | AppendT \<Rightarrow> apply_append D o' kv
      | DelT \<Rightarrow> apply_del D o' kv
      | DelWithPrefixT \<Rightarrow> apply_del_prefix D o' kv
      | CAST \<Rightarrow> apply_cas D o' kv
      | BatchT \<Rightarrow>
          (case dec (batchC K) (Value (OpEntry o')) of
             None \<Rightarrow> Inl LoggerFatal
           | Some os \<Rightarrow> apply_batch D os kv)
      | _ \<Rightarrow> Inl LoggerFatal)"

definition HandleApplychCommand ::
  "'d db_ops \<Rightarrow> kv_codecs \<Rightarrow> apply_msg \<Rightarrow> 'd kvserver \<Rightarrow> (watch_event list \<times> 'd kvserver) res" where
  "HandleApplychCommand D K m kv =
     res_bind (op_Unmarshal (opC (raftC K)) (Command m)) (\<lambda>o'.
       if OpType o' = EmptyT then Inr ([], kv)
       else if sint (Offset o') \<le> sint (dOffset (dup_of kv (ClientId o'))) then Inr ([], kv)
       else apply_op D K o'
         (kv\<lparr>duplicateMap := fmupd (ClientId o') \<lparr>dOffset = Offset o', CASResult = False\<rparr> (duplicateMap kv)\<rparr>))"

subsection \<open>Snapshots and the apply loop\<close>

definition readPersist :: "'d db_ops \<Rightarrow> kv_codecs \<Rightarrow> bytes \<Rightarrow> 'd kvserver \<Rightarrow> 'd kvserver res" where
  "readPersist D K data kv =
     (if data = [] then Inr kv
      else case dec (kvsnapC K) data of
        None \<Rightarrow> Inl LoggerFatal
      | Some (dm, dbData) \<Rightarrow>
          Inr (kv\<lparr>db := snd (op_InstallSnapshotData D (op_New D) dbData), duplicateMap := dm\<rparr>))"

definition HandleApplychSnapshot :: "'d db_ops \<Rightarrow> kv_codecs \<Rightarrow> apply_msg \<Rightarrow> 'd kvserver \<Rightarrow> 'd kvserver res" where
  "HandleApplychSnapshot D K m kv =
     (if SnapshotIndex m < lastAppliedIndex kv then Inr kv
      else res_bind (readPersist D K (SnapshotBytes m) kv) (\<lambda>kv1.
        Inr (kv1\<lparr>lastAppliedIndex := SnapshotIndex m\<rparr>)))"

definition checkifNeedSnapshot :: "'d db_ops \<Rightarrow> kv_codecs \<Rightarrow> int \<Rightarrow> 'd kvserver \<Rightarrow> 'd kvserver res" where
  "checkifNeedSnapshot D K i kv =
     (if maxraftstate kv = -1 then Inr kv
      else if GetRaftStateSize (kv_rf kv) < maxraftstate kv then Inr kv
      else case op_SnapshotData D (db kv) of
        Inl e \<Rightarrow> Inl LoggerFatal
      | Inr data \<Rightarrow>
          res_bind (raft_Snapshot (raftC K) i (enc (kvsnapC K) (duplicateMap kv, data)) (kv_rf kv)) (\<lambda>rf.
            Inr (kv\<lparr>kv_rf := rf\<rparr>)))"

text \<open>The non-blocking sends to \<^verbatim>\<open>eventNotifier\<close>.\<close>

definition notify_events :: "watch_event list \<Rightarrow> 'd kvserver \<Rightarrow> 'd kvserver" where
  "notify_events evs kv =
     kv\<lparr>eventNotifier := eventNotifier kv @ take (notifier_cap - length (eventNotifier kv)) evs\<rparr>"

text \<open>\<^verbatim>\<open>HandleApplych\<close> for one message.\<close>

definition HandleApplych :: "'d db_ops \<Rightarrow> kv_codecs \<Rightarrow> apply_msg \<Rightarrow> 'd kvserver \<Rightarrow> 'd kvserver res" where
  "HandleApplych D K m kv =
     (if kv_dead kv then Inr kv
      else if CommandValid m then
        res_bind
          (if CommandIndex m > lastAppliedIndex kv then
             res_bind (HandleApplychCommand D K m kv) (\<lambda>(evs, kv1).
               Inr (evs, kv1\<lparr>lastAppliedIndex := CommandIndex m\<rparr>))
           else Inr ([], kv)) (\<lambda>(evs, kv1).
          res_bind (checkifNeedSnapshot D K (CommandIndex m) kv1) (\<lambda>kv2. Inr (notify_events evs kv2)))
      else if SnapshotValid m then HandleApplychSnapshot D K m kv
      else Inl LoggerFatal)"

text \<open>One event of \<^verbatim>\<open>notifierLoop\<close>.\<close>

definition notifier_turn :: "'d kvserver \<Rightarrow> 'd kvserver" where
  "notifier_turn kv =
     (case eventNotifier kv of
        [] \<Rightarrow> kv
      | ev # evs \<Rightarrow> kv\<lparr>eventNotifier := evs, watcherManager := Notify ev (watcherManager kv)\<rparr>)"

definition kv_Kill :: "'d kvserver \<Rightarrow> 'd kvserver" where
  "kv_Kill kv = kv\<lparr>kv_dead := True, kv_rf := raft_Kill (kv_rf kv)\<rparr>"

subsection \<open>Reading\<close>

definition get_values :: "'d db_ops \<Rightarrow> kv_codecs \<Rightarrow> get_args \<Rightarrow> 'd kvserver \<Rightarrow> bytes list res" where
  "get_values D K args kv =
     (case gaOp args of
        GetT \<Rightarrow>
          if gaWithPrefix args then
            (case op_GetEntryWithPrefix D (db kv) (gaKey args) of
               None \<Rightarrow> Inl Deadlock
             | Some (Inl e) \<Rightarrow> Inl LoggerFatal
             | Some (Inr es) \<Rightarrow> Inr (map Value es))
          else
            (case op_GetEntry D (db kv) (gaKey args) of
               Inl DbNotFound \<Rightarrow> Inr []
             | r \<Rightarrow> Inr [Value (entry_or_zero r)])
      | GetKeysT \<Rightarrow>
          res_bind (op_Keys D (db kv) (gaPageSize args) (gaPageIndex args)) (\<lambda>r.
            case r of
              None \<Rightarrow> Inl Deadlock
            | Some (Inl e) \<Rightarrow> Inl LoggerFatal
            | Some (Inr ps) \<Rightarrow> Inr (map (enc (kvpairC K)) ps))
      | GetKVsT \<Rightarrow>
          res_bind (op_KVs D (db kv) (gaPageSize args) (gaPageIndex args)) (\<lambda>r.
            case r of
              None \<Rightarrow> Inl Deadlock
            | Some (Inl e) \<Rightarrow> Inl LoggerFatal
            | Some (Inr ps) \<Rightarrow> Inr (map (enc (kvpairC K)) ps))
      | _ \<Rightarrow> Inr [])"

text \<open>
  \<^verbatim>\<open>Get\<close>, in one step: the peer does not change between the first and the second call of \<^verbatim>\<open>GetTerm\<close>, so that the test \<^verbatim>\<open>term ==
  kv.rf.GetTerm()\<close> is true.
\<close>

definition kv_Get :: "'d db_ops \<Rightarrow> kv_codecs \<Rightarrow> get_args \<Rightarrow> 'd kvserver \<Rightarrow> (get_reply \<times> 'd kvserver) res" where
  "kv_Get D K args kv =
     (let reply = \<lparr>grErr = ErrWrongLeader, grLeaderId = GetleaderId (kv_rf kv), grServerId = kv_me kv, grValue = []\<rparr> in
      if \<not> snd (GetState (kv_rf kv)) then Inr (reply, kv)
      else if \<not> IisBack (kv_rf kv) then
        res_bind (raft_Start (raftC K) (op_Marshal (opC (raftC K)) empty_op) (kv_rf kv)) (\<lambda>(_, rf).
          Inr (reply\<lparr>grErr := ErrWaitForRecover\<rparr>, kv\<lparr>kv_rf := rf\<rparr>))
      else if CheckIfDepose (kv_rf kv) then Inr (reply, kv)
      else if lastAppliedIndex kv \<ge> GetCommitIndex (kv_rf kv) \<and> GetLeader (kv_rf kv) then
        res_bind (get_values D K args kv) (\<lambda>vs.
          if vs = [] then Inr (reply\<lparr>grErr := ErrNoKey\<rparr>, kv)
          else Inr (reply\<lparr>grErr := ErrOK, grValue := vs\<rparr>, kv))
      else Inr (reply\<lparr>grErr := ErrWaitForRecover\<rparr>, kv))"

subsection \<open>Writing\<close>

definition put_op :: "put_args \<Rightarrow> op" where
  "put_op args =
     \<lparr>ClientId = paClientId args, Offset = paLatestOffset args, OpType = paOp args, Key = paKey args,
      OriValue = paOriValue args, OpEntry = \<lparr>Value = paValue args, DeadTime = paDeadTime args\<rparr>,
      LeaseId = paLeaseId args\<rparr>"

text \<open>
  The test for a request that is stale or was already applied, which \<^verbatim>\<open>PutAppend\<close> does twice: \<open>None\<close> to
  go on, otherwise the error of the reply.
\<close>

definition put_duplicate :: "put_args \<Rightarrow> 'd kvserver \<Rightarrow> kv_err option" where
  "put_duplicate args kv =
     (let d = dup_of kv (paClientId args) in
      if sint (paLatestOffset args) < sint (dOffset d) then Some ErrWrongLeader
      else if paLatestOffset args = dOffset d then
        Some (if paOp args \<noteq> CAST then ErrOK else if CASResult d then ErrOK else ErrCasFaildInt)
      else None)"

text \<open>\<^verbatim>\<open>PutAppend\<close> up to the loop: the error to reply, or the index and term \<^verbatim>\<open>Start\<close> gave.\<close>

definition put_begin :: "kv_codecs \<Rightarrow> put_args \<Rightarrow> 'd kvserver \<Rightarrow> ((kv_err + int \<times> int) \<times> 'd kvserver) res" where
  "put_begin K args kv =
     (if \<not> snd (GetState (kv_rf kv)) then Inr (Inl ErrWrongLeader, kv)
      else case put_duplicate args kv of
        Some e \<Rightarrow> Inr (Inl e, kv)
      | None \<Rightarrow>
          res_bind (raft_Start (raftC K) (op_Marshal (opC (raftC K)) (put_op args)) (kv_rf kv)) (\<lambda>((index, trm, isleader), rf).
            Inr (if isleader then Inr (index, trm) else Inl ErrWrongLeader, kv\<lparr>kv_rf := rf\<rparr>)))"

text \<open>One turn of the waiting loop: the error to reply, or \<open>None\<close> to wait on.\<close>

definition put_poll :: "put_args \<Rightarrow> int \<Rightarrow> int \<Rightarrow> 'd kvserver \<Rightarrow> kv_err option" where
  "put_poll args index trm kv =
     (if index \<le> lastAppliedIndex kv then
        case put_duplicate args kv of
          Some e \<Rightarrow> Some e
        | None \<Rightarrow>
            if trm \<noteq> GetTerm (kv_rf kv) then Some ErrWrongLeader
            else Some (if snd (GetState (kv_rf kv)) then ErrOK else ErrWrongLeader)
      else None)"

text \<open>The states the loop sees at its turns until it times out.\<close>

fun put_wait :: "put_args \<Rightarrow> int \<Rightarrow> int \<Rightarrow> 'd kvserver list \<Rightarrow> kv_err" where
  "put_wait args index trm [] = ErrWrongLeader"
| "put_wait args index trm (kv # kvs) =
     (if kv_dead kv then ErrWrongLeader
      else case put_poll args index trm kv of Some e \<Rightarrow> e | None \<Rightarrow> put_wait args index trm kvs)"

text \<open>
  The whole handler: it starts in \<open>kv\<close>; its first turn sees the state \<^verbatim>\<open>Start\<close> left, its later turns the
  states \<open>later\<close> the other goroutines lead to.
\<close>

definition PutAppend ::
  "kv_codecs \<Rightarrow> put_args \<Rightarrow> 'd kvserver list \<Rightarrow> 'd kvserver \<Rightarrow> (put_reply \<times> 'd kvserver) res" where
  "PutAppend K args later kv =
     (let reply = \<lambda>e. \<lparr>prErr = e, prLeaderId = GetleaderId (kv_rf kv), prServerId = kv_me kv\<rparr> in
      res_bind (put_begin K args kv) (\<lambda>(r, kv1).
        case r of
          Inl e \<Rightarrow> Inr (reply e, kv1)
        | Inr (index, trm) \<Rightarrow>
            res_bind (SendAppendEntriesToAll (kv_rf kv1)) (\<lambda>_.
              Inr (reply (put_wait args index trm (kv1 # later)), kv1))))"

subsection \<open>Watching\<close>

datatype watch_error = WatchUnavailable | WatchNotLeader int | WatchRecovering

record watch_req =
  wrKey :: string
  wrIsPrefix :: bool
  wrSendInitialState :: bool

text \<open>
  \<^verbatim>\<open>Watch\<close> until its loop, with \<open>c\<close> the channel it makes: the watch identifier and the responses sent for
  the initial state (sending is assumed to succeed; a failure ends the call like \<open>watch_close\<close>).
\<close>

definition watch_open ::
  "'d db_ops \<Rightarrow> watch_req \<Rightarrow> nat \<Rightarrow> 'd kvserver \<Rightarrow> (watch_error + (int \<times> watch_event list) \<times> 'd kvserver) res" where
  "watch_open D req c kv =
     (if kv_dead kv then Inr (Inl WatchUnavailable)
      else if \<not> snd (GetState (kv_rf kv)) then Inr (Inl (WatchNotLeader (GetleaderId (kv_rf kv))))
      else if \<not> IisBack (kv_rf kv) then Inr (Inl WatchRecovering)
      else
        let (i, wm) = Register (wrKey req) (wrIsPrefix req) c (watcherManager kv) in
        res_bind
          (if \<not> wrSendInitialState req then Inr []
           else if wrIsPrefix req then
             (case op_GetPairsWithPrefix D (db kv) (wrKey req) of
                None \<Rightarrow> Inl Deadlock
              | Some (Inl e) \<Rightarrow> Inr []
              | Some (Inr ps) \<Rightarrow> Inr (map (\<lambda>p. put_event (PairKey p) (Value (PairEntry p))) ps))
           else
             (case op_GetEntry D (db kv) (wrKey req) of
                Inl e \<Rightarrow> Inr []
              | Inr e \<Rightarrow> Inr [put_event (wrKey req) (Value e)]))
          (\<lambda>evs. Inr (Inr ((i, evs), kv\<lparr>watcherManager := wm\<rparr>))))"

text \<open>A turn of the loop that forwards a buffered event, and the end of the call.\<close>

definition watch_forward :: "nat \<Rightarrow> 'd kvserver \<Rightarrow> watch_event option \<times> 'd kvserver" where
  "watch_forward c kv =
     (case chans (watcherManager kv) c of
        [] \<Rightarrow> (None, kv)
      | ev # evs \<Rightarrow> (Some ev, kv\<lparr>watcherManager := (watcherManager kv)\<lparr>chans := (chans (watcherManager kv))(c := evs)\<rparr>\<rparr>))"

definition watch_close :: "int \<Rightarrow> watch_req \<Rightarrow> 'd kvserver \<Rightarrow> 'd kvserver" where
  "watch_close i req kv = kv\<lparr>watcherManager := Deregister i (wrKey req) (wrIsPrefix req) (watcherManager kv)\<rparr>"

subsection \<open>Lease revocation\<close>

definition revoke_op :: "int \<Rightarrow> string \<Rightarrow> op" where
  "revoke_op i k =
     \<lparr>ClientId = 0, Offset = 0, OpType = DelT, Key = k, OriValue = [], OpEntry = zero_entry, LeaseId = i\<rparr>"

fun start_all :: "kv_codecs \<Rightarrow> op list \<Rightarrow> 'd kvserver \<Rightarrow> 'd kvserver res" where
  "start_all K [] kv = Inr kv"
| "start_all K (o' # os) kv =
     res_bind (raft_Start (raftC K) (op_Marshal (opC (raftC K)) o') (kv_rf kv)) (\<lambda>(_, rf).
       start_all K os (kv\<lparr>kv_rf := rf\<rparr>))"

definition proposeLeaseRevoke :: "kv_codecs \<Rightarrow> int \<Rightarrow> 'd kvserver \<Rightarrow> 'd kvserver res" where
  "proposeLeaseRevoke K i kv =
     res_bind (GetLeaseKeys i (leaseMgr kv)) (\<lambda>ks.
       res_bind (start_all K (map (revoke_op i) ks) kv) (\<lambda>kv1.
         res_bind (Revoke i (leaseMgr kv1)) (\<lambda>lm. Inr (kv1\<lparr>leaseMgr := lm\<rparr>))))"

text \<open>The handler \<^verbatim>\<open>LeaseRevoke\<close> of \<^verbatim>\<open>src/kvraft/lease_service.go\<close>.\<close>

definition LeaseRevoke :: "kv_codecs \<Rightarrow> int \<Rightarrow> 'd kvserver \<Rightarrow> 'd kvserver res" where
  "LeaseRevoke K i kv = proposeLeaseRevoke K i kv"

fun revoke_all :: "kv_codecs \<Rightarrow> int list \<Rightarrow> 'd kvserver \<Rightarrow> 'd kvserver res" where
  "revoke_all K [] kv = Inr kv"
| "revoke_all K (i # is) kv = res_bind (proposeLeaseRevoke K i kv) (revoke_all K is)"

text \<open>One turn of the expiration loop \<^verbatim>\<open>StartKVServer\<close> starts.\<close>

definition expiration_turn :: "kv_codecs \<Rightarrow> int \<Rightarrow> 'd kvserver \<Rightarrow> 'd kvserver res" where
  "expiration_turn K now kv =
     (if kv_dead kv \<or> \<not> snd (GetState (kv_rf kv)) \<or> \<not> IisBack (kv_rf kv) then Inr kv
      else res_bind (ExpiredLeases now (leaseMgr kv)) (\<lambda>is. revoke_all K is kv))"

subsection \<open>Start\<close>

text \<open>
  \<^verbatim>\<open>StartKVServer\<close> on the files \<open>f\<close> of the Raft directory; loading certificates, connecting to
  the other peers and listening follow in the theory \<^verbatim>\<open>Startup\<close>.
\<close>

definition StartKVServer ::
  "'d db_ops \<Rightarrow> kv_codecs \<Rightarrow> int \<Rightarrow> int \<Rightarrow> string \<Rightarrow> nat \<Rightarrow> int \<Rightarrow> fs \<Rightarrow> 'd kvserver res" where
  "StartKVServer D K now m dataDir n maxstate f =
     res_bind (raft_Make (raftC K) now m (path_join dataDir (''raft-'' @ itoa m)) n f) (\<lambda>rf.
       Inr \<lparr>kv_me = m, kv_rf = rf, kv_dead = False, maxraftstate = maxstate, lastAppliedIndex = 0,
         db = op_New D, duplicateMap = fmempty, watcherManager = NewWatcherManager, eventNotifier = [],
         leaseMgr = NewLeaseManager Second\<rparr>)"

subsection \<open>Specification\<close>

text \<open>
  What the state machine should do: on a map of keys to entries and, for each client, the last request
  applied. Requests of a client are numbered; one that is not newer than the last is ignored.
\<close>

type_synonym kv_map = "string \<Rightarrow> entry option"

definition val_of :: "kv_map \<Rightarrow> string \<Rightarrow> bytes" where
  "val_of m k = (case m k of None \<Rightarrow> [] | Some e \<Rightarrow> Value e)"

definition spec_append :: "op \<Rightarrow> kv_map \<Rightarrow> entry" where
  "spec_append o' m = \<lparr>Value = val_of m (Key o') @ Value (OpEntry o'), DeadTime = DeadTime (OpEntry o')\<rparr>"

definition spec_simple :: "op \<Rightarrow> kv_map \<Rightarrow> kv_map" where
  "spec_simple o' m =
     (case OpType o' of
        PutT \<Rightarrow> m(Key o' \<mapsto> OpEntry o')
      | AppendT \<Rightarrow> m(Key o' \<mapsto> spec_append o' m)
      | DelT \<Rightarrow> m(Key o' := None)
      | DelWithPrefixT \<Rightarrow> (\<lambda>k. if prefix (Key o') k then None else m k)
      | _ \<Rightarrow> m)"

definition spec_op :: "op list codec \<Rightarrow> op \<Rightarrow> kv_map \<Rightarrow> kv_map" where
  "spec_op bc o' m =
     (case OpType o' of
        CAST \<Rightarrow>
          if val_of m (Key o') = OriValue o'
          then (if Value (OpEntry o') = [] then m(Key o' := None) else m(Key o' \<mapsto> OpEntry o')) else m
      | BatchT \<Rightarrow> (case dec bc (Value (OpEntry o')) of None \<Rightarrow> m | Some os \<Rightarrow> fold spec_simple os m)
      | _ \<Rightarrow> spec_simple o' m)"

definition cas_succeeds :: "op \<Rightarrow> kv_map \<Rightarrow> bool" where
  "cas_succeeds o' m \<longleftrightarrow> OpType o' = CAST \<and> val_of m (Key o') = OriValue o'"

definition spec_apply :: "op list codec \<Rightarrow> op \<Rightarrow> kv_map \<times> (int \<Rightarrow> duplicateType) \<Rightarrow> kv_map \<times> (int \<Rightarrow> duplicateType)" where
  "spec_apply bc o' s =
     (if OpType o' = EmptyT \<or> sint (Offset o') \<le> sint (dOffset (snd s (ClientId o'))) then s
      else (spec_op bc o' (fst s),
        (snd s)(ClientId o' := \<lparr>dOffset = Offset o', CASResult = cas_succeeds o' (fst s)\<rparr>)))"

text \<open>What the operation stores can be stored, and a command can be applied at all.\<close>

definition simple_fits :: "(string \<Rightarrow> entry \<Rightarrow> bool) \<Rightarrow> op \<Rightarrow> kv_map \<Rightarrow> bool" where
  "simple_fits fits o' m =
     (case OpType o' of
        PutT \<Rightarrow> fits (Key o') (OpEntry o')
      | AppendT \<Rightarrow> fits (Key o') (spec_append o' m)
      | _ \<Rightarrow> True)"

fun batch_fits :: "(string \<Rightarrow> entry \<Rightarrow> bool) \<Rightarrow> op list \<Rightarrow> kv_map \<Rightarrow> bool" where
  "batch_fits fits [] m = True"
| "batch_fits fits (o' # os) m = (simple_fits fits o' m \<and> batch_fits fits os (spec_simple o' m))"

definition op_fits :: "(string \<Rightarrow> entry \<Rightarrow> bool) \<Rightarrow> op list codec \<Rightarrow> op \<Rightarrow> kv_map \<Rightarrow> bool" where
  "op_fits fits bc o' m =
     (case OpType o' of
        PutT \<Rightarrow> simple_fits fits o' m
      | AppendT \<Rightarrow> simple_fits fits o' m
      | DelT \<Rightarrow> True
      | DelWithPrefixT \<Rightarrow> True
      | CAST \<Rightarrow> Value (OpEntry o') = [] \<or> fits (Key o') (OpEntry o')
      | BatchT \<Rightarrow> (case dec bc (Value (OpEntry o')) of None \<Rightarrow> False | Some os \<Rightarrow> batch_fits fits os m)
      | EmptyT \<Rightarrow> True
      | _ \<Rightarrow> False)"

text \<open>The state of the server as the specification sees it, and what the refinement keeps.\<close>

definition kv_abs :: "('d \<Rightarrow> kv_map) \<Rightarrow> 'd kvserver \<Rightarrow> kv_map \<times> (int \<Rightarrow> duplicateType)" where
  "kv_abs view kv = (view (db kv), dup_of kv)"

definition kv_good :: "('d \<Rightarrow> bool) \<Rightarrow> 'd kvserver \<Rightarrow> bool" where
  "kv_good ok kv \<longleftrightarrow> ok (db kv) \<and> \<not> stuck (leaseMgr kv)"

definition data_only :: "'d kvserver \<Rightarrow> 'd kvserver \<Rightarrow> bool" where
  "data_only kv kv' \<longleftrightarrow> kv_me kv' = kv_me kv \<and> kv_rf kv' = kv_rf kv \<and> kv_dead kv' = kv_dead kv \<and>
     maxraftstate kv' = maxraftstate kv \<and> lastAppliedIndex kv' = lastAppliedIndex kv \<and>
     watcherManager kv' = watcherManager kv \<and> eventNotifier kv' = eventNotifier kv"

text \<open>The result of a step that refines the change \<open>m\<close> of the map and leaves the requests alone.\<close>

definition refines_to ::
  "('d \<Rightarrow> kv_map) \<Rightarrow> ('d \<Rightarrow> bool) \<Rightarrow> 'd kvserver \<Rightarrow> kv_map \<Rightarrow> (watch_event list \<times> 'd kvserver) res \<Rightarrow> bool" where
  "refines_to view ok kv m r \<longleftrightarrow>
     (\<exists>evs kv'. r = Inr (evs, kv') \<and> kv_good ok kv' \<and> view (db kv') = m \<and> duplicateMap kv' = duplicateMap kv \<and>
        data_only kv kv')"

subsection \<open>A server for the witnesses\<close>

instance duplicateType_ext :: (countable) countable
proof (rule countable_classI [of "\<lambda>d. to_nat (unat (dOffset d), CASResult d, duplicateType.more d)"])
  fix x y :: "'a duplicateType_scheme"
  assume "to_nat (unat (dOffset x), CASResult x, duplicateType.more x) = to_nat (unat (dOffset y), CASResult y, duplicateType.more y)"
  then show "x = y" by (cases x; cases y) (simp add: word_unat_eq_iff)
qed

text \<open>A leader of three peers with an empty log and an empty store, and a put of its first client.\<close>

definition demo_K :: kv_codecs where
  "demo_K = \<lparr>raftC = count_codecs, batchC = count_codec, kvpairC = count_codec,
     kvsnapC = pin_codec [(fmempty, CHR ''x'' # tx_write fm_bolt (bk_new fm_bolt)), (fmempty, tx_write fm_bolt (bk_new fm_bolt))]\<rparr>"

definition demo_kv :: "(bytes, bytes) fmap boltdb kvserver" where
  "demo_kv = \<lparr>kv_me = 0,
     kv_rf = (zero_raft 0 (fresh_wal ''d'') fresh_fs)\<lparr>state := Leader, currentTerm := 1, peers := 3,
       nextIndex := [0, 0, 0], matchIndex := [-1, -1, -1]\<rparr>,
     kv_dead = False, maxraftstate = -1, lastAppliedIndex = 0, db = NewDB fm_bolt ''p'', duplicateMap = fmempty,
     watcherManager = NewWatcherManager, eventNotifier = [], leaseMgr = NewLeaseManager Second\<rparr>"

definition demo_put :: put_args where
  "demo_put = \<lparr>paKey = ''k'', paValue = ''v'', paOp = PutT, paClientId = 7, paLatestOffset = 1, paOriValue = [],
     paDeadTime = 0, paLeaseId = 0\<rparr>"

definition demo_msg :: "op \<Rightarrow> apply_msg" where
  "demo_msg o' = \<lparr>CommandValid = True, Command = op_Marshal (opC count_codecs) o', CommandIndex = 1,
     SnapshotValid = False, SnapshotBytes = [], SnapshotTerm = 0, SnapshotIndex = 0\<rparr>"

section \<open>Lemmas\<close>

lemma data_only_refl [simp]: "data_only kv kv"
  by (simp add: data_only_def)

lemma data_only_trans: "data_only a b \<Longrightarrow> data_only b c \<Longrightarrow> data_only a c"
  by (simp add: data_only_def)

lemma AttachKey_Inr: "\<not> stuck lm \<Longrightarrow> \<exists>lm'. AttachKey i k lm = Inr lm' \<and> \<not> stuck lm'"
  and DetachKey_Inr: "\<not> stuck lm \<Longrightarrow> \<exists>lm'. DetachKey i k lm = Inr lm' \<and> \<not> stuck lm'"
  by (auto simp: AttachKey_def DetachKey_def with_lock_def split: option.splits)

lemma attach_lease_Inr:
  assumes "\<not> stuck (leaseMgr kv)"
  shows "\<exists>lm. attach_lease o' kv = Inr (kv\<lparr>leaseMgr := lm\<rparr>) \<and> \<not> stuck lm"
  using AttachKey_Inr [OF assms, of "LeaseId o'" "Key o'"] assms
  by (cases "LeaseId o' = 0") (auto simp: attach_lease_def intro: exI [of _ "leaseMgr kv"])

lemma detach_lease_Inr:
  assumes "\<not> stuck (leaseMgr kv)"
  shows "\<exists>lm. detach_lease o' kv = Inr (kv\<lparr>leaseMgr := lm\<rparr>) \<and> \<not> stuck lm"
  using DetachKey_Inr [OF assms, of "LeaseId o'" "Key o'"] assms
  by (cases "LeaseId o' = 0") (auto simp: detach_lease_def intro: exI [of _ "leaseMgr kv"])

context kv_store
begin

lemma val_get: "ok d \<Longrightarrow> Value (entry_or_zero (op_GetEntry D d k)) = val_of (view d) k"
  by (simp add: entry_or_zero_get val_of_def zero_entry_def split: option.splits)

lemma appended_spec: "kv_good ok kv \<Longrightarrow> appended D kv o' = spec_append o' (view (db kv))"
  by (simp add: appended_def spec_append_def val_get kv_good_def)

lemma attach_refines:
  assumes "kv_good ok kv" "op_PutEntry D (db kv) k e = (None, d')" "ok d'" "view d' = m"
  shows "refines_to view ok kv m (res_bind (attach_lease o' (set_db kv (op_PutEntry D (db kv) k e))) (\<lambda>kv1. Inr (evs, kv1)))"
proof -
  obtain lm where "attach_lease o' (kv\<lparr>db := d'\<rparr>) = Inr (kv\<lparr>db := d', leaseMgr := lm\<rparr>)" "\<not> stuck lm"
    using attach_lease_Inr [of "kv\<lparr>db := d'\<rparr>" o'] assms(1) by (auto simp: kv_good_def)
  with assms show ?thesis by (simp add: refines_to_def set_db_def kv_good_def data_only_def)
qed

lemma detach_refines:
  assumes "kv_good ok kv"
  shows "refines_to view ok kv ((view (db kv))(k := None))
    (res_bind (detach_lease o' (set_db kv (op_Del D (db kv) k))) (\<lambda>kv1. Inr (evs, kv1)))"
proof -
  from assms del [of "db kv" k] obtain d' where d': "op_Del D (db kv) k = (None, d')" "ok d'" "view d' = (view (db kv))(k := None)"
    by (auto simp: kv_good_def)
  obtain lm where "detach_lease o' (kv\<lparr>db := d'\<rparr>) = Inr (kv\<lparr>db := d', leaseMgr := lm\<rparr>)" "\<not> stuck lm"
    using detach_lease_Inr [of "kv\<lparr>db := d'\<rparr>" o'] assms(1) by (auto simp: kv_good_def)
  with assms d' show ?thesis by (simp add: refines_to_def set_db_def kv_good_def data_only_def)
qed

lemma del_prefix_refines:
  assumes "kv_good ok kv"
  shows "refines_to view ok kv (\<lambda>k. if prefix p k then None else view (db kv) k)
    (res_bind (del_prefix_db D kv p) (\<lambda>kv1. Inr (evs, kv1)))"
proof -
  from assms del_prefix [of "db kv" p] obtain d' where "op_DelWithPrefix D (db kv) p = Some (None, d')" "ok d'"
    "view d' = (\<lambda>k. if prefix p k then None else view (db kv) k)" by (auto simp: kv_good_def)
  with assms show ?thesis by (simp add: refines_to_def del_prefix_db_def set_db_def kv_good_def data_only_def)
qed

lemma batch_op_refines:
  assumes "kv_good ok kv" "simple_fits fits o' (view (db kv))"
  shows "refines_to view ok kv (spec_simple o' (view (db kv))) (apply_batch_op D o' kv)"
proof (cases "OpType o'")
  case PutT
  with assms put [of "db kv" "Key o'" "OpEntry o'"] obtain d' where "op_PutEntry D (db kv) (Key o') (OpEntry o') = (None, d')"
    "ok d'" "view d' = (view (db kv))(Key o' \<mapsto> OpEntry o')" by (auto simp: kv_good_def simple_fits_def)
  from attach_refines [OF assms(1) this] PutT show ?thesis by (simp add: apply_batch_op_def spec_simple_def)
next
  case AppendT
  let ?e = "spec_append o' (view (db kv))"
  from AppendT assms put [of "db kv" "Key o'" ?e] obtain d' where "op_PutEntry D (db kv) (Key o') ?e = (None, d')"
    "ok d'" "view d' = (view (db kv))(Key o' \<mapsto> ?e)" by (auto simp: kv_good_def simple_fits_def)
  from attach_refines [OF assms(1) this] AppendT show ?thesis
    by (simp add: apply_batch_op_def spec_simple_def appended_spec [OF assms(1)] Let_def)
next
  case DelT
  with detach_refines [OF assms(1)] show ?thesis by (simp add: apply_batch_op_def spec_simple_def)
next
  case DelWithPrefixT
  with del_prefix_refines [OF assms(1)] show ?thesis by (simp add: apply_batch_op_def spec_simple_def)
qed (use assms(1) in \<open>auto simp: apply_batch_op_def spec_simple_def refines_to_def\<close>)

lemma batch_refines:
  "kv_good ok kv \<Longrightarrow> batch_fits fits os (view (db kv)) \<Longrightarrow> refines_to view ok kv (fold spec_simple os (view (db kv))) (apply_batch D os kv)"
proof (induction os arbitrary: kv)
  case (Cons o' os)
  from batch_op_refines [of kv o'] Cons.prems obtain evs kv1 where 1: "apply_batch_op D o' kv = Inr (evs, kv1)" "kv_good ok kv1"
    "view (db kv1) = spec_simple o' (view (db kv))" "duplicateMap kv1 = duplicateMap kv" "data_only kv kv1"
    by (auto simp: refines_to_def)
  from Cons.IH [OF 1(2)] Cons.prems(2) 1(3) obtain evs' kv2 where "apply_batch D os kv1 = Inr (evs', kv2)" "kv_good ok kv2"
    "view (db kv2) = fold spec_simple os (view (db kv1))" "duplicateMap kv2 = duplicateMap kv1" "data_only kv1 kv2"
    by (auto simp: refines_to_def)
  with 1 data_only_trans show ?case by (auto simp: refines_to_def)
qed (simp add: refines_to_def)

end

context kv_store
begin

lemma put_fatal_refines:
  assumes "kv_good ok kv" "fits (Key o') e"
  shows "refines_to view ok kv ((view (db kv))(Key o' \<mapsto> e))
    (res_bind (set_db_fatal kv (op_PutEntry D (db kv) (Key o') e)) (\<lambda>kv1.
       res_bind (attach_lease o' kv1) (\<lambda>kv2. Inr (evs, kv2))))"
proof -
  from assms put [of "db kv" "Key o'" e] obtain d' where d': "op_PutEntry D (db kv) (Key o') e = (None, d')"
    "ok d'" "view d' = (view (db kv))(Key o' \<mapsto> e)" by (auto simp: kv_good_def)
  from attach_refines [OF assms(1) d', of o' evs] d'(1) show ?thesis by (simp add: set_db_fatal_def set_db_def)
qed

lemma simple_refines:
  assumes "kv_good ok kv" "op_fits fits bc o' (view (db kv))" "OpType o' \<in> {PutT, AppendT, DelT, DelWithPrefixT}" "batchC K = bc"
  shows "refines_to view ok kv (spec_op bc o' (view (db kv))) (apply_op D K o' kv)"
proof (cases "OpType o'")
  case PutT
  with put_fatal_refines [OF assms(1), of o' "OpEntry o'"] assms(2) show ?thesis
    by (simp add: apply_op_def apply_put_def spec_op_def spec_simple_def op_fits_def simple_fits_def)
next
  case AppendT
  with put_fatal_refines [OF assms(1), of o' "spec_append o' (view (db kv))"] assms(2) show ?thesis
    by (simp add: apply_op_def apply_append_def spec_op_def spec_simple_def op_fits_def simple_fits_def
        appended_spec [OF assms(1)] Let_def)
next
  case DelT
  with detach_refines [OF assms(1)] show ?thesis by (simp add: apply_op_def apply_del_def spec_op_def spec_simple_def Let_def)
next
  case DelWithPrefixT
  with del_prefix_refines [OF assms(1)] show ?thesis by (simp add: apply_op_def apply_del_prefix_def spec_op_def spec_simple_def)
qed (use assms(3) in simp_all)

lemma cas_refines:
  assumes "kv_good ok kv" "op_fits fits bc o' (view (db kv))" "OpType o' = CAST"
  shows "\<exists>evs kv'. apply_op D K o' kv = Inr (evs, kv') \<and> kv_good ok kv' \<and> view (db kv') = spec_op bc o' (view (db kv)) \<and>
    duplicateMap kv' = (if cas_succeeds o' (view (db kv))
      then fmupd (ClientId o') \<lparr>dOffset = Offset o', CASResult = True\<rparr> (duplicateMap kv) else duplicateMap kv) \<and> data_only kv kv'"
proof (cases "val_of (view (db kv)) (Key o') = OriValue o'")
  case False
  with assms show ?thesis
    by (simp add: apply_op_def apply_cas_def val_get kv_good_def spec_op_def cas_succeeds_def)
next
  case True
  let ?m = "if Value (OpEntry o') = [] then (view (db kv))(Key o' := None) else (view (db kv))(Key o' \<mapsto> OpEntry o')"
  let ?r = "if Value (OpEntry o') = [] then
             res_bind (detach_lease o' (set_db kv (op_Del D (db kv) (Key o')))) (\<lambda>kv1.
               Inr ([delete_event (Key o')], kv1))
           else
             res_bind (attach_lease o' (set_db kv (op_PutEntry D (db kv) (Key o') (OpEntry o')))) (\<lambda>kv1.
               Inr ([put_event (Key o') (Value (OpEntry o'))], kv1))"
  have "refines_to view ok kv ?m ?r"
  proof (cases "Value (OpEntry o') = []")
    case True
    with detach_refines [OF assms(1)] show ?thesis by simp
  next
    case False
    with assms put [of "db kv" "Key o'" "OpEntry o'"] obtain d' where "op_PutEntry D (db kv) (Key o') (OpEntry o') = (None, d')"
      "ok d'" "view d' = (view (db kv))(Key o' \<mapsto> OpEntry o')" by (auto simp: kv_good_def op_fits_def)
    from attach_refines [OF assms(1) this] False show ?thesis by simp
  qed
  then obtain evs kv1 where "?r = Inr (evs, kv1)" "kv_good ok kv1" "view (db kv1) = ?m" "duplicateMap kv1 = duplicateMap kv"
    "data_only kv kv1" by (auto simp: refines_to_def)
  moreover have "apply_op D K o' kv = res_bind ?r (\<lambda>(evs, kv1).
      Inr (evs, kv1\<lparr>duplicateMap := fmupd (ClientId o') \<lparr>dOffset = Offset o', CASResult = True\<rparr> (duplicateMap kv1)\<rparr>))"
    using True assms by (simp add: apply_op_def apply_cas_def val_get kv_good_def)
  ultimately show ?thesis using True assms(3) by (simp add: spec_op_def cas_succeeds_def kv_good_def data_only_def)
qed

lemma batch_op_fits_refines:
  assumes "kv_good ok kv" "op_fits fits bc o' (view (db kv))" "OpType o' = BatchT" "batchC K = bc"
  shows "refines_to view ok kv (spec_op bc o' (view (db kv))) (apply_op D K o' kv)"
  using assms batch_refines [of kv] by (auto simp: op_fits_def apply_op_def spec_op_def split: option.splits)

lemma apply_op_refines:
  assumes "kv_good ok kv" "op_fits fits bc o' (view (db kv))" "OpType o' \<noteq> EmptyT" "batchC K = bc"
  shows "\<exists>evs kv'. apply_op D K o' kv = Inr (evs, kv') \<and> kv_good ok kv' \<and> view (db kv') = spec_op bc o' (view (db kv)) \<and>
    duplicateMap kv' = (if cas_succeeds o' (view (db kv))
      then fmupd (ClientId o') \<lparr>dOffset = Offset o', CASResult = True\<rparr> (duplicateMap kv) else duplicateMap kv) \<and> data_only kv kv'"
proof -
  consider (s) "OpType o' \<in> {PutT, AppendT, DelT, DelWithPrefixT}" | (b) "OpType o' = BatchT" | (c) "OpType o' = CAST"
    using assms(2,3) by (cases "OpType o'") (auto simp: op_fits_def)
  then show ?thesis
  proof cases
    case c
    with cas_refines [OF assms(1,2)] show ?thesis by blast
  next
    case s
    with simple_refines [OF assms(1,2) _ assms(4)] have "refines_to view ok kv (spec_op bc o' (view (db kv))) (apply_op D K o' kv)" by blast
    then show ?thesis using s by (auto simp: refines_to_def cas_succeeds_def)
  next
    case b
    with batch_op_fits_refines [OF assms(1,2) _ assms(4)] have "refines_to view ok kv (spec_op bc o' (view (db kv))) (apply_op D K o' kv)" by blast
    then show ?thesis using b by (auto simp: refines_to_def cas_succeeds_def)
  qed
qed

lemma command_refines:
  assumes "kv_good ok kv" "dec (opC (raftC K)) (Command m) = Some o'" "op_fits fits (batchC K) o' (view (db kv))"
  shows "\<exists>evs kv'. HandleApplychCommand D K m kv = Inr (evs, kv') \<and> kv_good ok kv' \<and>
    kv_abs view kv' = spec_apply (batchC K) o' (kv_abs view kv) \<and> data_only kv kv'"
proof (cases "OpType o' = EmptyT \<or> sint (Offset o') \<le> sint (dOffset (dup_of kv (ClientId o')))")
  case True
  with assms(1,2) show ?thesis
    by (auto simp: HandleApplychCommand_def op_Unmarshal_def spec_apply_def kv_abs_def)
next
  case False
  let ?kv1 = "kv\<lparr>duplicateMap := fmupd (ClientId o') \<lparr>dOffset = Offset o', CASResult = False\<rparr> (duplicateMap kv)\<rparr>"
  have "kv_good ok ?kv1" "op_fits fits (batchC K) o' (view (db ?kv1))" using assms by (simp_all add: kv_good_def)
  from apply_op_refines [OF this _ refl] False obtain evs kv' where a: "apply_op D K o' ?kv1 = Inr (evs, kv')" "kv_good ok kv'"
    "view (db kv') = spec_op (batchC K) o' (view (db kv))" "data_only ?kv1 kv'"
    and d: "duplicateMap kv' = (if cas_succeeds o' (view (db kv))
      then fmupd (ClientId o') \<lparr>dOffset = Offset o', CASResult = True\<rparr> (duplicateMap ?kv1) else duplicateMap ?kv1)" by auto
  have "HandleApplychCommand D K m kv = Inr (evs, kv')"
    using assms(2) False a(1) by (simp add: HandleApplychCommand_def op_Unmarshal_def)
  moreover have "dup_of kv' = (dup_of kv)(ClientId o' := \<lparr>dOffset = Offset o', CASResult = cas_succeeds o' (view (db kv))\<rparr>)"
    using d by (auto simp: dup_of_def fun_eq_iff)
  ultimately show ?thesis using a False by (auto simp: kv_abs_def spec_apply_def data_only_def)
qed

end

lemma lease_dup:
  "attach_lease o' kv = Inr kv' \<Longrightarrow> duplicateMap kv' = duplicateMap kv"
  "detach_lease o' kv = Inr kv' \<Longrightarrow> duplicateMap kv' = duplicateMap kv"
  by (auto simp: attach_lease_def detach_lease_def res_simps split: if_splits)

lemma set_db_dup:
  "duplicateMap (set_db kv r) = duplicateMap kv"
  "set_db_fatal kv r = Inr kv' \<Longrightarrow> duplicateMap kv' = duplicateMap kv"
  "del_prefix_db D kv p = Inr kv' \<Longrightarrow> duplicateMap kv' = duplicateMap kv"
  by (auto simp: set_db_def set_db_fatal_def del_prefix_db_def split: option.splits)

lemma batch_op_dup: "apply_batch_op D o' kv = Inr (evs, kv') \<Longrightarrow> duplicateMap kv' = duplicateMap kv"
  by (auto simp: apply_batch_op_def Let_def res_simps set_db_dup dest!: lease_dup set_db_dup(3) split: optype.splits)

lemma batch_dup: "apply_batch D os kv = Inr (evs, kv') \<Longrightarrow> duplicateMap kv' = duplicateMap kv"
  by (induction os arbitrary: kv evs) (auto simp: res_simps dest!: batch_op_dup)

lemma apply_op_dup:
  assumes "apply_op D K o' kv = Inr (evs, kv')"
  shows "duplicateMap kv' = duplicateMap kv \<or>
    duplicateMap kv' = fmupd (ClientId o') \<lparr>dOffset = Offset o', CASResult = True\<rparr> (duplicateMap kv)"
  using assms
  by (auto simp: apply_op_def apply_put_def apply_append_def apply_del_def apply_del_prefix_def apply_cas_def Let_def res_simps
      set_db_dup dest!: lease_dup set_db_dup(2) set_db_dup(3) batch_dup split: optype.splits option.splits if_splits)

lemma new_db_ok: "db_ok B G cnt at d \<Longrightarrow> db_ok B G cnt at (NewDB B path)"
  using bolt_new [of B cnt at] by (auto simp: db_ok_def db_wf_def NewDB_def bolt_laws_def)

lemma demo_put_hyps:
  "kv_good (db_ok fm_bolt (pin_codec [OpEntry (put_op demo_put)]) sorted_list_of_fmap (\<lambda>b c xs. c = xs)) demo_kv"
  "dec (opC (raftC demo_K)) (Command (demo_msg (put_op demo_put))) = Some (put_op demo_put)"
  "op_fits (entry_fits (pin_codec [OpEntry (put_op demo_put)])) (batchC demo_K) (put_op demo_put)
     (db_map sorted_list_of_fmap (pin_codec [OpEntry (put_op demo_put)]) (db demo_kv))"
proof -
  show "kv_good (db_ok fm_bolt (pin_codec [OpEntry (put_op demo_put)]) sorted_list_of_fmap (\<lambda>b c xs. c = xs)) demo_kv"
    using fm_new_ok [of "pin_codec [OpEntry (put_op demo_put)]" "''p''"] by (simp add: kv_good_def demo_kv_def NewLeaseManager_def)
qed (simp_all add: demo_K_def demo_msg_def op_Marshal_def count_codecs_def op_fits_def simple_fits_def put_op_def demo_put_def
    entry_fits_def fits_bolt_def pin_codec_def)

section \<open>Properties\<close>







text \<open>
  \<^verbatim>\<open>Get\<close> never succeeds: \<^verbatim>\<open>CheckIfDepose\<close> is always true, so that every read is answered with
  \<^verbatim>\<open>ErrWrongLeader\<close> or \<^verbatim>\<open>ErrWaitForRecover\<close> and without values, on the leader too.
\<close>

theorem get_never_ok:
  assumes "kv_Get D K args kv = Inr (r, kv')"
  shows "(grErr r = ErrWrongLeader \<or> grErr r = ErrWaitForRecover) \<and> grValue r = []"
  using assms by (auto simp: kv_Get_def Let_def CheckIfDepose_def res_simps split: if_splits prod.splits)

theorem get_never_ok_witness:
  "\<exists>r. kv_Get (bolt_ops fm_bolt count_codec ''p'') demo_K \<lparr>gaKey = ''k'', gaClientId = 7, gaLatestOffset = 1, gaWithPrefix = False, gaOp = GetT, gaPageSize = 0, gaPageIndex = 0\<rparr>
      (demo_kv\<lparr>kv_rf := (kv_rf demo_kv)\<lparr>IisBack := True\<rparr>\<rparr>) = Inr (r, demo_kv\<lparr>kv_rf := (kv_rf demo_kv)\<lparr>IisBack := True\<rparr>\<rparr>) \<and>
    grErr r \<noteq> ErrOK \<and> grValue r = []"
proof -
  let ?kv = "demo_kv\<lparr>kv_rf := (kv_rf demo_kv)\<lparr>IisBack := True\<rparr>\<rparr>" and
    ?a = "\<lparr>gaKey = ''k'', gaClientId = 7, gaLatestOffset = 1, gaWithPrefix = False, gaOp = GetT, gaPageSize = 0, gaPageIndex = 0\<rparr>"
  let ?r = "\<lparr>grErr = ErrWrongLeader, grLeaderId = GetleaderId (kv_rf ?kv), grServerId = kv_me ?kv, grValue = []\<rparr>"
  have g: "kv_Get (bolt_ops fm_bolt count_codec ''p'') demo_K ?a ?kv = Inr (?r, ?kv)"
    by (simp add: kv_Get_def CheckIfDepose_def GetState_def demo_kv_def)
  from get_never_ok [OF g] g show ?thesis by (intro exI [of _ ?r]) simp
qed

text \<open>What \<^verbatim>\<open>PutAppend\<close> does on a leader that has applied its whole log: it answers at the first turn of its loop.\<close>

lemma PutAppend_at_once:
  assumes "PutAppend K args later kv = Inr (r, kv')" "state (kv_rf kv) = Leader" "\<not> kv_dead kv"
    "put_duplicate args kv = None" "lastAppliedIndex kv = lastIndex (kv_rf kv) + 1"
  shows "r = \<lparr>prErr = ErrOK, prLeaderId = GetleaderId (kv_rf kv), prServerId = kv_me kv\<rparr>"
    and "\<exists>f. kv' = kv\<lparr>kv_rf := (kv_rf kv)\<lparr>rlog := rlog (kv_rf kv) @
      [\<lparr>LogTerm = currentTerm (kv_rf kv), LogValue = op_Marshal (opC (raftC K)) (put_op args)\<rparr>], disk := f\<rparr>\<rparr>"
proof -
  let ?e = "\<lparr>LogTerm = currentTerm (kv_rf kv), LogValue = op_Marshal (opC (raftC K)) (put_op args)\<rparr>"
  from assms(1,2,4) obtain res rf where
    s: "raft_Start (raftC K) (op_Marshal (opC (raftC K)) (put_op args)) (kv_rf kv) = Inr (res, rf)"
    by (auto simp: PutAppend_def put_begin_def GetState_def res_bind_Inr_iff Let_def)
  with assms(2) obtain f where rf: "rf = (kv_rf kv)\<lparr>rlog := rlog (kv_rf kv) @ [?e], disk := f\<rparr>"
    and res: "res = (lastIndex (kv_rf kv) + 1, currentTerm (kv_rf kv), True)"
    by (auto simp: raft_Start_def Let_def persistEntry_def raft_write_def res_bind_Inr_iff split: sum.splits)
  have "put_poll args (lastIndex (kv_rf kv) + 1) (currentTerm (kv_rf kv)) (kv\<lparr>kv_rf := rf\<rparr>) = Some ErrOK"
    using assms(2,4,5) rf by (simp add: put_poll_def put_duplicate_def dup_of_def GetTerm_def GetState_def)
  with assms s res rf show "r = \<lparr>prErr = ErrOK, prLeaderId = GetleaderId (kv_rf kv), prServerId = kv_me kv\<rparr>"
    and "\<exists>f. kv' = kv\<lparr>kv_rf := (kv_rf kv)\<lparr>rlog := rlog (kv_rf kv) @ [?e], disk := f\<rparr>\<rparr>"
    by (auto simp: PutAppend_def put_begin_def GetState_def res_bind_Inr_iff Let_def)
qed

text \<open>
  A write is acknowledged before it is committed: \<^verbatim>\<open>Start\<close> returns a zero-based index while
  \<^verbatim>\<open>lastAppliedIndex\<close> counts from one, so on a leader that has applied its whole log \<^verbatim>\<open>PutAppend\<close> answers
  \<^verbatim>\<open>ErrOK\<close> at the first turn of its loop, with the new entry in its own log only and past the commit
  index. For a compare-and-swap the answer is \<^verbatim>\<open>ErrOK\<close> whether or not it will succeed.
\<close>

theorem put_acknowledged_uncommitted:
  assumes "PutAppend K args later kv = Inr (r, kv')" "state (kv_rf kv) = Leader" "\<not> kv_dead kv"
    "put_duplicate args kv = None" "lastAppliedIndex kv = lastIndex (kv_rf kv) + 1" "commitIndex (kv_rf kv) \<le> lastIndex (kv_rf kv)"
  shows "prErr r = ErrOK \<and>
    rlog (kv_rf kv') = rlog (kv_rf kv) @ [\<lparr>LogTerm = currentTerm (kv_rf kv), LogValue = op_Marshal (opC (raftC K)) (put_op args)\<rparr>] \<and>
    commitIndex (kv_rf kv') < lastIndex (kv_rf kv')"
  using PutAppend_at_once [OF assms(1-5)] assms(6) by (auto simp: lastIndex_def)

theorem put_acknowledged_uncommitted_witness:
  "\<exists>r kv'. PutAppend demo_K demo_put [] demo_kv = Inr (r, kv') \<and> prErr r = ErrOK \<and> commitIndex (kv_rf kv') < lastIndex (kv_rf kv')"
proof -
  have "\<exists>x. PutAppend demo_K demo_put [] demo_kv = Inr x"
    by (simp add: PutAppend_def put_begin_def GetState_def demo_kv_def put_duplicate_def dup_of_def demo_put_def Let_def
        raft_Start_def zero_raft_def persistEntry_def raft_write_def wal_Write_def fresh_wal_def SendAppendEntriesToAll_def
        upt_rec numeral_3_eq_3 go_nth_def)
  then obtain r kv' where p: "PutAppend demo_K demo_put [] demo_kv = Inr (r, kv')" by auto
  have c: "state (kv_rf demo_kv) = Leader" "\<not> kv_dead demo_kv" "put_duplicate demo_put demo_kv = None"
    "lastAppliedIndex demo_kv = lastIndex (kv_rf demo_kv) + 1" "commitIndex (kv_rf demo_kv) \<le> lastIndex (kv_rf demo_kv)"
    by (simp_all add: demo_kv_def zero_raft_def put_duplicate_def dup_of_def demo_put_def lastIndex_def)
  from put_acknowledged_uncommitted [OF p c] p show ?thesis by blast
qed



end
