(* ===== verification/RaftElection.thy ===== *)
theory RaftElection
  imports RaftSteps
begin

text \<open>
  Elections in a cluster of peers of \<^verbatim>\<open>src/raft/raft.go\<close>. A cluster is the peers, the elections their loops
  are running, and the messages of the elections; a step is one locked section of one peer. Requests
  and replies may be delayed, reordered, repeated and lost, and every other message may be anything. Crashes are added
  in \<open>RaftCrash\<close>.

  The proof has to cope with one liberty of the code: a candidate that gets an \<^verbatim>\<open>AppendEntries\<close> of its own
  term forgets the vote it gave itself and may vote again in that term.
\<close>

section \<open>Definitions\<close>

text \<open>
  The operations of a peer that are not part of an election, with any inputs.
\<close>

inductive other_step :: "codecs \<Rightarrow> raft \<Rightarrow> raft \<Rightarrow> bool" for C where
  appended: "AppendEntries C now args rf = Inr (r, rf') \<Longrightarrow> other_step C rf rf'"
| installed: "SnapshotInstall C now sargs rf = Inr (sr, rf') \<Longrightarrow> other_step C rf rf'"
| snapshotted: "raft_Snapshot C i d rf = Inr rf' \<Longrightarrow> other_step C rf rf'"
| started: "raft_Start C cmd rf = Inr (res, rf') \<Longrightarrow> other_step C rf rf'"
| append_answered: "append_reply C server args reply rf = Inr (ares, rf') \<Longrightarrow> other_step C rf rf'"
| install_answered: "snapshot_reply C server sargs sreply rf = Inr rf' \<Longrightarrow> other_step C rf rf'"
| beat: "appendEntries_turn now rf = Inr (ks, rf') \<Longrightarrow> other_step C rf rf'"
| handed_over: "other_step C rf (Applyer rf)"
| stopped: "other_step C rf (raft_Kill rf)"

text \<open>
  \<open>pending\<close> is the request of the election the loop of a peer is in, \<open>asked\<close> and \<open>replied\<close> are the
  messages sent, and \<open>elected\<close> records who became leader in which term.
\<close>

record cluster =
  node :: "nat \<Rightarrow> raft"
  pending :: "nat \<Rightarrow> rv_args option"
  asked :: "rv_args set"
  replied :: "(nat \<times> rv_args \<times> rv_reply) set"
  elected :: "(int \<times> nat) set"

text \<open>
  The results \<open>rs\<close> a candidate has received from its goroutines when it stops counting: at most one from each peer, and a reply
  is one the peer gave to the request.
\<close>

definition received :: "cluster \<Rightarrow> nat \<Rightarrow> rv_args \<Rightarrow> (nat \<times> rv_reply option) list \<Rightarrow> bool" where
  "received c n args rs \<longleftrightarrow> distinct (map fst rs) \<and>
     (\<forall>(q, r) \<in> set rs. q < n \<and> int q \<noteq> rvCandidateId args \<and> (\<forall>v. r = Some v \<longrightarrow> (q, args, v) \<in> replied c))"

definition tally :: "nat \<Rightarrow> (nat \<times> rv_reply option) list \<Rightarrow> vote_count" where
  "tally n rs = collect_votes n (map (\<lambda>(q, r). VoteResult r) rs @ [VoteTimeout]) init_votes"

inductive vote_step :: "codecs \<Rightarrow> nat \<Rightarrow> cluster \<Rightarrow> cluster \<Rightarrow> bool" for C n where
  waits: "p < n \<Longrightarrow> pending c p = None \<Longrightarrow> election_begin C now ms (node c p) = Inr (None, rf') \<Longrightarrow>
    vote_step C n c (c\<lparr>node := (node c)(p := rf')\<rparr>)"
| starts: "p < n \<Longrightarrow> pending c p = None \<Longrightarrow> election_begin C now ms (node c p) = Inr (Some args, rf') \<Longrightarrow>
    vote_step C n c (c\<lparr>node := (node c)(p := rf'), pending := (pending c)(p := Some args), asked := insert args (asked c)\<rparr>)"
| decides: "q < n \<Longrightarrow> args \<in> asked c \<Longrightarrow> rvCandidateId args \<noteq> int q \<Longrightarrow> RequestVote C now args (node c q) = Inr (r, rf') \<Longrightarrow>
    vote_step C n c (c\<lparr>node := (node c)(q := rf'), replied := insert (q, args, r) (replied c)\<rparr>)"
| ends: "p < n \<Longrightarrow> pending c p = Some args \<Longrightarrow> received c n args rs \<Longrightarrow>
    election_end C now (tally (peers (node c p)) rs) (node c p) = Inr (won, rf') \<Longrightarrow>
    vote_step C n c (c\<lparr>node := (node c)(p := rf'), pending := (pending c)(p := None),
      elected := (if won then insert (currentTerm (node c p), p) (elected c) else elected c)\<rparr>)"

text \<open>Everything that happens in a cluster, as far as elections are concerned.\<close>

inductive cluster_step :: "codecs \<Rightarrow> nat \<Rightarrow> cluster \<Rightarrow> cluster \<Rightarrow> bool" for C n where
  election: "vote_step C n c c' \<Longrightarrow> cluster_step C n c c'"
| other: "p < n \<Longrightarrow> other_step C (node c p) rf' \<Longrightarrow> cluster_step C n c (c\<lparr>node := (node c)(p := rf')\<rparr>)"

text \<open>The peers as \<^verbatim>\<open>Make\<close> leaves them.\<close>

definition cluster_start :: "nat \<Rightarrow> cluster \<Rightarrow> bool" where
  "cluster_start n c \<longleftrightarrow> (\<forall>p < n. me (node c p) = int p \<and> peers (node c p) = n \<and> state (node c p) = Follower \<and> pending c p = None) \<and>
     asked c = {} \<and> replied c = {} \<and> elected c = {}"

text \<open>
  What a step that is no vote does to the term and the vote: it enters a newer term as a follower, or
  leaves both alone, or drops a candidacy.
\<close>

definition keeps_vote :: "raft \<Rightarrow> raft \<Rightarrow> bool" where
  "keeps_vote rf rf' \<longleftrightarrow> me rf' = me rf \<and> peers rf' = peers rf \<and>
     (currentTerm rf < currentTerm rf' \<and> state rf' = Follower \<or>
      currentTerm rf' = currentTerm rf \<and>
        (state rf' = state rf \<and> votedFor rf' = votedFor rf \<or> state rf = Candidate \<and> state rf' = Follower))"

text \<open>
  A granted vote binds the peer for the term, and a leader stays leader for the rest of its term, or a follower that
  has voted for itself once it has crashed.
\<close>

definition voted :: "rv_args \<Rightarrow> raft \<Rightarrow> bool" where
  "voted a rf \<longleftrightarrow> rvTerm a < currentTerm rf \<or>
     currentTerm rf = rvTerm a \<and> votedFor rf = rvCandidateId a \<and> state rf = Follower"

definition reigns :: "int \<Rightarrow> raft \<Rightarrow> bool" where
  "reigns T rf \<longleftrightarrow> T < currentTerm rf \<or> currentTerm rf = T \<and> (state rf = Leader \<or> state rf = Follower \<and> votedFor rf = me rf)"

definition granted :: "cluster \<Rightarrow> nat \<Rightarrow> int \<Rightarrow> int \<Rightarrow> bool" where
  "granted c q T x \<longleftrightarrow> (\<exists>a r. (q, a, r) \<in> replied c \<and> rvrVoteGranted r \<and> rvTerm a = T \<and> rvCandidateId a = x)"

definition majority :: "nat \<Rightarrow> nat set \<Rightarrow> bool" where
  "majority n Q \<longleftrightarrow> Q \<subseteq> {..<n} \<and> n div 2 < card Q"

text \<open>A majority that a leader won: itself and peers that granted it their votes.\<close>

definition backed :: "cluster \<Rightarrow> nat \<Rightarrow> int \<Rightarrow> nat \<Rightarrow> bool" where
  "backed c n T p \<longleftrightarrow> (\<exists>Q. majority n Q \<and> (\<forall>q \<in> Q - {p}. granted c q T (int p)))"

definition peers_inv :: "nat \<Rightarrow> cluster \<Rightarrow> bool" where
  "peers_inv n c \<longleftrightarrow> (\<forall>p < n. me (node c p) = int p \<and> peers (node c p) = n \<and>
     (state (node c p) \<noteq> Follower \<longrightarrow> votedFor (node c p) = int p))"

definition pending_inv :: "nat \<Rightarrow> cluster \<Rightarrow> bool" where
  "pending_inv n c \<longleftrightarrow> (\<forall>p < n. \<forall>args. pending c p = Some args \<longrightarrow> rvCandidateId args = int p \<and>
     (state (node c p) = Candidate \<longrightarrow> currentTerm (node c p) = rvTerm args))"

definition votes_inv :: "nat \<Rightarrow> cluster \<Rightarrow> bool" where
  "votes_inv n c \<longleftrightarrow> (\<forall>a \<in> asked c. 0 \<le> rvCandidateId a) \<and>
     (\<forall>(q, a, r) \<in> replied c. q < n \<and> a \<in> asked c \<and> (rvrVoteGranted r \<longrightarrow> voted a (node c q))) \<and>
     (\<forall>q T x y. granted c q T x \<longrightarrow> granted c q T y \<longrightarrow> x = y)"

definition elected_inv :: "nat \<Rightarrow> cluster \<Rightarrow> bool" where
  "elected_inv n c \<longleftrightarrow>
     (\<forall>(T, p) \<in> elected c. p < n \<and> reigns T (node c p) \<and> backed c n T p \<and> (\<forall>x. \<not> granted c p T x)) \<and>
     (\<forall>p < n. state (node c p) = Leader \<longrightarrow> (currentTerm (node c p), p) \<in> elected c)"

definition cluster_inv :: "nat \<Rightarrow> cluster \<Rightarrow> bool" where
  "cluster_inv n c \<longleftrightarrow> peers_inv n c \<and> pending_inv n c \<and> votes_inv n c \<and> elected_inv n c"

text \<open>What any step of a peer keeps.\<close>

definition succeeds :: "nat \<Rightarrow> nat \<Rightarrow> raft \<Rightarrow> raft \<Rightarrow> bool" where
  "succeeds n p rf rf' \<longleftrightarrow> me rf' = int p \<and> peers rf' = n \<and> (state rf' \<noteq> Follower \<longrightarrow> votedFor rf' = int p) \<and>
     (\<forall>a. 0 \<le> rvCandidateId a \<longrightarrow> voted a rf \<longrightarrow> voted a rf') \<and> (\<forall>T. reigns T rf \<longrightarrow> reigns T rf')"

text \<open>Three peers that have just started.\<close>

definition demo_peer :: "nat \<Rightarrow> raft" where
  "demo_peer p = (zero_raft (int p) (fresh_wal (path_join ''data'' (''raft-'' @ itoa (int p)))) fresh_fs)\<lparr>peers := 3, nextIndex := [0, 0, 0], matchIndex := [0, 0, 0], applyCh := Some []\<rparr>"

definition demo_cluster :: cluster where
  "demo_cluster = \<lparr>node = demo_peer, pending = (\<lambda>_. None), asked = {}, replied = {}, elected = {}\<rparr>"

text \<open>What the run of the three peers needs to know after the election of peer 0 in term 1.\<close>

definition demo_elected :: "cluster \<Rightarrow> bool" where
  "demo_elected b \<longleftrightarrow> state (node b 0) = Leader \<and> currentTerm (node b 0) = 1 \<and> rlog (node b 0) = [] \<and> nextIndex (node b 0) = [0, 0, 0] \<and>
     matchIndex (node b 0) = [-1, -1, -1] \<and> disk_up (node b 0) \<and>
     currentTerm (node b 1) = 1 \<and> rlog (node b 1) = [] \<and> disk_up (node b 1) \<and> node b 2 = demo_peer 2"

text \<open>A vote: what \<^verbatim>\<open>RequestVote\<close> does when it grants one.\<close>

definition votes_for :: "rv_args \<Rightarrow> raft \<Rightarrow> raft \<Rightarrow> bool" where
  "votes_for args rf rf' \<longleftrightarrow> me rf' = me rf \<and> peers rf' = peers rf \<and> currentTerm rf' = rvTerm args \<and> votedFor rf' = rvCandidateId args \<and>
     (currentTerm rf < rvTerm args \<and> state rf' = Follower \<or>
      currentTerm rf = rvTerm args \<and> state rf' = state rf \<and> (votedFor rf = -1 \<or> votedFor rf = rvCandidateId args))"

section \<open>Lemmas\<close>

lemma keeps_vote_same [simp]:
  "me rf' = me rf \<Longrightarrow> peers rf' = peers rf \<Longrightarrow> currentTerm rf' = currentTerm rf \<Longrightarrow> state rf' = state rf \<Longrightarrow>
   votedFor rf' = votedFor rf \<Longrightarrow> keeps_vote rf rf'"
  by (simp add: keeps_vote_def)

lemma CopyEntries_vote:
  assumes "CopyEntries C args rf = Inr rf'" "lastIncludeIndex rf \<le> aePrevLogIndex args" "aePrevLogIndex args \<le> lastIndex rf"
  shows "me rf' = me rf \<and> peers rf' = peers rf \<and> currentTerm rf' = currentTerm rf \<and> state rf' = state rf \<and> votedFor rf' = votedFor rf"
  using assms by (rule CopyEntries_Inr) (auto simp: frame_simps)

lemma AppendEntries_keeps_vote:
  assumes "AppendEntries C now args rf = Inr (r, rf')"
  shows "keeps_vote rf rf'"
  using assms
proof (cases rule: AppendEntries_Inr)
  case (accept f s v rf3)
  have i: "lastIncludeIndex rf3 \<le> aePrevLogIndex args" "aePrevLogIndex args \<le> lastIndex rf3"
    using accept(3,4,5) by (simp_all add: lastIndex_def)
  from CopyEntries_vote [OF accept(7) i] accept(1,3,8) show ?thesis by (auto simp: keeps_vote_def)
qed (auto simp: keeps_vote_def)

lemma SnapshotInstall_keeps_vote:
  assumes "SnapshotInstall C now args rf = Inr (r, rf')"
  shows "keeps_vote rf rf'"
  using assms by (rule SnapshotInstall_Inr) (auto simp: keeps_vote_def)

lemma other_step_keeps_vote: "other_step C rf rf' \<Longrightarrow> keeps_vote rf rf'"
proof (induction rule: other_step.induct)
  case (append_answered server args reply rf ares rf')
  from append_reply_Inr [OF this] show ?case
    by (elim disjE exE conjE) (auto simp: keeps_vote_def dest!: updateCommitIndex_frame)
next
  case (install_answered server sargs sreply rf rf')
  from snapshot_reply_Inr [OF this] show ?case
    by (elim disjE exE conjE) (auto simp: keeps_vote_def dest!: updateCommitIndex_frame)
next
  case (snapshotted i d rf rf')
  then show ?case by (rule raft_Snapshot_Inr) auto
next
  case (handed_over rf)
  then show ?case by (auto simp: Applyer_def split: list.splits option.splits)
qed (auto simp: AppendEntries_keeps_vote SnapshotInstall_keeps_vote raft_Start_def Let_def res_simps appendEntries_turn_def
    raft_Kill_def split: if_splits)

lemma RequestVote_vote:
  assumes "RequestVote C now args rf = Inr (r, rf')"
  shows "if rvrVoteGranted r then votes_for args rf rf' else keeps_vote rf rf'"
proof (cases "rvTerm args < currentTerm rf")
  case True
  with assms show ?thesis by (auto simp: RequestVote_def)
next
  case False
  from False assms obtain rf1 where 1: "(if currentTerm rf < rvTerm args
         then persistState C (rf\<lparr>currentTerm := rvTerm args, state := Follower, votedFor := -1, leaderId := -1\<rparr>)
         else Inr rf) = Inr rf1"
    and 2: "rvrVoteGranted r \<and> (votedFor rf1 = -1 \<or> votedFor rf1 = rvCandidateId args) \<and>
        persistState C (rf1\<lparr>votedFor := rvCandidateId args, lastHearBeatTime := now\<rparr>) = Inr rf' \<or>
      \<not> rvrVoteGranted r \<and> rf' = rf1"
    unfolding RequestVote_def Let_def by (auto simp: res_bind_Inr_iff split: if_splits)
  have t: "currentTerm rf < rvTerm args \<and> currentTerm rf1 = rvTerm args \<and> state rf1 = Follower \<and> me rf1 = me rf \<and> peers rf1 = peers rf \<or>
      rvTerm args = currentTerm rf \<and> rf1 = rf"
    using 1 False by (auto simp: persistState_Inr_iff split: if_splits)
  from 2 t show ?thesis
    by (elim disjE conjE) (auto simp: votes_for_def keeps_vote_def persistState_Inr_iff)
qed

lemma RequestVote_log:
  assumes "RequestVote C now args rf = Inr (r, rf')"
  shows "rlog rf' = rlog rf \<and> lastIncludeIndex rf' = lastIncludeIndex rf \<and> lastIncludeTerm rf' = lastIncludeTerm rf \<and>
    commitIndex rf' = commitIndex rf \<and> matchIndex rf' = matchIndex rf"
  using assms by (rule RequestVote_Inr) simp

lemma election_begin_vote:
  assumes "election_begin C now ms rf = Inr (req, rf')"
  shows "me rf' = me rf \<and> peers rf' = peers rf \<and>
    (case req of
       None \<Rightarrow> rf' = rf
     | Some args \<Rightarrow> state rf \<noteq> Leader \<and> state rf' = Candidate \<and> currentTerm rf' = currentTerm rf + 1 \<and> votedFor rf' = me rf \<and>
         rvTerm args = currentTerm rf' \<and> rvCandidateId args = me rf)"
  using assms by (auto simp: election_begin_def Let_def res_simps split: if_splits role.splits)

text \<open>Sets of peers of which any two have a member in common.\<close>

locale quorum_system =
  fixes quorum :: "nat set \<Rightarrow> bool"
  assumes intersect: "quorum Q \<Longrightarrow> quorum Q' \<Longrightarrow> Q \<inter> Q' \<noteq> {}"
begin

text \<open>
  Whoever has a quorum of supporters is unique, if nobody supports two, and a member that is elected supports nobody else.
\<close>

lemma unique_winner:
  assumes "quorum Q" "quorum Q'" "\<And>q. q \<in> Q \<Longrightarrow> q \<noteq> p \<Longrightarrow> supports q p" "\<And>q. q \<in> Q' \<Longrightarrow> q \<noteq> p' \<Longrightarrow> supports q p'"
    "\<And>q x y. supports q x \<Longrightarrow> supports q y \<Longrightarrow> x = y" "\<And>x. \<not> supports p x" "\<And>x. \<not> supports p' x"
  shows "p = p'"
proof -
  from intersect [OF assms(1,2)] obtain q where q: "q \<in> Q" "q \<in> Q'" by auto
  show ?thesis
  proof (rule ccontr)
    assume "p \<noteq> p'"
    then consider "q = p" | "q = p'" | "q \<noteq> p" "q \<noteq> p'" by blast
    then show False using q assms \<open>p \<noteq> p'\<close> by cases metis+
  qed
qed

end

subsection \<open>The invariant of the cluster\<close>

interpretation maj: quorum_system "majority n" for n
proof
  fix Q Q' assume q: "majority n Q" "majority n Q'"
  then have f: "finite Q" "finite Q'" by (auto simp: majority_def intro: finite_subset)
  have "card (Q \<union> Q') \<le> n" using q card_mono [of "{..<n}" "Q \<union> Q'"] by (auto simp: majority_def)
  with q f show "Q \<inter> Q' \<noteq> {}" using card_Un_Int [OF f] by (auto simp: majority_def)
qed

lemma cluster_start_inv: "cluster_start n c \<Longrightarrow> cluster_inv n c"
  by (auto simp: cluster_start_def cluster_inv_def peers_inv_def pending_inv_def votes_inv_def elected_inv_def granted_def)

lemma keeps_vote_succeeds:
  assumes "peers_inv n c" "p < n" "keeps_vote (node c p) rf'"
  shows "succeeds n p (node c p) rf'"
  using assms by (auto simp: succeeds_def peers_inv_def keeps_vote_def voted_def reigns_def)

lemma votes_for_succeeds:
  assumes "peers_inv n c" "p < n" "votes_for args (node c p) rf'" "rvCandidateId args \<noteq> int p" "0 \<le> rvCandidateId args"
  shows "succeeds n p (node c p) rf'" "state rf' = Follower"
proof -
  have s: "state (node c p) = Follower" if "currentTerm (node c p) = rvTerm args"
    using assms that by (auto simp: votes_for_def peers_inv_def)
  then show f: "state rf' = Follower" using assms(3) by (auto simp: votes_for_def)
  show "succeeds n p (node c p) rf'" unfolding succeeds_def
    using assms s f by (auto simp: votes_for_def peers_inv_def voted_def reigns_def)
qed

lemma begin_succeeds:
  assumes "peers_inv n c" "p < n" "election_begin C now ms (node c p) = Inr (req, rf')"
  shows "succeeds n p (node c p) rf'"
  using election_begin_vote [OF assms(3)] assms(1,2)
  by (auto simp: succeeds_def peers_inv_def voted_def reigns_def split: option.splits)

lemma end_succeeds:
  assumes "peers_inv n c" "p < n" "election_end C now v (node c p) = Inr (won, rf')"
  shows "succeeds n p (node c p) rf'"
  using assms(3)
proof (cases rule: election_end_Inr)
  case (won rf0 rf1)
  from updateCommitIndex_frame [OF won(2)] won(1,3,5) assms(1,2) show ?thesis
    by (auto simp: succeeds_def peers_inv_def voted_def reigns_def)
qed (use assms(1,2) in \<open>auto simp: succeeds_def peers_inv_def voted_def reigns_def\<close>)

text \<open>The parts of the invariant that only need a peer to move on.\<close>

lemma peers_inv_update: "peers_inv n c \<Longrightarrow> succeeds n p (node c p) rf' \<Longrightarrow> node c' = (node c)(p := rf') \<Longrightarrow> peers_inv n c'"
  by (auto simp: peers_inv_def succeeds_def)

lemma votes_inv_update:
  assumes "votes_inv n c" "succeeds n p (node c p) rf'" "node c' = (node c)(p := rf')" "replied c' = replied c"
    "asked c \<subseteq> asked c'" "\<forall>a \<in> asked c' - asked c. 0 \<le> rvCandidateId a"
  shows "votes_inv n c'"
proof -
  have "granted c' = granted c" using assms(4) by (intro ext) (simp add: granted_def)
  moreover have "q < n \<and> a \<in> asked c' \<and> (rvrVoteGranted r \<longrightarrow> voted a (node c' q))" if "(q, a, r) \<in> replied c'" for q a r
    using that assms by (fastforce simp: votes_inv_def succeeds_def)
  ultimately show ?thesis using assms(1,5,6) by (auto simp: votes_inv_def)
qed

lemma elected_inv_update:
  assumes "elected_inv n c" "succeeds n p (node c p) rf'" "node c' = (node c)(p := rf')" "replied c' = replied c" "elected c' = elected c"
    "state rf' = Leader \<Longrightarrow> state (node c p) = Leader \<and> currentTerm rf' = currentTerm (node c p)"
  shows "elected_inv n c'"
proof -
  have g: "granted c' = granted c" "backed c' = backed c" using assms(4) by (auto simp: granted_def backed_def fun_eq_iff)
  have r: "q < n \<and> reigns T (node c' q) \<and> backed c' n T q \<and> (\<forall>x. \<not> granted c' q T x)" if "(T, q) \<in> elected c'" for T q
  proof -
    from that assms(1,5) have o: "q < n" "reigns T (node c q)" "backed c n T q" "\<forall>x. \<not> granted c q T x"
      by (auto simp: elected_inv_def)
    have "reigns T (node c' q)" using o(2) assms(2,3) by (cases "q = p") (simp_all add: succeeds_def)
    with o g show ?thesis by simp
  qed
  have "(currentTerm (node c' q), q) \<in> elected c'" if "q < n" "state (node c' q) = Leader" for q
    using that assms(1,3,5,6) by (cases "q = p") (auto simp: elected_inv_def)
  with r show ?thesis by (auto simp: elected_inv_def)
qed

lemma granted_mono: "granted c q T x \<Longrightarrow> replied c \<subseteq> replied c' \<Longrightarrow> granted c' q T x"
  by (auto simp: granted_def)

lemma backed_mono: "backed c n T p \<Longrightarrow> replied c \<subseteq> replied c' \<Longrightarrow> backed c' n T p"
  unfolding backed_def by (elim exE conjE, intro exI conjI, assumption+) (auto intro: granted_mono)

lemma collect_votes_count:
  "voteCount (collect_votes n (map (\<lambda>(q, r). VoteResult r) rs @ [VoteTimeout]) v)
     \<le> voteCount v + length (filter (\<lambda>(q, r). \<exists>x. r = Some x \<and> rvrVoteGranted x) rs)"
proof (induction rs arbitrary: v)
  case (Cons e rs)
  obtain q r where e: "e = (q, r)" by fastforce
  have "voteCount (count_vote r v) \<le> voteCount v + (if \<exists>x. r = Some x \<and> rvrVoteGranted x then 1 else 0)"
    by (auto simp: count_vote_def split: option.splits)
  with Cons.IH [of "count_vote r v"] e show ?case
    by (cases "\<exists>x. r = Some x \<and> rvrVoteGranted x") (simp_all add: Let_def)
qed simp

text \<open>A majority of the count is a majority of the peers.\<close>

lemma tally_grants:
  assumes "received c n args rs" "n div 2 < voteCount (tally n rs)" "p < n" "rvCandidateId args = int p"
  shows "\<exists>Q. majority n Q \<and> (\<forall>q \<in> Q - {p}. \<exists>r. (q, args, r) \<in> replied c \<and> rvrVoteGranted r)"
proof -
  let ?f = "filter (\<lambda>(q, r). \<exists>x. r = Some x \<and> rvrVoteGranted x) rs"
  let ?Q = "insert p (fst ` set ?f)"
  have "distinct (map fst ?f)" using assms(1) by (auto simp: received_def distinct_map intro: inj_on_subset)
  then have card: "card (fst ` set ?f) = length ?f" using distinct_card [of "map fst ?f"] by simp
  have notin: "p \<notin> fst ` set ?f" using assms(1,4) by (auto simp: received_def)
  have "voteCount (tally n rs) \<le> 1 + length ?f"
    using collect_votes_count [of n rs init_votes] by (simp add: tally_def init_votes_def)
  then have "n div 2 < card ?Q" using assms(2) card notin by simp
  moreover have "?Q \<subseteq> {..<n}" using assms(1,3) by (auto simp: received_def)
  moreover have "\<exists>r. (q, args, r) \<in> replied c \<and> rvrVoteGranted r" if "q \<in> ?Q - {p}" for q
    using that assms(1) by (fastforce simp: received_def)
  ultimately show ?thesis unfolding majority_def by (intro exI [of _ ?Q]) blast
qed

lemma tally_majority:
  assumes "received c n args rs" "n div 2 < voteCount (tally n rs)" "p < n" "rvCandidateId args = int p" "rvTerm args = T"
  shows "backed c n T p"
  using tally_grants [OF assms(1-4)] assms(4,5) unfolding backed_def granted_def by blast

lemma keeps_vote_states:
  assumes "keeps_vote rf rf'"
  shows "state rf' = Leader \<Longrightarrow> state rf = Leader \<and> currentTerm rf' = currentTerm rf"
    "state rf' = Candidate \<Longrightarrow> state rf = Candidate \<and> currentTerm rf' = currentTerm rf"
  using assms by (auto simp: keeps_vote_def)

text \<open>A step that is no vote, no candidacy and no election.\<close>

lemma quiet_inv:
  assumes "cluster_inv n c" "p < n" "keeps_vote (node c p) rf'"
  shows "cluster_inv n (c\<lparr>node := (node c)(p := rf')\<rparr>)"
proof -
  from assms have s: "succeeds n p (node c p) rf'" by (auto simp: cluster_inv_def intro: keeps_vote_succeeds)
  have "pending_inv n (c\<lparr>node := (node c)(p := rf')\<rparr>)"
    using assms(1) keeps_vote_states(2) [OF assms(3)] by (auto simp: cluster_inv_def pending_inv_def)
  then show ?thesis
    using assms(1) s keeps_vote_states(1) [OF assms(3)]
    by (auto simp: cluster_inv_def intro: peers_inv_update votes_inv_update elected_inv_update)
qed

lemma starts_inv:
  assumes "cluster_inv n c" "p < n" "election_begin C now ms (node c p) = Inr (Some args, rf')"
  shows "cluster_inv n (c\<lparr>node := (node c)(p := rf'), pending := (pending c)(p := Some args), asked := insert args (asked c)\<rparr>)"
    (is "cluster_inv n ?c")
proof -
  have s: "succeeds n p (node c p) rf'" using assms by (auto simp: cluster_inv_def intro: begin_succeeds)
  have b: "state rf' = Candidate" "currentTerm rf' = rvTerm args" "rvCandidateId args = int p"
    using election_begin_vote [OF assms(3)] assms(1,2) by (auto simp: cluster_inv_def peers_inv_def)
  have "peers_inv n ?c" "pending_inv n ?c" using assms(1) s b
    by (auto simp: cluster_inv_def pending_inv_def intro: peers_inv_update)
  moreover have "votes_inv n ?c" using assms(1) s b by (auto simp: cluster_inv_def intro: votes_inv_update)
  moreover have "elected_inv n ?c" using assms(1) s b by (auto simp: cluster_inv_def intro: elected_inv_update)
  ultimately show ?thesis by (simp add: cluster_inv_def)
qed

text \<open>A vote: the peer votes for nobody else in the term, and is not a leader of it.\<close>

lemma granted_insert:
  "granted (c\<lparr>replied := insert (q, args, r) (replied c)\<rparr>) x T y \<longleftrightarrow>
     granted c x T y \<or> x = q \<and> rvrVoteGranted r \<and> rvTerm args = T \<and> rvCandidateId args = y"
  by (auto simp: granted_def)

lemma granted_voted:
  assumes "votes_inv n c" "granted c q T x"
  shows "T < currentTerm (node c q) \<or> currentTerm (node c q) = T \<and> votedFor (node c q) = x \<and> state (node c q) = Follower \<and> 0 \<le> x"
proof -
  from assms(2) obtain a r where a: "(q, a, r) \<in> replied c" "rvrVoteGranted r" "rvTerm a = T" "rvCandidateId a = x"
    by (auto simp: granted_def)
  with assms(1) have "voted a (node c q)" "a \<in> asked c" unfolding votes_inv_def by blast+
  with a assms(1) show ?thesis unfolding votes_inv_def voted_def by blast
qed

lemma votes_inv_insert:
  assumes "votes_inv n c" "q < n" "args \<in> asked c" "voted args (node c q)"
    "\<And>x. granted c q (rvTerm args) x \<Longrightarrow> x = rvCandidateId args"
  shows "votes_inv n (c\<lparr>replied := insert (q, args, r) (replied c)\<rparr>)" (is "votes_inv n ?c")
proof -
  have "x = y" if "granted ?c p T x" "granted ?c p T y" for p T x y
    using that assms(1,5) unfolding granted_insert votes_inv_def by blast
  moreover have "\<forall>(p, a, v) \<in> replied ?c. p < n \<and> a \<in> asked c \<and> (rvrVoteGranted v \<longrightarrow> voted a (node c p))"
    using assms(1-4) by (simp add: votes_inv_def)
  ultimately show ?thesis using assms(1) unfolding votes_inv_def by simp
qed

lemma elected_inv_insert:
  assumes "elected_inv n c" "\<And>T. (T, q) \<in> elected c \<Longrightarrow> T \<noteq> rvTerm args"
  shows "elected_inv n (c\<lparr>replied := insert (q, args, r) (replied c)\<rparr>)" (is "elected_inv n ?c")
proof -
  have "p < n \<and> reigns T (node ?c p) \<and> backed ?c n T p \<and> (\<forall>x. \<not> granted ?c p T x)" if "(T, p) \<in> elected ?c" for T p
  proof -
    from that assms(1) have o: "p < n" "reigns T (node c p)" "backed c n T p" "\<forall>x. \<not> granted c p T x" by (auto simp: elected_inv_def)
    from o(3) have "backed ?c n T p" by (rule backed_mono) auto
    moreover have "\<not> granted ?c p T x" for x using o(4) that assms(2) unfolding granted_insert by auto
    ultimately show ?thesis using o(1,2) by simp
  qed
  then show ?thesis using assms(1) by (auto simp: elected_inv_def)
qed

lemma decides_inv:
  assumes "cluster_inv n c" "q < n" "args \<in> asked c" "rvCandidateId args \<noteq> int q" "RequestVote C now args (node c q) = Inr (r, rf')"
  shows "cluster_inv n (c\<lparr>node := (node c)(q := rf'), replied := insert (q, args, r) (replied c)\<rparr>)" (is "cluster_inv n ?c")
proof (cases "rvrVoteGranted r")
  case False
  with RequestVote_vote [OF assms(5)] have k: "keeps_vote (node c q) rf'" by simp
  have g1: "granted ?c = granted (c\<lparr>node := (node c)(q := rf')\<rparr>)" using False by (auto simp: granted_def fun_eq_iff)
  then have "backed ?c = backed (c\<lparr>node := (node c)(q := rf')\<rparr>)" by (simp add: backed_def fun_eq_iff)
  note g = g1 this
  from quiet_inv [OF assms(1,2) k] False assms(2,3) show ?thesis
    unfolding cluster_inv_def peers_inv_def pending_inv_def votes_inv_def elected_inv_def g by simp
next
  case True
  have inv: "peers_inv n c" "pending_inv n c" "votes_inv n c" "elected_inv n c" using assms(1) by (simp_all add: cluster_inv_def)
  from RequestVote_vote [OF assms(5)] True have v: "votes_for args (node c q) rf'" by simp
  have pos: "0 \<le> rvCandidateId args" using inv(3) assms(3) by (simp add: votes_inv_def)
  note s = votes_for_succeeds [OF inv(1) assms(2) v assms(4) pos]
  have bound: "currentTerm (node c q) = rvTerm args \<and> x = rvCandidateId args" if "granted c q (rvTerm args) x" for x
    using granted_voted [OF inv(3) that] v by (auto simp: votes_for_def)
  have follower: "currentTerm (node c q) = rvTerm args \<Longrightarrow> state (node c q) = Follower" using v s(2) by (auto simp: votes_for_def)
  let ?d = "c\<lparr>node := (node c)(q := rf')\<rparr>"
  have 1: "peers_inv n ?c" by (rule peers_inv_update [OF inv(1) s(1)]) simp
  have 2: "pending_inv n ?c" using inv(2) s(2) by (simp add: pending_inv_def)
  have 3: "votes_inv n (?d\<lparr>replied := insert (q, args, r) (replied ?d)\<rparr>)"
  proof (rule votes_inv_insert)
    show "votes_inv n ?d" by (rule votes_inv_update [OF inv(3) s(1)]) simp_all
    show "voted args (node ?d q)" using v s(2) by (simp add: voted_def votes_for_def)
    show "x = rvCandidateId args" if "granted ?d q (rvTerm args) x" for x using bound [of x] that by (simp add: granted_def)
  qed (use assms(2,3) in simp_all)
  have 4: "elected_inv n (?d\<lparr>replied := insert (q, args, r) (replied ?d)\<rparr>)"
  proof (rule elected_inv_insert)
    show "elected_inv n ?d" by (rule elected_inv_update [OF inv(4) s(1)]) (simp_all add: s(2))
    fix T assume "(T, q) \<in> elected ?d"
    then have "reigns T (node c q)" using inv(4) by (auto simp: elected_inv_def)
    then show "T \<noteq> rvTerm args" using v follower inv(1) assms(2,4) by (auto simp: reigns_def votes_for_def peers_inv_def)
  qed
  from 1 2 3 4 show ?thesis by (simp add: cluster_inv_def)
qed

text \<open>The end of an election: only a candidate of the term it asked for wins, with a majority.\<close>

lemma ends_inv:
  assumes "cluster_inv n c" "p < n" "pending c p = Some args" "received c n args rs"
    "election_end C now (tally (peers (node c p)) rs) (node c p) = Inr (won, rf')"
  shows "cluster_inv n (c\<lparr>node := (node c)(p := rf'), pending := (pending c)(p := None),
      elected := (if won then insert (currentTerm (node c p), p) (elected c) else elected c)\<rparr>)" (is "cluster_inv n ?c")
proof -
  have inv: "peers_inv n c" "pending_inv n c" "votes_inv n c" "elected_inv n c" using assms(1) by (simp_all add: cluster_inv_def)
  have s: "succeeds n p (node c p) rf'" using inv(1) assms(2,5) by (rule end_succeeds)
  have 1: "peers_inv n ?c" by (rule peers_inv_update [OF inv(1) s]) simp
  have 2: "pending_inv n ?c" using inv(2) by (simp add: pending_inv_def)
  have 3: "votes_inv n ?c" by (rule votes_inv_update [OF inv(3) s]) simp_all
  have 4: "elected_inv n ?c"
  proof (cases won)
    case False
    have l: "state rf' \<noteq> Leader \<or> rf' = node c p" using assms(5) False by (cases rule: election_end_Inr) auto
    show ?thesis by (rule elected_inv_update [OF inv(4) s]) (use False l in auto)
  next
    case True
    let ?T = "currentTerm (node c p)"
    from assms(5) True have w: "state (node c p) = Candidate" "voteCount (tally n rs) > n div 2" "state rf' = Leader" "currentTerm rf' = ?T"
      using inv(1) assms(2)
      by (auto elim!: election_end_Inr dest!: updateCommitIndex_frame simp: peers_inv_def)
    have a: "rvCandidateId args = int p" "rvTerm args = ?T" using inv(2) assms(2,3) w(1) by (auto simp: pending_inv_def)
    have b: "backed c n ?T p" by (rule tally_majority [OF assms(4) w(2) assms(2) a])
    have g: "\<not> granted c p ?T x" for x using granted_voted [OF inv(3), of p ?T x] w(1) by auto
    have o: "q < n \<and> reigns T (node ?c q) \<and> backed ?c n T q \<and> (\<forall>x. \<not> granted ?c q T x)" if "(T, q) \<in> elected ?c" for T q
    proof -
      have k: "q < n" "backed c n T q" "\<forall>x. \<not> granted c q T x" using that inv(4) b g assms(2) True by (auto simp: elected_inv_def)
      have "reigns T (node ?c q)"
      proof (cases "(T, q) \<in> elected c")
        case True
        then have "reigns T (node c q)" using inv(4) by (auto simp: elected_inv_def)
        then show ?thesis using s by (cases "q = p") (simp_all add: succeeds_def)
      next
        case False
        with that w(3,4) \<open>won\<close> show ?thesis by (simp add: reigns_def)
      qed
      moreover have "granted ?c = granted c" "backed ?c = backed c" by (simp_all add: granted_def backed_def fun_eq_iff)
      ultimately show ?thesis using k by simp
    qed
    moreover have "(currentTerm (node ?c q), q) \<in> elected ?c" if "q < n" "state (node ?c q) = Leader" for q
      using that w(4) True inv(4) by (cases "q = p") (auto simp: elected_inv_def)
    ultimately show ?thesis unfolding elected_inv_def by blast
  qed
  from 1 2 3 4 show ?thesis by (simp add: cluster_inv_def)
qed

lemma vote_step_inv: "vote_step C n c c' \<Longrightarrow> cluster_inv n c \<Longrightarrow> cluster_inv n c'"
proof (induction rule: vote_step.induct)
  case (waits p c now ms rf')
  then have "keeps_vote (node c p) rf'" using election_begin_vote [OF waits(3)] by simp
  with waits show ?case by (intro quiet_inv)
next
  case (starts p c now ms args rf')
  then show ?case by (intro starts_inv)
next
  case (decides q args c now r rf')
  then show ?case by (intro decides_inv)
next
  case (ends p c args rs now won rf')
  then show ?case by (intro ends_inv)
qed

lemma cluster_step_inv: "cluster_step C n c c' \<Longrightarrow> cluster_inv n c \<Longrightarrow> cluster_inv n c'"
  by (induction rule: cluster_step.induct) (auto intro: vote_step_inv quiet_inv other_step_keeps_vote)

lemma cluster_steps_inv: "(cluster_step C n)\<^sup>*\<^sup>* c c' \<Longrightarrow> cluster_inv n c \<Longrightarrow> cluster_inv n c'"
  by (induction rule: rtranclp_induct) (auto intro: cluster_step_inv)

lemma elected_unique:
  assumes "cluster_inv n c" "(T, p) \<in> elected c" "(T, p') \<in> elected c"
  shows "p = p'"
proof -
  have i: "votes_inv n c" "elected_inv n c" using assms(1) by (simp_all add: cluster_inv_def)
  from i(2) assms(2,3) have e: "backed c n T p" "backed c n T p'" "\<And>x. \<not> granted c p T x" "\<And>x. \<not> granted c p' T x"
    by (auto simp: elected_inv_def)
  from e(1) obtain Q where Q: "majority n Q" "\<And>q. q \<in> Q \<Longrightarrow> q \<noteq> p \<Longrightarrow> granted c q T (int p)" by (auto simp: backed_def)
  from e(2) obtain Q' where Q': "majority n Q'" "\<And>q. q \<in> Q' \<Longrightarrow> q \<noteq> p' \<Longrightarrow> granted c q T (int p')" by (auto simp: backed_def)
  have u: "x = y" if "granted c q T (int x)" "granted c q T (int y)" for q x y
    using i(1) that unfolding votes_inv_def by (metis of_nat_eq_iff)
  show ?thesis by (rule maj.unique_winner [where supports = "\<lambda>q x. granted c q T (int x)", OF Q(1) Q'(1) Q(2) Q'(2) u e(3,4)])
qed

text \<open>
  C3: Election safety: in a cluster of any size whose peers start as followers, at most one peer ever becomes leader
  of a term, and no two peers are leaders of the same term, whatever messages are lost, delayed, repeated or
  forged outside the elections, and although a candidate may forget its own vote within a term.
\<close>

theorem election_safety:
  assumes "cluster_start n c" "(cluster_step C n)\<^sup>*\<^sup>* c c'"
  shows "(\<forall>T p p'. (T, p) \<in> elected c' \<and> (T, p') \<in> elected c' \<longrightarrow> p = p') \<and>
    (\<forall>p p'. p < n \<and> p' < n \<and> state (node c' p) = Leader \<and> state (node c' p') = Leader \<and>
       currentTerm (node c' p) = currentTerm (node c' p') \<longrightarrow> p = p')"
proof -
  have i: "cluster_inv n c'" using cluster_steps_inv [OF assms(2)] cluster_start_inv [OF assms(1)] by blast
  moreover have "(currentTerm (node c' p), p) \<in> elected c'" if "p < n" "state (node c' p) = Leader" for p
    using i that by (simp add: cluster_inv_def elected_inv_def)
  ultimately show ?thesis using elected_unique by metis
qed

lemma persistState_up: "disk_up rf \<Longrightarrow> \<exists>f. persistState C rf = Inr (rf\<lparr>disk := f\<rparr>) \<and> disk_up (rf\<lparr>disk := f\<rparr>)"
  by (cases "persistState C rf")
    (auto simp: res_simps disk_up_def wal_Write_def fs_write_def split: option.splits if_splits)

text \<open>A vote for the first request of a newer term with a log that is up to date.\<close>

lemma RequestVote_grants:
  assumes "disk_up rf" "currentTerm rf < rvTerm args" "rvLastLogTerm args = lastTerm rf" "rvLastLogIndex args = lastIndex rf"
  shows "\<exists>rf'. RequestVote C now args rf = Inr (\<lparr>rvrTerm = currentTerm rf, rvrVoteGranted = True\<rparr>, rf')"
proof -
  let ?a = "rf\<lparr>currentTerm := rvTerm args, state := Follower, votedFor := -1, leaderId := -1\<rparr>"
  have "disk_up ?a" using assms(1) by (simp add: disk_up_def)
  then obtain f where f: "persistState C ?a = Inr (?a\<lparr>disk := f\<rparr>)" "disk_up (?a\<lparr>disk := f\<rparr>)" using persistState_up by blast
  let ?b = "?a\<lparr>disk := f, votedFor := rvCandidateId args, lastHearBeatTime := now\<rparr>"
  have "disk_up ?b" using f(2) by (simp add: disk_up_def)
  then obtain g where g: "persistState C ?b = Inr (?b\<lparr>disk := g\<rparr>)" using persistState_up by blast
  have l: "lastTerm (?a\<lparr>disk := f\<rparr>) = lastTerm rf" "lastIndex (?a\<lparr>disk := f\<rparr>) = lastIndex rf" by (simp_all add: lastTerm_def lastIndex_def)
  show ?thesis unfolding RequestVote_def Let_def using f(1) g l assms(2-4) by simp
qed

lemma demo_elects: "\<exists>b. (vote_step C 3)\<^sup>*\<^sup>* demo_cluster b \<and> (1, 0) \<in> elected b \<and> demo_elected b"
proof -
  let ?a = "(demo_peer 0)\<lparr>state := Candidate, leaderId := -1, lastHearBeatTime := 300, currentTerm := 1, votedFor := 0\<rparr>"
  let ?args = "\<lparr>rvTerm = 1, rvCandidateId = 0, rvLastLogIndex = -1, rvLastLogTerm = -1\<rparr>"
  have up: "disk_up ?a" "disk_up (demo_peer 1)"
    by (simp_all add: disk_up_def demo_peer_def zero_raft_def fresh_wal_def fresh_fs_def empty_fs_def fs_create_def)
  from up(1) obtain f where f: "persistState C ?a = Inr (?a\<lparr>disk := f\<rparr>)" "disk_up (?a\<lparr>disk := f\<rparr>)" using persistState_up by blast
  have b: "election_begin C 300 300 (node demo_cluster 0) = Inr (Some ?args, ?a\<lparr>disk := f\<rparr>)"
    using f(1) by (simp add: election_begin_def demo_cluster_def demo_peer_def zero_raft_def lastIndex_def lastTerm_def Let_def)
  let ?c1 = "demo_cluster\<lparr>node := (node demo_cluster)(0 := ?a\<lparr>disk := f\<rparr>), pending := (pending demo_cluster)(0 := Some ?args),
    asked := insert ?args (asked demo_cluster)\<rparr>"
  have s1: "vote_step C 3 demo_cluster ?c1" by (rule starts [OF _ _ b]) (simp_all add: demo_cluster_def)
  let ?r = "\<lparr>rvrTerm = 0, rvrVoteGranted = True\<rparr>"
  obtain rf' where v: "RequestVote C 0 ?args (demo_peer 1) = Inr (?r, rf')"
    using RequestVote_grants [OF up(2), of ?args C 0] by (auto simp: demo_peer_def zero_raft_def lastIndex_def lastTerm_def)
  have v1: "currentTerm rf' = 1" "rlog rf' = []" using RequestVote_vote [OF v] RequestVote_log [OF v] by (simp_all add: votes_for_def demo_peer_def zero_raft_def)
  have v2: "disk_up rf'" using v
    by (auto simp: RequestVote_def Let_def res_simps disk_up_def demo_peer_def zero_raft_def dest: wal_Write_up split: if_splits)
  let ?c2 = "?c1\<lparr>node := (node ?c1)(1 := rf'), replied := insert (1, ?args, ?r) (replied ?c1)\<rparr>"
  have s2: "vote_step C 3 ?c1 ?c2" by (rule decides) (use v in \<open>simp_all add: demo_cluster_def\<close>)
  have rc: "received ?c2 3 ?args [(1, Some ?r)]" by (simp add: received_def)
  have t: "tally 3 [(q, Some ?r)] = \<lparr>voteCount = 2, finishCount = 2, maxTerm = 0\<rparr>" for q
    by (simp add: tally_def init_votes_def count_vote_def Let_def)
  have r3: "replicate 3 x = [x, x, x]" for x :: int by (simp add: numeral_3_eq_3)
  have e: "\<exists>rf''. election_end C 0 (tally (peers (node ?c2 0)) [(1, Some ?r)]) (node ?c2 0) = Inr (True, rf'') \<and>
    state rf'' = Leader \<and> currentTerm rf'' = 1 \<and> rlog rf'' = [] \<and> nextIndex rf'' = [0, 0, 0] \<and> matchIndex rf'' = [-1, -1, -1] \<and> disk rf'' = f \<and> rwal rf'' = rwal ?a"
    by (simp add: t demo_peer_def zero_raft_def election_end_def updateCommitIndex_def upt_rec go_nth_def lastIndex_def Let_def r3)
  then obtain rf'' where e: "election_end C 0 (tally (peers (node ?c2 0)) [(1, Some ?r)]) (node ?c2 0) = Inr (True, rf'')"
    "state rf'' = Leader" "currentTerm rf'' = 1" "rlog rf'' = []" "nextIndex rf'' = [0, 0, 0]" "matchIndex rf'' = [-1, -1, -1]" "disk rf'' = f" "rwal rf'' = rwal ?a" by blast
  have p: "pending ?c2 0 = Some ?args" by simp
  let ?c3 = "?c2\<lparr>node := (node ?c2)(0 := rf''), pending := (pending ?c2)(0 := None), elected := insert (currentTerm (node ?c2 0), 0) (elected ?c2)\<rparr>"
  have s3: "vote_step C 3 ?c2 ?c3" using ends [OF _ p rc e(1)] by simp
  have "disk_up rf''" using f(2) e(7,8) by (simp add: disk_up_def)
  with e v1 v2 have "demo_elected ?c3" by (simp add: demo_elected_def demo_cluster_def)
  moreover from s1 s2 s3 have "(vote_step C 3)\<^sup>*\<^sup>* demo_cluster ?c3" by (meson converse_rtranclp_into_rtranclp r_into_rtranclp)
  moreover have "(1, 0) \<in> elected ?c3" by simp
  ultimately show ?thesis by blast
qed

theorem election_safety_witness:
  "\<exists>c. (cluster_step count_codecs 3)\<^sup>*\<^sup>* demo_cluster c \<and> (1, 0) \<in> elected c \<and> (\<forall>p. (1, p) \<in> elected c \<longrightarrow> p = 0)"
proof -
  obtain c where "(vote_step count_codecs 3)\<^sup>*\<^sup>* demo_cluster c" and e: "(1, 0) \<in> elected c" using demo_elects by blast
  then have "(cluster_step count_codecs 3)\<^sup>*\<^sup>* demo_cluster c" using mono_rtranclp [of "vote_step count_codecs 3"] election by blast
  note c = this e
  have "cluster_start 3 demo_cluster" by (simp add: cluster_start_def demo_cluster_def demo_peer_def zero_raft_def)
  from election_safety [OF this c(1)] c show ?thesis by blast
qed

end
