(* ===== verification/RaftSpec.thy ===== *)
theory RaftSpec
  imports RaftElection "HOL-Library.Sublist"
begin

text \<open>
  The replicated log as an abstract protocol, without clocks, disks, message formats and indexes of snapshots: every peer has a
  term, a log and a number of committed entries, and the steps are votes, wins, appends, offers, acceptances
  and commits. What the protocol is for is proved here (logs that match, leaders that have everything committed before them,
  committed prefixes that agree); \<^verbatim>\<open>RaftCluster\<close> shows that a cluster of peers of \<^verbatim>\<open>src/raft/raft.go\<close> follows it.
\<close>

section \<open>Definitions\<close>

text \<open>
  \<open>leads\<close> says who won which term, \<open>tlog\<close> is the log of the leader of a term as far as it has grown and \<open>wlog\<close> that log when the
  term was won. A vote names the voter, the term, the candidate, the end of the log the candidate claims, and the voter's
  own log at that moment. An offer is the part of a leader's log a message covers (its end) with the leader's commit count, and
  an acknowledgement says that a peer took over the log of a term up to an end.
\<close>

record proto =
  aterm :: "nat \<Rightarrow> int"
  alog :: "nat \<Rightarrow> log_type list"
  acommit :: "nat \<Rightarrow> nat"
  leads :: "(int \<times> nat) set"
  tlog :: "int \<Rightarrow> log_type list"
  wlog :: "int \<Rightarrow> log_type list"
  votes :: "(nat \<times> int \<times> nat \<times> int \<times> int \<times> log_type list) set"
  offers :: "(int \<times> nat \<times> nat) set"
  acks :: "(nat \<times> int \<times> nat) set"

text \<open>The term and the index a log ends with, and when a voter's log allows a vote.\<close>

definition end_term :: "log_type list \<Rightarrow> int" where
  "end_term l = (if l = [] then -1 else LogTerm (last l))"

definition end_index :: "log_type list \<Rightarrow> int" where
  "end_index l = int (length l) - 1"

definition up_to_date :: "int \<Rightarrow> int \<Rightarrow> log_type list \<Rightarrow> bool" where
  "up_to_date lt li l \<longleftrightarrow> end_term l < lt \<or> lt = end_term l \<and> end_index l \<le> li"

text \<open>The log of a receiver after a message with the leader's entries from position \<open>k\<close> to position \<open>e\<close>.\<close>

definition merge :: "nat \<Rightarrow> nat \<Rightarrow> log_type list \<Rightarrow> log_type list \<Rightarrow> log_type list" where
  "merge k e ldr l = take k l @ reconcile (drop k l) (take (e - k) (drop k ldr))"

inductive proto_step :: "nat \<Rightarrow> proto \<Rightarrow> proto \<Rightarrow> bool" for n where
  later: "p < n \<Longrightarrow> aterm s p \<le> T \<Longrightarrow> proto_step n s (s\<lparr>aterm := (aterm s)(p := T)\<rparr>)"
| vote: "q < n \<Longrightarrow> aterm s q \<le> T \<Longrightarrow> up_to_date lt li (alog s q) \<Longrightarrow>
    proto_step n s (s\<lparr>aterm := (aterm s)(q := T), votes := insert (q, T, p, lt, li, alog s q) (votes s)\<rparr>)"
| win: "p < n \<Longrightarrow> aterm s p = T \<Longrightarrow> (\<And>p'. (T, p') \<notin> leads s) \<Longrightarrow> majority n Q \<Longrightarrow>
    (\<And>q. q \<in> Q \<Longrightarrow> \<exists>l. (q, T, p, end_term (alog s p), end_index (alog s p), l) \<in> votes s) \<Longrightarrow>
    proto_step n s (s\<lparr>leads := insert (T, p) (leads s), tlog := (tlog s)(T := alog s p), wlog := (wlog s)(T := alog s p)\<rparr>)"
| append: "p < n \<Longrightarrow> aterm s p = T \<Longrightarrow> (T, p) \<in> leads s \<Longrightarrow> LogTerm e = T \<Longrightarrow>
    proto_step n s (s\<lparr>alog := (alog s)(p := alog s p @ [e]), tlog := (tlog s)(T := alog s p @ [e])\<rparr>)"
| offer: "p < n \<Longrightarrow> aterm s p = T \<Longrightarrow> (T, p) \<in> leads s \<Longrightarrow>
    proto_step n s (s\<lparr>offers := insert (T, length (alog s p), acommit s p) (offers s)\<rparr>)"
| accept: "q < n \<Longrightarrow> (T, e, lc) \<in> offers s \<Longrightarrow> aterm s q \<le> T \<Longrightarrow> k \<le> e \<Longrightarrow> k \<le> length (alog s q) \<Longrightarrow>
    (0 < k \<Longrightarrow> LogTerm (alog s q ! (k - 1)) = LogTerm (tlog s T ! (k - 1))) \<Longrightarrow> l' = merge k e (tlog s T) (alog s q) \<Longrightarrow>
    proto_step n s (s\<lparr>aterm := (aterm s)(q := T), alog := (alog s)(q := l'),
      acommit := (acommit s)(q := max (acommit s q) (min lc (length l'))), acks := insert (q, T, e) (acks s)\<rparr>)"
| commit: "p < n \<Longrightarrow> aterm s p = T \<Longrightarrow> (T, p) \<in> leads s \<Longrightarrow> majority n Q \<Longrightarrow>
    (\<And>q. q \<in> Q \<Longrightarrow> q \<noteq> p \<Longrightarrow> \<exists>e \<ge> m. (q, T, e) \<in> acks s) \<Longrightarrow> 0 < m \<Longrightarrow> m \<le> length (alog s p) \<Longrightarrow>
    LogTerm (alog s p ! (m - 1)) = T \<Longrightarrow> proto_step n s (s\<lparr>acommit := (acommit s)(p := m)\<rparr>)"

definition proto_start :: "nat \<Rightarrow> proto \<Rightarrow> bool" where
  "proto_start n s \<longleftrightarrow> (\<forall>p < n. 0 \<le> aterm s p \<and> alog s p = [] \<and> acommit s p = 0) \<and> leads s = {} \<and>
     tlog s = (\<lambda>_. []) \<and> wlog s = (\<lambda>_. []) \<and> votes s = {} \<and> offers s = {} \<and> acks s = {}"

subsection \<open>Notions of the invariant\<close>

text \<open>Every prefix of a log that ends in an entry of some term is a prefix of the log of the leader of that term.\<close>

definition traced :: "(int \<Rightarrow> log_type list) \<Rightarrow> log_type list \<Rightarrow> bool" where
  "traced t l \<longleftrightarrow> (\<forall>i < length l. take (Suc i) l = take (Suc i) (t (LogTerm (l ! i))))"

definition wf_log :: "(int \<Rightarrow> log_type list) \<Rightarrow> int \<Rightarrow> log_type list \<Rightarrow> bool" where
  "wf_log t B l \<longleftrightarrow> traced t l \<and> sorted (map LogTerm l) \<and> (\<forall>e \<in> set l. 0 \<le> LogTerm e \<and> LogTerm e \<le> B)"

definition led :: "proto \<Rightarrow> int \<Rightarrow> bool" where
  "led s T \<longleftrightarrow> (\<exists>p. (T, p) \<in> leads s)"

text \<open>A log has the first \<open>m\<close> entries of the leader of a term.\<close>

definition holds :: "proto \<Rightarrow> log_type list \<Rightarrow> int \<Rightarrow> nat \<Rightarrow> bool" where
  "holds s l T m \<longleftrightarrow> take m l = take m (tlog s T)"

definition acked :: "proto \<Rightarrow> nat \<Rightarrow> int \<Rightarrow> nat \<Rightarrow> bool" where
  "acked s q T m \<longleftrightarrow> (\<exists>e \<ge> m. (q, T, e) \<in> acks s) \<or> (T, q) \<in> leads s \<and> m \<le> length (tlog s T)"

text \<open>A term up to \<open>B\<close> was won with a log that lacks the entries.\<close>

definition lost :: "proto \<Rightarrow> int \<Rightarrow> nat \<Rightarrow> int \<Rightarrow> bool" where
  "lost s T m B \<longleftrightarrow> (\<exists>T'. T < T' \<and> T' \<le> B \<and> led s T' \<and> \<not> holds s (wlog s T') T m)"

text \<open>What a vote tells: everything the voter had acknowledged before was in its log, unless a leader in between had lost it.\<close>

definition ballot :: "proto \<Rightarrow> nat \<Rightarrow> int \<Rightarrow> int \<Rightarrow> int \<Rightarrow> log_type list \<Rightarrow> int \<Rightarrow> bool" where
  "ballot s q T' lt li l B \<longleftrightarrow> T' \<le> aterm s q \<and> up_to_date lt li l \<and> wf_log (tlog s) T' l \<and>
     (\<forall>T m. acked s q T m \<longrightarrow> T < T' \<longrightarrow> holds s l T m \<or> lost s T m B)"

definition chosen :: "nat \<Rightarrow> proto \<Rightarrow> int \<Rightarrow> nat \<Rightarrow> bool" where
  "chosen n s T m \<longleftrightarrow> 0 < m \<and> m \<le> length (tlog s T) \<and> LogTerm (tlog s T ! (m - 1)) = T \<and>
     (\<exists>Q. majority n Q \<and> (\<forall>q \<in> Q. acked s q T m))"

definition committed :: "nat \<Rightarrow> proto \<Rightarrow> int \<Rightarrow> log_type list \<Rightarrow> nat \<Rightarrow> bool" where
  "committed n s B l k \<longleftrightarrow> k = 0 \<or> (\<exists>T m. chosen n s T m \<and> T \<le> B \<and> k \<le> m \<and> take k l = take k (tlog s T))"

definition log_inv :: "nat \<Rightarrow> proto \<Rightarrow> bool" where
  "log_inv n s \<longleftrightarrow>
     (\<forall>p < n. 0 \<le> aterm s p \<and> wf_log (tlog s) (aterm s p) (alog s p)) \<and>
     (\<forall>T. wf_log (tlog s) T (tlog s T) \<and> prefix (wlog s T) (tlog s T) \<and> (\<forall>e \<in> set (wlog s T). LogTerm e < T) \<and>
       (tlog s T \<noteq> [] \<longrightarrow> led s T)) \<and>
     (\<forall>T p. (T, p) \<in> leads s \<longrightarrow> p < n \<and> T \<le> aterm s p \<and> (aterm s p = T \<longrightarrow> alog s p = tlog s T)) \<and>
     (\<forall>T p p'. (T, p) \<in> leads s \<longrightarrow> (T, p') \<in> leads s \<longrightarrow> p = p') \<and>
     (\<forall>T e lc. (T, e, lc) \<in> offers s \<longrightarrow> led s T \<and> e \<le> length (tlog s T) \<and> lc \<le> e)"

definition ack_inv :: "nat \<Rightarrow> proto \<Rightarrow> bool" where
  "ack_inv n s \<longleftrightarrow> (\<forall>q T m. acked s q T m \<longrightarrow> q < n \<and> T \<le> aterm s q \<and> m \<le> length (tlog s T) \<and>
     (holds s (alog s q) T m \<or> lost s T m (aterm s q)))"

definition ballot_inv :: "nat \<Rightarrow> proto \<Rightarrow> bool" where
  "ballot_inv n s \<longleftrightarrow> (\<forall>q T p lt li l. (q, T, p, lt, li, l) \<in> votes s \<longrightarrow> ballot s q T lt li l T) \<and>
     (\<forall>T. led s T \<longrightarrow> (\<exists>Q. majority n Q \<and> (\<forall>q \<in> Q. \<exists>l. ballot s q T (end_term (wlog s T)) (end_index (wlog s T)) l (T - 1))))"

definition commit_inv :: "nat \<Rightarrow> proto \<Rightarrow> bool" where
  "commit_inv n s \<longleftrightarrow> (\<forall>p < n. committed n s (aterm s p) (alog s p) (acommit s p)) \<and>
     (\<forall>T e lc. (T, e, lc) \<in> offers s \<longrightarrow> committed n s T (tlog s T) lc)"

definition proto_inv :: "nat \<Rightarrow> proto \<Rightarrow> bool" where
  "proto_inv n s \<longleftrightarrow> log_inv n s \<and> ack_inv n s \<and> ballot_inv n s \<and> commit_inv n s"

text \<open>What every step does to the history: it only adds to it.\<close>

definition grows :: "proto \<Rightarrow> proto \<Rightarrow> bool" where
  "grows s s' \<longleftrightarrow> leads s \<subseteq> leads s' \<and> acks s \<subseteq> acks s' \<and> (\<forall>T. prefix (tlog s T) (tlog s' T)) \<and>
     (\<forall>T. led s T \<longrightarrow> wlog s' T = wlog s T) \<and> (\<forall>p. aterm s p \<le> aterm s' p) \<and>
     (\<forall>q T m. acked s' q T m \<longrightarrow> acked s q T m \<or> aterm s q \<le> T)"

section \<open>Lemmas\<close>

subsection \<open>Logs\<close>

lemma prefix_take: "prefix a b \<Longrightarrow> m \<le> length a \<Longrightarrow> take m b = take m a"
  by (auto simp: prefix_def)

lemma take_eq_length: "take m a = take m b \<Longrightarrow> m \<le> length b \<Longrightarrow> m \<le> length a"
  by (metis length_take min.absorb_iff2 min.commute nle_le)

lemma take_eq_less: "take m a = take m b \<Longrightarrow> k \<le> m \<Longrightarrow> take k a = take k b"
  by (metis min.absorb1 take_take)

lemma tracedD: "traced t l \<Longrightarrow> i < length l \<Longrightarrow> take (Suc i) l = take (Suc i) (t (LogTerm (l ! i)))"
  by (simp add: traced_def)

lemma traced_length: "traced t l \<Longrightarrow> i < length l \<Longrightarrow> Suc i \<le> length (t (LogTerm (l ! i)))"
  using tracedD [of t l i] take_eq_length [of "Suc i" "t (LogTerm (l ! i))" l] by simp

lemma traced_mono: "traced t l \<Longrightarrow> \<forall>T. prefix (t T) (t' T) \<Longrightarrow> traced t' l"
  unfolding traced_def using prefix_take traced_length by (metis traced_def)

lemma wf_log_mono: "wf_log t B l \<Longrightarrow> \<forall>T. prefix (t T) (t' T) \<Longrightarrow> B \<le> B' \<Longrightarrow> wf_log t' B' l"
  using traced_mono by (fastforce simp: wf_log_def)

lemma wf_log_take: "wf_log t B l \<Longrightarrow> wf_log t B (take m l)"
  by (auto simp: wf_log_def traced_def sorted_wrt_take simp flip: take_map dest: in_set_takeD)

text \<open>Two entries of the same term at the same position: the logs are the same up to there.\<close>

lemma traced_same:
  assumes "traced t a" "traced t b" "i < length a" "i < length b" "LogTerm (a ! i) = LogTerm (b ! i)"
  shows "take (Suc i) a = take (Suc i) b"
  using assms tracedD by metis

lemma reconcile_either:
  assumes "\<And>j. j < length os \<Longrightarrow> j < length ns \<Longrightarrow> LogTerm (os ! j) = LogTerm (ns ! j) \<Longrightarrow> os ! j = ns ! j"
  shows "reconcile os ns = ns \<or> take (length ns) os = ns"
  using assms
proof (induction os ns rule: reconcile.induct)
  case (3 o' os n ns)
  show ?case
  proof (cases "LogTerm o' = LogTerm n")
    case True
    then have "o' = n" using "3.prems" [of 0] by simp
    moreover have "reconcile os ns = ns \<or> take (length ns) os = ns"
      using "3.IH" True "3.prems" [of "Suc j" for j] by force
    ultimately show ?thesis by auto
  qed simp
qed auto

lemma merge_splice:
  assumes "traced t l" "traced t ldr" "e \<le> length ldr" "k \<le> e" "k \<le> length l"
    "0 < k \<Longrightarrow> LogTerm (l ! (k - 1)) = LogTerm (ldr ! (k - 1))"
  shows "merge k e ldr l = (if take e l = take e ldr then l else take e ldr)"
proof -
  let ?es = "take (e - k) (drop k ldr)"
  have k: "take k l = take k ldr"
  proof (cases k)
    case (Suc i)
    then show ?thesis using traced_same [OF assms(1,2), of i] assms(3-6) by simp
  qed simp
  have len: "length ?es = e - k" using assms(3) by simp
  have split: "take e l = take k l @ take (e - k) (drop k l)" for l :: "log_type list" using assms(4) by (metis add_diff_inverse_nat not_less take_add)
  show ?thesis
  proof (cases "take e l = take e ldr")
    case True
    then have "e \<le> length l" using take_eq_length assms(3) by blast
    moreover have "take (e - k) (drop k l) = ?es" using True assms(4) by (metis drop_take)
    ultimately have "reconcile (drop k l) ?es = drop k l" using len by (intro reconcile_same) simp_all
    with True show ?thesis by (simp add: merge_def)
  next
    case False
    have "drop k l ! j = ?es ! j" if j: "j < length (drop k l)" "j < length ?es" "LogTerm (drop k l ! j) = LogTerm (?es ! j)" for j
    proof -
      have "take (Suc (k + j)) l = take (Suc (k + j)) ldr" using j assms by (intro traced_same) auto
      then have "l ! (k + j) = ldr ! (k + j)" by (metis lessI nth_take)
      with j assms(3,4) show ?thesis by simp
    qed
    then have "reconcile (drop k l) ?es = ?es \<or> take (length ?es) (drop k l) = ?es" by (rule reconcile_either)
    moreover have "take (length ?es) (drop k l) \<noteq> ?es" using False split [of l] split [of ldr] k len by auto
    ultimately show ?thesis using False k split [of ldr] by (simp add: merge_def)
  qed
qed

subsection \<open>The history only grows\<close>

lemma growsD:
  assumes "grows s s'"
  shows "leads s \<subseteq> leads s'" "acks s \<subseteq> acks s'" "\<forall>T. prefix (tlog s T) (tlog s' T)" "led s T \<Longrightarrow> wlog s' T = wlog s T"
    "aterm s p \<le> aterm s' p" "acked s' q T m \<Longrightarrow> acked s q T m \<or> aterm s q \<le> T"
  using assms by (simp_all add: grows_def)

lemma led_mono: "grows s s' \<Longrightarrow> led s T \<Longrightarrow> led s' T"
  by (auto simp: grows_def led_def)

lemma tlog_take_mono: "grows s s' \<Longrightarrow> m \<le> length (tlog s T) \<Longrightarrow> take m (tlog s' T) = take m (tlog s T)"
  using prefix_take [of "tlog s T" "tlog s' T" m] by (simp add: grows_def)

lemma holds_mono: "grows s s' \<Longrightarrow> m \<le> length (tlog s T) \<Longrightarrow> holds s' l T m = holds s l T m"
  by (simp add: holds_def tlog_take_mono)

lemma tlog_length_mono: "grows s s' \<Longrightarrow> length (tlog s T) \<le> length (tlog s' T)"
  by (simp add: grows_def prefix_length_le)

lemma acked_mono: "grows s s' \<Longrightarrow> acked s q T m \<Longrightarrow> acked s' q T m"
  using tlog_length_mono [of s s' T] by (auto simp: acked_def grows_def)

lemma lost_mono:
  assumes "grows s s'" "m \<le> length (tlog s T)" "lost s T m B" "B \<le> B'"
  shows "lost s' T m B'"
proof -
  from assms(3) obtain T' where T': "T < T'" "T' \<le> B" "led s T'" "\<not> holds s (wlog s T') T m" by (auto simp: lost_def)
  then have "\<not> holds s' (wlog s' T') T m" using growsD(4) [OF assms(1)] holds_mono [OF assms(1,2)] by simp
  with T' assms(4) led_mono [OF assms(1)] show ?thesis unfolding lost_def by force
qed

lemma ballot_mono:
  assumes "grows s s'" "ack_inv n s" "ballot s q T' lt li l B"
  shows "ballot s' q T' lt li l B"
proof -
  from assms(3) have b: "T' \<le> aterm s q" "up_to_date lt li l" "wf_log (tlog s) T' l"
    "\<And>T m. acked s q T m \<Longrightarrow> T < T' \<Longrightarrow> holds s l T m \<or> lost s T m B" by (auto simp: ballot_def)
  have "holds s' l T m \<or> lost s' T m B" if a: "acked s' q T m" "T < T'" for T m
  proof -
    have o: "acked s q T m" using growsD(6) [OF assms(1) a(1)] a(2) b(1) by linarith
    then have "m \<le> length (tlog s T)" using assms(2) by (simp add: ack_inv_def)
    with b(4) [OF o a(2)] show ?thesis using holds_mono [OF assms(1)] lost_mono [OF assms(1)] by blast
  qed
  moreover have "T' \<le> aterm s' q" using b(1) growsD(5) [OF assms(1), of q] by linarith
  moreover have "wf_log (tlog s') T' l" using wf_log_mono [OF b(3) growsD(3) [OF assms(1)]] by simp
  ultimately show ?thesis using b(2) by (simp add: ballot_def)
qed

lemma chosen_mono:
  assumes "grows s s'" "chosen n s T m"
  shows "chosen n s' T m"
proof -
  from assms(2) have c: "0 < m" "m \<le> length (tlog s T)" "LogTerm (tlog s T ! (m - 1)) = T"
    "\<exists>Q. majority n Q \<and> (\<forall>q \<in> Q. acked s q T m)" by (auto simp: chosen_def)
  have "tlog s' T ! (m - 1) = tlog s T ! (m - 1)"
    using tlog_take_mono [OF assms(1) c(2)] c(1) by (metis Suc_pred' lessI nth_take)
  with c show ?thesis using acked_mono [OF assms(1)] tlog_length_mono [OF assms(1), of T]
    unfolding chosen_def by (metis order_trans)
qed

lemma committed_mono:
  assumes "grows s s'" "committed n s B l k" "B \<le> B'"
  shows "committed n s' B' l k"
proof (cases "k = 0")
  case False
  with assms(2) obtain T m where c: "chosen n s T m" "T \<le> B" "k \<le> m" "take k l = take k (tlog s T)" by (auto simp: committed_def)
  then have "k \<le> length (tlog s T)" by (simp add: chosen_def)
  then have "take k l = take k (tlog s' T)" using c(4) tlog_take_mono [OF assms(1)] by simp
  with c assms(3) chosen_mono [OF assms(1)] show ?thesis unfolding committed_def by (metis order_trans)
qed (simp add: committed_def)

lemma committed_length: "committed n s B l k \<Longrightarrow> k \<le> length l"
  unfolding committed_def chosen_def using take_eq_length [of k l] by (metis le0 le_trans)

subsection \<open>Leader completeness\<close>

lemma log_invD:
  assumes "log_inv n s"
  shows "p < n \<Longrightarrow> 0 \<le> aterm s p" "p < n \<Longrightarrow> wf_log (tlog s) (aterm s p) (alog s p)" "wf_log (tlog s) T (tlog s T)"
    "prefix (wlog s T) (tlog s T)" "e \<in> set (wlog s T) \<Longrightarrow> LogTerm e < T" "tlog s T \<noteq> [] \<Longrightarrow> led s T"
    "(T, p) \<in> leads s \<Longrightarrow> p < n \<and> T \<le> aterm s p" "(T, p) \<in> leads s \<Longrightarrow> aterm s p = T \<Longrightarrow> alog s p = tlog s T"
    "(T, p) \<in> leads s \<Longrightarrow> (T, p') \<in> leads s \<Longrightarrow> p = p'"
    "(T, c, lc) \<in> offers s \<Longrightarrow> led s T \<and> c \<le> length (tlog s T) \<and> lc \<le> c"
  using assms by (auto simp: log_inv_def)

lemma wlog_eq: "log_inv n s \<Longrightarrow> wlog s T = take (length (wlog s T)) (tlog s T)"
  using log_invD(4) [of n s T] by (auto simp: prefix_def)

lemma wf_wlog: "log_inv n s \<Longrightarrow> wf_log (tlog s) T (wlog s T)"
  using wf_log_take [OF log_invD(3), of n s T "length (wlog s T)"] wlog_eq [of n s T] by simp

lemma traced_last: "traced t l \<Longrightarrow> l \<noteq> [] \<Longrightarrow> l = take (length l) (t (LogTerm (last l)))"
  using tracedD [of t l "length l - 1"] by (simp add: last_conv_nth)

lemma wf_log_led:
  assumes "log_inv n s" "wf_log (tlog s) B l" "e \<in> set l"
  shows "led s (LogTerm e)"
proof -
  from assms(3) obtain i where i: "i < length l" "l ! i = e" by (auto simp: in_set_conv_nth)
  with traced_length [of "tlog s" l i] assms(2) have "tlog s (LogTerm e) \<noteq> []" by (auto simp: wf_log_def)
  then show ?thesis by (rule log_invD(6) [OF assms(1)])
qed

lemma holds_wlog: "log_inv n s \<Longrightarrow> holds s (wlog s T') T m \<Longrightarrow> m \<le> length (tlog s T) \<Longrightarrow> take m (tlog s T') = take m (tlog s T)"
  unfolding holds_def using take_eq_length [of m "wlog s T'" "tlog s T"] prefix_take [OF log_invD(4)] by metis

text \<open>A log that has an entry of a term at a position does not end before that term.\<close>

lemma end_term_ge:
  assumes "wf_log t B l" "0 < m" "m \<le> length l" "LogTerm (l ! (m - 1)) = T"
  shows "T \<le> end_term l"
proof -
  have "map LogTerm l ! (m - 1) \<le> map LogTerm l ! (length l - 1)"
    using assms(1-3) by (intro sorted_nth_mono) (auto simp: wf_log_def)
  then show ?thesis using assms(2-4) by (auto simp: end_term_def last_conv_nth)
qed

lemma up_to_date_holds:
  assumes "log_inv n s" "0 < m" "m \<le> length (tlog s T)" "LogTerm (tlog s T ! (m - 1)) = T"
    "wf_log (tlog s) B l" "holds s l T m" "up_to_date (end_term (wlog s T')) (end_index (wlog s T')) l"
    "\<And>T''. T < T'' \<Longrightarrow> T'' < T' \<Longrightarrow> led s T'' \<Longrightarrow> holds s (wlog s T'') T m"
  shows "holds s (wlog s T') T m"
proof -
  let ?w = "wlog s T'"
  have l: "m \<le> length l" using assms(3,6) take_eq_length by (auto simp: holds_def)
  have "l ! (m - 1) = tlog s T ! (m - 1)" using assms(2,6) unfolding holds_def by (metis diff_less less_numeral_extra(1) nth_take)
  then have lt: "T \<le> end_term l" using end_term_ge [OF assms(5,2) l] assms(4) by simp
  have ne: "l \<noteq> []" using l assms(2) by auto
  have w: "wf_log (tlog s) T' ?w" by (rule wf_wlog [OF assms(1)])
  have "0 \<le> end_term l" using ne assms(5) by (auto simp: end_term_def wf_log_def)
  then have wne: "?w \<noteq> []" using assms(7) by (auto simp: up_to_date_def end_term_def)
  define t where "t = LogTerm (last ?w)"
  have we: "?w = take (length ?w) (tlog s t)" using traced_last w wne by (auto simp: wf_log_def t_def)
  from assms(7) wne have "end_term l < t \<or> t = end_term l \<and> length l \<le> length ?w"
    by (auto simp: up_to_date_def end_index_def end_term_def t_def)
  then show ?thesis
  proof
    assume "end_term l < t"
    then have "T < t" using lt by simp
    moreover have "t < T'" using log_invD(5) [OF assms(1)] wne by (simp add: t_def)
    moreover have "led s t" using wf_log_led [OF assms(1) w] wne by (simp add: t_def)
    ultimately have h: "take m (tlog s t) = take m (tlog s T)" using assms(8) holds_wlog [OF assms(1) _ assms(3)] by blast
    have "m \<le> length ?w"
    proof (rule ccontr)
      assume n: "\<not> m \<le> length ?w"
      let ?i = "length ?w - 1"
      have i: "?i < length ?w" using wne by simp
      then have "last ?w = tlog s t ! ?i" using we wne by (metis last_conv_nth nth_take)
      also have "\<dots> = tlog s T ! ?i" using h n i by (metis nat_le_linear nth_take order_less_le_trans)
      finally have "last ?w \<in> set (tlog s T)" using n i assms(3) by simp
      then have "t \<le> T" using log_invD(3) [OF assms(1), of T] by (simp add: wf_log_def t_def)
      with \<open>T < t\<close> show False by simp
    qed
    then have "take m ?w = take m (tlog s t)" using we by (metis min.absorb1 take_take)
    with h show ?thesis by (simp add: holds_def)
  next
    assume a: "t = end_term l \<and> length l \<le> length ?w"
    have "l = take (length l) (tlog s t)" using traced_last assms(5) ne a by (auto simp: wf_log_def end_term_def)
    then have "take m l = take m (tlog s t)" using l by (metis min.absorb1 take_take)
    moreover have "take m ?w = take m (tlog s t)" using we a l by (metis min.absorb1 order_trans take_take)
    ultimately show ?thesis using assms(6) by (simp add: holds_def)
  qed
qed

lemma chosen_held:
  assumes "log_inv n s" "ballot_inv n s" "chosen n s T m" "led s T'" "T < T'"
  shows "holds s (wlog s T') T m"
  using assms(4,5)
proof (induction "nat (T' - T)" arbitrary: T' rule: less_induct)
  case less
  from assms(3) obtain Q where c: "0 < m" "m \<le> length (tlog s T)" "LogTerm (tlog s T ! (m - 1)) = T"
    and Q: "majority n Q" "\<And>q. q \<in> Q \<Longrightarrow> acked s q T m" by (auto simp: chosen_def)
  from assms(2) less.prems(1) obtain Q' where Q': "majority n Q'"
    "\<And>q. q \<in> Q' \<Longrightarrow> \<exists>l. ballot s q T' (end_term (wlog s T')) (end_index (wlog s T')) l (T' - 1)" by (auto simp: ballot_inv_def)
  from maj.intersect [OF Q(1) Q'(1)] obtain q where "q \<in> Q" "q \<in> Q'" by blast
  with Q' Q obtain l where b: "ballot s q T' (end_term (wlog s T')) (end_index (wlog s T')) l (T' - 1)" "acked s q T m" by blast
  have ih: "holds s (wlog s T'') T m" if "T < T''" "T'' < T'" "led s T''" for T''
    using that by (intro less.hyps) auto
  then have "\<not> lost s T m (T' - 1)" by (auto simp: lost_def)
  with b less.prems(2) have "holds s l T m" "wf_log (tlog s) T' l" "up_to_date (end_term (wlog s T')) (end_index (wlog s T')) l"
    by (auto simp: ballot_def)
  with up_to_date_holds [OF assms(1) c] ih show ?case by blast
qed

lemma chosen_in_tlog:
  assumes "log_inv n s" "ballot_inv n s" "chosen n s T m" "led s T'" "T \<le> T'"
  shows "take m (tlog s T') = take m (tlog s T)"
proof (cases "T = T'")
  case False
  with assms chosen_held have "holds s (wlog s T') T m" by simp
  with assms(1,3) holds_wlog show ?thesis by (auto simp: chosen_def)
qed simp

text \<open>What is committed up to a term is in the log of the leader of every later term.\<close>

lemma committed_in_tlog:
  assumes "log_inv n s" "ballot_inv n s" "committed n s B l k" "led s T'" "B \<le> T'"
  shows "take k l = take k (tlog s T')"
proof (cases "k = 0")
  case False
  with assms(3) obtain T m where c: "chosen n s T m" "T \<le> B" "k \<le> m" "take k l = take k (tlog s T)" by (auto simp: committed_def)
  then have "take m (tlog s T') = take m (tlog s T)" using assms by (intro chosen_in_tlog) auto
  with c(3,4) show ?thesis using take_eq_less by metis
qed simp

lemma chosen_led:
  assumes "log_inv n s" "chosen n s T m"
  shows "led s T"
proof (rule log_invD(6) [OF assms(1)])
  show "tlog s T \<noteq> []" using assms(2) by (auto simp: chosen_def)
qed

lemma committed_agree:
  assumes "log_inv n s" "ballot_inv n s" "committed n s B l k" "committed n s B' l' k'" "k \<le> k'"
  shows "take k l = take k l'"
proof (cases "k = 0")
  case False
  with assms(3-5) obtain T m T' m' where c: "chosen n s T m" "k \<le> m" "take k l = take k (tlog s T)"
    "chosen n s T' m'" "k' \<le> m'" "take k' l' = take k' (tlog s T')" by (auto simp: committed_def)
  have k: "k \<le> m'" using c(5) assms(5) by simp
  have l': "take k l' = take k (tlog s T')" using take_eq_less [OF c(6) assms(5)] .
  have "take k (tlog s T) = take k (tlog s T')"
  proof (cases "T \<le> T'")
    case True
    then have "take m (tlog s T') = take m (tlog s T)" using chosen_in_tlog [OF assms(1,2) c(1) chosen_led] assms(1) c(4) by blast
    then show ?thesis using take_eq_less c(2) by metis
  next
    case False
    then have "take m' (tlog s T) = take m' (tlog s T')" using chosen_in_tlog [OF assms(1,2) c(4) chosen_led] assms(1) c(1) by simp
    then show ?thesis using take_eq_less k by metis
  qed
  with c(3) l' show ?thesis by simp
qed simp

subsection \<open>Every step keeps the invariant\<close>

lemma step_grows:
  assumes "proto_step n s s'" "log_inv n s"
  shows "grows s s'"
  using assms
proof (induction rule: proto_step.induct)
  case (append p s T e)
  have l: "alog s p = tlog s T" using append log_invD(8) by blast
  have u: "q = p" if "(T, q) \<in> leads s" for q using log_invD(9) append(3,5) that by blast
  let ?s = "s\<lparr>alog := (alog s)(p := alog s p @ [e]), tlog := (tlog s)(T := alog s p @ [e])\<rparr>"
  have "acked s q T' m \<or> aterm s q \<le> T'" if "acked ?s q T' m" for q T' m
    using that u [of q] append(2) by (cases "T' = T") (auto simp: acked_def)
  then show ?case by (simp add: grows_def led_def l)
next
  case (win p s T Q)
  have "tlog s T = []" using log_invD(6) [OF win(6)] win(3) by (auto simp: led_def)
  with win show ?case by (auto simp: grows_def led_def acked_def)
qed (auto simp: grows_def led_def acked_def)

lemma log_inv_step:
  assumes "grows s s'" "log_inv n s"
    "\<And>p. p < n \<Longrightarrow> alog s' p \<noteq> alog s p \<Longrightarrow> wf_log (tlog s') (aterm s' p) (alog s' p)"
    "\<And>T. tlog s' T \<noteq> tlog s T \<Longrightarrow> wf_log (tlog s') T (tlog s' T) \<and> prefix (wlog s' T) (tlog s' T) \<and> led s' T"
    "\<And>T. wlog s' T \<noteq> wlog s T \<Longrightarrow> prefix (wlog s' T) (tlog s' T) \<and> (\<forall>e \<in> set (wlog s' T). LogTerm e < T)"
    "\<And>T p. (T, p) \<in> leads s' \<Longrightarrow> p < n \<and> T \<le> aterm s' p \<and> (aterm s' p = T \<longrightarrow> alog s' p = tlog s' T)"
    "\<And>T p p'. (T, p) \<in> leads s' \<Longrightarrow> (T, p') \<in> leads s' \<Longrightarrow> p = p'"
    "\<And>T e lc. (T, e, lc) \<in> offers s' \<Longrightarrow> (T, e, lc) \<notin> offers s \<Longrightarrow> led s' T \<and> e \<le> length (tlog s' T) \<and> lc \<le> e"
  shows "log_inv n s'"
proof -
  note i = log_invD [OF assms(2)] and g = growsD [OF assms(1)]
  have 1: "0 \<le> aterm s' p \<and> wf_log (tlog s') (aterm s' p) (alog s' p)" if "p < n" for p
  proof -
    have "wf_log (tlog s') (aterm s' p) (alog s p)" by (rule wf_log_mono [OF i(2) [OF that] g(3) g(5)])
    then show ?thesis using assms(3) [OF that] i(1) [OF that] g(5) [of p] by (cases "alog s' p = alog s p") auto
  qed
  have 2: "wf_log (tlog s') T (tlog s' T) \<and> prefix (wlog s' T) (tlog s' T) \<and> (\<forall>e \<in> set (wlog s' T). LogTerm e < T) \<and>
      (tlog s' T \<noteq> [] \<longrightarrow> led s' T)" for T
    using wf_log_mono [OF i(3) g(3) order_refl, of T] assms(4,5) [of T] i(4-6) led_mono [OF assms(1), of T] by metis
  have 3: "led s' T \<and> e \<le> length (tlog s' T) \<and> lc \<le> e" if "(T, e, lc) \<in> offers s'" for T e lc
    using that assms(8) i(10) [of T e lc] led_mono [OF assms(1), of T] tlog_length_mono [OF assms(1), of T] by force
  show ?thesis unfolding log_inv_def using 1 2 3 assms(6,7) by blast
qed

lemma ack_inv_step:
  assumes "grows s s'" "ack_inv n s"
    "\<And>q T m. acked s' q T m \<Longrightarrow> \<not> acked s q T m \<Longrightarrow> q < n \<and> T \<le> aterm s' q \<and> m \<le> length (tlog s' T) \<and> holds s' (alog s' q) T m"
    "\<And>q T m. acked s q T m \<Longrightarrow> holds s (alog s q) T m \<Longrightarrow> holds s' (alog s' q) T m \<or> lost s' T m (aterm s' q)"
  shows "ack_inv n s'"
proof -
  have "q < n \<and> T \<le> aterm s' q \<and> m \<le> length (tlog s' T) \<and> (holds s' (alog s' q) T m \<or> lost s' T m (aterm s' q))"
    if a: "acked s' q T m" for q T m
  proof (cases "acked s q T m")
    case True
    with assms(2) have o: "q < n" "T \<le> aterm s q" "m \<le> length (tlog s T)" "holds s (alog s q) T m \<or> lost s T m (aterm s q)"
      by (auto simp: ack_inv_def)
    have "lost s T m (aterm s q) \<Longrightarrow> lost s' T m (aterm s' q)" using lost_mono [OF assms(1) o(3)] growsD(5) [OF assms(1)] by blast
    with o assms(4) [OF True] growsD(5) [OF assms(1), of q] tlog_length_mono [OF assms(1), of T] show ?thesis by auto
  next
    case False
    with a assms(3) show ?thesis by blast
  qed
  then show ?thesis by (simp add: ack_inv_def)
qed

lemma ballot_inv_step:
  assumes "grows s s'" "ack_inv n s" "ballot_inv n s"
    "\<And>q T p lt li l. (q, T, p, lt, li, l) \<in> votes s' \<Longrightarrow> (q, T, p, lt, li, l) \<notin> votes s \<Longrightarrow> ballot s' q T lt li l T"
    "\<And>T. led s' T \<Longrightarrow> \<not> led s T \<Longrightarrow>
       \<exists>Q. majority n Q \<and> (\<forall>q \<in> Q. \<exists>l. ballot s' q T (end_term (wlog s' T)) (end_index (wlog s' T)) l (T - 1))"
  shows "ballot_inv n s'"
proof -
  have 1: "ballot s' q T lt li l T" if "(q, T, p, lt, li, l) \<in> votes s'" for q T p lt li l
  proof (cases "(q, T, p, lt, li, l) \<in> votes s")
    case True
    then show ?thesis using assms(3) by (intro ballot_mono [OF assms(1,2)]) (auto simp: ballot_inv_def)
  qed (use that assms(4) in blast)
  have 2: "\<exists>Q. majority n Q \<and> (\<forall>q \<in> Q. \<exists>l. ballot s' q T (end_term (wlog s' T)) (end_index (wlog s' T)) l (T - 1))" if "led s' T" for T
  proof (cases "led s T")
    case True
    then have "\<exists>Q. majority n Q \<and> (\<forall>q \<in> Q. \<exists>l. ballot s q T (end_term (wlog s T)) (end_index (wlog s T)) l (T - 1))"
      using assms(3) by (simp add: ballot_inv_def)
    then show ?thesis using ballot_mono [OF assms(1,2)] growsD(4) [OF assms(1) True] by metis
  qed (use that assms(5) in blast)
  show ?thesis unfolding ballot_inv_def using 1 2 by blast
qed

lemma commit_inv_step:
  assumes "grows s s'" "commit_inv n s"
    "\<And>p. p < n \<Longrightarrow> alog s' p \<noteq> alog s p \<or> acommit s' p \<noteq> acommit s p \<Longrightarrow> committed n s' (aterm s' p) (alog s' p) (acommit s' p)"
    "\<And>T e lc. (T, e, lc) \<in> offers s' \<Longrightarrow> (T, e, lc) \<notin> offers s \<Longrightarrow> committed n s' T (tlog s' T) lc"
  shows "commit_inv n s'"
proof -
  have 1: "committed n s' (aterm s' p) (alog s' p) (acommit s' p)" if "p < n" for p
  proof -
    have "committed n s (aterm s p) (alog s p) (acommit s p)" using assms(2) that by (simp add: commit_inv_def)
    then have "committed n s' (aterm s' p) (alog s p) (acommit s p)" by (rule committed_mono [OF assms(1) _ growsD(5) [OF assms(1)]])
    then show ?thesis using assms(3) [OF that] by (cases "alog s' p \<noteq> alog s p \<or> acommit s' p \<noteq> acommit s p") auto
  qed
  have 2: "committed n s' T (tlog s' T) lc" if "(T, e, lc) \<in> offers s'" for T e lc
  proof (cases "(T, e, lc) \<in> offers s")
    case True
    then have c: "committed n s T (tlog s T) lc" using assms(2) by (auto simp: commit_inv_def)
    then have "take lc (tlog s' T) = take lc (tlog s T)" using tlog_take_mono [OF assms(1)] committed_length by blast
    with committed_mono [OF assms(1) c order_refl] show ?thesis by (simp add: committed_def)
  qed (use that assms(4) in blast)
  show ?thesis unfolding commit_inv_def using 1 2 by blast
qed

lemmas inv_steps = log_inv_step ack_inv_step ballot_inv_step commit_inv_step

text \<open>Steps that only move terms on, ask, or commit.\<close>

lemma quiet_step:
  assumes "proto_inv n s" "grows s s'" "alog s' = alog s" "tlog s' = tlog s" "wlog s' = wlog s" "leads s' = leads s" "acks s' = acks s"
  shows "ack_inv n s'" "offers s' = offers s \<Longrightarrow> log_inv n s'"
proof -
  have i: "log_inv n s" "ack_inv n s" using assms(1) by (simp_all add: proto_inv_def)
  have a: "acked s' = acked s" using assms by (simp add: acked_def fun_eq_iff)
  show "ack_inv n s'" by (rule ack_inv_step [OF assms(2) i(2)]) (use assms a in \<open>auto simp: holds_def\<close>)
  show "log_inv n s'" if "offers s' = offers s"
  proof (rule log_inv_step [OF assms(2) i(1)])
    fix T p assume "(T, p) \<in> leads s'"
    then show "p < n \<and> T \<le> aterm s' p \<and> (aterm s' p = T \<longrightarrow> alog s' p = tlog s' T)"
      using log_invD(7,8) [OF i(1), of T p] growsD(5) [OF assms(2), of p] assms(3,4,6) by force
  next
    fix T p p' assume "(T, p) \<in> leads s'" "(T, p') \<in> leads s'"
    then show "p = p'" using log_invD(9) [OF i(1)] assms(6) by simp
  qed (use assms that in auto)
qed

lemma proto_invD: "proto_inv n s \<Longrightarrow> log_inv n s" "proto_inv n s \<Longrightarrow> ack_inv n s" "proto_inv n s \<Longrightarrow> ballot_inv n s"
  "proto_inv n s \<Longrightarrow> commit_inv n s"
  by (simp_all add: proto_inv_def)

lemma ack_invD:
  assumes "ack_inv n s" "acked s q T m"
  shows "q < n" "T \<le> aterm s q" "m \<le> length (tlog s T)" "holds s (alog s q) T m \<or> lost s T m (aterm s q)"
  using assms by (auto simp: ack_inv_def)

lemma committed_cong: "committed n s B l k \<Longrightarrow> take k l' = take k l \<Longrightarrow> committed n s B l' k"
  by (simp add: committed_def)

lemma later_inv:
  assumes "proto_inv n s" "p < n" "aterm s p \<le> T"
  shows "proto_inv n (s\<lparr>aterm := (aterm s)(p := T)\<rparr>)" (is "proto_inv n ?s")
proof -
  note i = proto_invD [OF assms(1)]
  have g: "grows s ?s" using step_grows [OF later i(1)] assms(2,3) by simp
  have w: "led ?s = led s" by (simp add: led_def fun_eq_iff)
  show ?thesis unfolding proto_inv_def
    using quiet_step [OF assms(1) g] ballot_inv_step [OF g i(2,3)] commit_inv_step [OF g i(4)] by (simp add: w)
qed

lemma vote_inv:
  assumes "proto_inv n s" "q < n" "aterm s q \<le> T" "up_to_date lt li (alog s q)"
  shows "proto_inv n (s\<lparr>aterm := (aterm s)(q := T), votes := insert (q, T, p, lt, li, alog s q) (votes s)\<rparr>)" (is "proto_inv n ?s")
proof -
  note i = proto_invD [OF assms(1)]
  have g: "grows s ?s" using step_grows [OF vote i(1)] assms(2-4) by simp
  have w: "led ?s = led s" "acked ?s = acked s" by (simp_all add: led_def acked_def fun_eq_iff)
  have b: "ballot ?s q T lt li (alog s q) T"
  proof -
    have "holds ?s (alog s q) T' m \<or> lost ?s T' m T" if a: "acked ?s q T' m" for T' m
      using ack_invD(3,4) [OF i(2), of q T' m] a assms(3) holds_mono [OF g] lost_mono [OF g] by (auto simp: w)
    moreover have "wf_log (tlog s) T (alog s q)" using wf_log_mono [OF log_invD(2) [OF i(1) assms(2)]] assms(3) by simp
    ultimately show ?thesis using assms(4) by (simp add: ballot_def)
  qed
  have "ballot_inv n ?s" by (rule ballot_inv_step [OF g i(2,3)]) (use b in \<open>auto simp: w\<close>)
  then show ?thesis unfolding proto_inv_def using quiet_step [OF assms(1) g] commit_inv_step [OF g i(4)] by simp
qed

lemma win_inv:
  assumes "proto_inv n s" "p < n" "aterm s p = T" "\<And>p'. (T, p') \<notin> leads s" "majority n Q"
    "\<And>q. q \<in> Q \<Longrightarrow> \<exists>l. (q, T, p, end_term (alog s p), end_index (alog s p), l) \<in> votes s"
  shows "proto_inv n (s\<lparr>leads := insert (T, p) (leads s), tlog := (tlog s)(T := alog s p), wlog := (wlog s)(T := alog s p)\<rparr>)"
    (is "proto_inv n ?s")
proof -
  note i = proto_invD [OF assms(1)]
  have g: "grows s ?s" using step_grows [OF win i(1)] assms(2-6) by simp
  have nw: "\<not> led s T" using assms(4) by (simp add: led_def)
  have wf: "wf_log (tlog ?s) T (alog s p)" by (rule wf_log_mono [OF log_invD(2) [OF i(1) assms(2)] growsD(3) [OF g]]) (simp add: assms(3))
  have lt: "LogTerm e < T" if "e \<in> set (alog s p)" for e
    using wf_log_led [OF i(1) log_invD(2) [OF i(1) assms(2)] that] nw log_invD(2) [OF i(1) assms(2)] that assms(3)
    by (cases "LogTerm e = T") (auto simp: wf_log_def)
  have 1: "log_inv n ?s"
  proof (rule log_inv_step [OF g i(1)])
    fix T' p' assume "(T', p') \<in> leads ?s"
    then show "p' < n \<and> T' \<le> aterm ?s p' \<and> (aterm ?s p' = T' \<longrightarrow> alog ?s p' = tlog ?s T')"
      using log_invD(7,8) [OF i(1), of T' p'] assms(2-4) by auto
  next
    fix T' p1 p2 assume "(T', p1) \<in> leads ?s" "(T', p2) \<in> leads ?s"
    then show "p1 = p2" using log_invD(9) [OF i(1)] assms(4) by auto
  qed (use wf lt in \<open>auto simp: led_def split: if_splits\<close>)
  have 2: "ack_inv n ?s"
  proof (rule ack_inv_step [OF g i(2)])
    fix q T' m assume "acked ?s q T' m" "\<not> acked s q T' m"
    then have "q = p" "T' = T" "m \<le> length (alog s p)" using assms(4) by (auto simp: acked_def split: if_splits)
    with assms(2,3) show "q < n \<and> T' \<le> aterm ?s q \<and> m \<le> length (tlog ?s T') \<and> holds ?s (alog ?s q) T' m" by (simp add: holds_def)
  next
    fix q T' m assume "acked s q T' m" "holds s (alog s q) T' m"
    then show "holds ?s (alog ?s q) T' m \<or> lost ?s T' m (aterm ?s q)" using holds_mono [OF g] ack_invD(3) [OF i(2)] by simp
  qed
  have b: "\<exists>l. ballot ?s q T (end_term (alog s p)) (end_index (alog s p)) l (T - 1)" if q: "q \<in> Q" for q
  proof -
    from assms(6) [OF q] obtain l where "(q, T, p, end_term (alog s p), end_index (alog s p), l) \<in> votes s" by blast
    then have "ballot s q T (end_term (alog s p)) (end_index (alog s p)) l T" using i(3) by (auto simp: ballot_inv_def)
    moreover have "lost s T' m (T - 1)" if "lost s T' m T" for T' m
      using that nw unfolding lost_def by (metis linorder_not_less order_le_less zle_diff1_eq)
    ultimately have "ballot s q T (end_term (alog s p)) (end_index (alog s p)) l (T - 1)" by (auto simp: ballot_def)
    then show ?thesis using ballot_mono [OF g i(2)] by blast
  qed
  have 3: "ballot_inv n ?s"
  proof (rule ballot_inv_step [OF g i(2,3)])
    fix T' assume "led ?s T'" "\<not> led s T'"
    then have "T' = T" by (auto simp: led_def)
    with b assms(5) show "\<exists>Q. majority n Q \<and> (\<forall>q \<in> Q. \<exists>l. ballot ?s q T' (end_term (wlog ?s T')) (end_index (wlog ?s T')) l (T' - 1))"
      by (intro exI [of _ Q]) simp
  qed simp
  have 4: "commit_inv n ?s" by (rule commit_inv_step [OF g i(4)]) simp_all
  from 1 2 3 4 show ?thesis by (simp add: proto_inv_def)
qed

lemma traced_snoc: "traced t l \<Longrightarrow> t (LogTerm e) = l @ [e] \<Longrightarrow> traced t (l @ [e])"
  by (auto simp: traced_def nth_append less_Suc_eq)

lemma append_inv:
  assumes "proto_inv n s" "p < n" "aterm s p = T" "(T, p) \<in> leads s" "LogTerm e = T"
  shows "proto_inv n (s\<lparr>alog := (alog s)(p := alog s p @ [e]), tlog := (tlog s)(T := alog s p @ [e])\<rparr>)" (is "proto_inv n ?s")
proof -
  note i = proto_invD [OF assms(1)]
  have g: "grows s ?s" using step_grows [OF append i(1)] assms(2-5) by simp
  have l: "alog s p = tlog s T" using log_invD(8) [OF i(1) assms(4,3)] .
  have u: "q = p" if "(T, q) \<in> leads s" for q using log_invD(9) [OF i(1) that assms(4)] .
  have wf: "wf_log (tlog ?s) T (alog s p @ [e])"
  proof -
    have o: "wf_log (tlog ?s) T (alog s p)" by (rule wf_log_mono [OF log_invD(2) [OF i(1) assms(2)] growsD(3) [OF g]]) (simp add: assms(3))
    then have "traced (tlog ?s) (alog s p @ [e])" using assms(5) by (intro traced_snoc) (auto simp: wf_log_def)
    then show ?thesis using o assms(5) log_invD(1) [OF i(1) assms(2)] assms(3) by (auto simp: wf_log_def sorted_append)
  qed
  have w: "led ?s = led s" by (simp add: led_def fun_eq_iff)
  have 1: "log_inv n ?s"
  proof (rule log_inv_step [OF g i(1)])
    fix T' assume "tlog ?s T' \<noteq> tlog s T'"
    then have "T' = T" by (auto split: if_splits)
    moreover have "prefix (wlog s T) (alog s p @ [e])" using log_invD(4) [OF i(1), of T] l by (simp add: prefix_def) (metis append_assoc)
    ultimately show "wf_log (tlog ?s) T' (tlog ?s T') \<and> prefix (wlog ?s T') (tlog ?s T') \<and> led ?s T'"
      using wf assms(4) by (auto simp: led_def)
  next
    fix T' p' assume "(T', p') \<in> leads ?s"
    then show "p' < n \<and> T' \<le> aterm ?s p' \<and> (aterm ?s p' = T' \<longrightarrow> alog ?s p' = tlog ?s T')"
      using log_invD(7,8) [OF i(1), of T' p'] assms(3) u by auto
  next
    fix T' p1 p2 assume "(T', p1) \<in> leads ?s" "(T', p2) \<in> leads ?s"
    then show "p1 = p2" using log_invD(9) [OF i(1)] by auto
  qed (use wf assms(3) in \<open>auto split: if_splits\<close>)
  have 2: "ack_inv n ?s"
  proof (rule ack_inv_step [OF g i(2)])
    fix q T' m assume "acked ?s q T' m" "\<not> acked s q T' m"
    then have "T' = T" "(T, q) \<in> leads s" "m \<le> length (alog s p @ [e])" by (auto simp: acked_def split: if_splits)
    with assms(2,3) u show "q < n \<and> T' \<le> aterm ?s q \<and> m \<le> length (tlog ?s T') \<and> holds ?s (alog ?s q) T' m" by (auto simp: holds_def)
  next
    fix q T' m assume a: "acked s q T' m" "holds s (alog s q) T' m"
    have m: "m \<le> length (tlog s T')" using ack_invD(3) [OF i(2) a(1)] .
    then have "m \<le> length (alog s q)" using a(2) take_eq_length by (auto simp: holds_def)
    then have "holds s (alog ?s q) T' m" using a(2) by (auto simp: holds_def)
    then show "holds ?s (alog ?s q) T' m \<or> lost ?s T' m (aterm ?s q)" using holds_mono [OF g m] by blast
  qed
  have 3: "ballot_inv n ?s" by (rule ballot_inv_step [OF g i(2,3)]) (simp_all add: w)
  have 4: "commit_inv n ?s"
  proof (rule commit_inv_step [OF g i(4)])
    fix q assume q: "q < n"
    have c: "committed n s (aterm s q) (alog s q) (acommit s q)" using i(4) q by (simp add: commit_inv_def)
    then have "acommit s q \<le> length (alog s q)" by (rule committed_length)
    then have "committed n s (aterm s q) (alog ?s q) (acommit s q)" by (intro committed_cong [OF c]) auto
    then show "committed n ?s (aterm ?s q) (alog ?s q) (acommit ?s q)" using committed_mono [OF g] by simp
  qed simp
  from 1 2 3 4 show ?thesis by (simp add: proto_inv_def)
qed

lemma offer_inv:
  assumes "proto_inv n s" "p < n" "aterm s p = T" "(T, p) \<in> leads s"
  shows "proto_inv n (s\<lparr>offers := insert (T, length (alog s p), acommit s p) (offers s)\<rparr>)" (is "proto_inv n ?s")
proof -
  note i = proto_invD [OF assms(1)]
  have g: "grows s ?s" using step_grows [OF offer i(1)] assms(2-4) by simp
  have l: "alog s p = tlog s T" using log_invD(8) [OF i(1) assms(4,3)] .
  have w: "led ?s = led s" by (simp add: led_def fun_eq_iff)
  have c: "committed n s T (tlog s T) (acommit s p)" using i(4) assms(2,3) l by (auto simp: commit_inv_def)
  then have lc: "acommit s p \<le> length (tlog s T)" by (rule committed_length)
  have "log_inv n ?s"
  proof (rule log_inv_step [OF g i(1)])
    fix T' p1 p2 assume "(T', p1) \<in> leads ?s" "(T', p2) \<in> leads ?s"
    then show "p1 = p2" using log_invD(9) [OF i(1)] by auto
  qed (use log_invD(7,8) [OF i(1)] lc l assms(4) in \<open>auto simp: led_def\<close>)
  moreover have "ballot_inv n ?s" by (rule ballot_inv_step [OF g i(2,3)]) (simp_all add: w)
  moreover have "commit_inv n ?s" by (rule commit_inv_step [OF g i(4)]) (use committed_mono [OF g c] in auto)
  ultimately show ?thesis using quiet_step(1) [OF assms(1) g] by (simp add: proto_inv_def)
qed

lemma splice_take:
  "take m l = take m x \<Longrightarrow> take m t = take m x \<Longrightarrow> take m (if take e l = take e t then l else take e t) = take m x"
  using take_eq_less [of m l t e] by (cases "e \<le> m") (auto simp: min_def)

lemma committed_less: "committed n s B l k \<Longrightarrow> j \<le> k \<Longrightarrow> committed n s B l j"
  unfolding committed_def using take_eq_less order_trans by (metis le_zero_eq)

lemma accept_inv:
  assumes "proto_inv n s" "q < n" "(T, e, lc) \<in> offers s" "aterm s q \<le> T" "k \<le> e" "k \<le> length (alog s q)"
    "0 < k \<Longrightarrow> LogTerm (alog s q ! (k - 1)) = LogTerm (tlog s T ! (k - 1))" "l' = merge k e (tlog s T) (alog s q)"
  shows "proto_inv n (s\<lparr>aterm := (aterm s)(q := T), alog := (alog s)(q := l'),
      acommit := (acommit s)(q := max (acommit s q) (min lc (length l'))), acks := insert (q, T, e) (acks s)\<rparr>)" (is "proto_inv n ?s")
proof -
  let ?t = "tlog s T" and ?l = "alog s q"
  note i = proto_invD [OF assms(1)]
  have g: "grows s ?s" using step_grows [OF accept i(1)] assms(2-8) by simp
  have o: "led s T" "e \<le> length ?t" "lc \<le> e" using log_invD(10) [OF i(1) assms(3)] by simp_all
  have wf: "wf_log (tlog s) (aterm s q) ?l" "wf_log (tlog s) T ?t" using log_invD(2,3) [OF i(1)] assms(2) by blast+
  have l': "l' = (if take e ?l = take e ?t then ?l else take e ?t)"
    unfolding assms(8) by (rule merge_splice [where t = "tlog s"]) (use wf o assms(5-7) in \<open>auto simp: wf_log_def\<close>)
  have ag: "take e l' = take e ?t" by (simp add: l')
  have w: "led ?s = led s" "holds ?s = holds s" by (simp_all add: led_def holds_def fun_eq_iff)
  have 1: "log_inv n ?s"
  proof (rule log_inv_step [OF g i(1)])
    fix p assume "p < n" "alog ?s p \<noteq> alog s p"
    then have "p = q" by (auto split: if_splits)
    moreover have "wf_log (tlog s) T l'" using wf_log_mono [OF wf(1) _ assms(4), of "tlog s"] wf_log_take [OF wf(2)] by (simp add: l')
    ultimately show "wf_log (tlog ?s) (aterm ?s p) (alog ?s p)" by simp
  next
    fix T' p assume a: "(T', p) \<in> leads ?s"
    show "p < n \<and> T' \<le> aterm ?s p \<and> (aterm ?s p = T' \<longrightarrow> alog ?s p = tlog ?s T')"
      using log_invD(7,8) [OF i(1), of T' p] a assms(4) by (cases "p = q") (auto simp: l')
  next
    fix T' p1 p2 assume "(T', p1) \<in> leads ?s" "(T', p2) \<in> leads ?s"
    then show "p1 = p2" using log_invD(9) [OF i(1)] by auto
  qed simp_all
  have 2: "ack_inv n ?s"
  proof (rule ack_inv_step [OF g i(2)])
    fix p T' m assume "acked ?s p T' m" "\<not> acked s p T' m"
    then have "p = q" "T' = T" "m \<le> e" by (auto simp: acked_def)
    with assms(2) o(2) take_eq_less [OF ag] show "p < n \<and> T' \<le> aterm ?s p \<and> m \<le> length (tlog ?s T') \<and> holds ?s (alog ?s p) T' m"
      by (simp add: holds_def)
  next
    fix p T' m assume a: "acked s p T' m" "holds s (alog s p) T' m"
    show "holds ?s (alog ?s p) T' m \<or> lost ?s T' m (aterm ?s p)"
    proof (cases "p = q")
      case True
      have m: "m \<le> length (tlog s T')" "T' \<le> T" using ack_invD(2,3) [OF i(2) a(1)] assms(4) True by auto
      show ?thesis
      proof (cases "take m ?t = take m (tlog s T')")
        case eq: True
        with a(2) True have "take m l' = take m (tlog s T')" unfolding l' by (intro splice_take) (auto simp: holds_def)
        with True show ?thesis by (simp add: holds_def)
      next
        case False
        then have "T' < T" using m(2) by (cases "T' = T") auto
        moreover have "\<not> holds s (wlog s T) T' m" using False holds_wlog [OF i(1) _ m(1)] by blast
        ultimately have "lost ?s T' m T" using o(1) by (auto simp: lost_def w)
        with True show ?thesis by simp
      qed
    qed (use a in \<open>simp add: w\<close>)
  qed
  have 3: "ballot_inv n ?s" by (rule ballot_inv_step [OF g i(2,3)]) (simp_all add: w)
  have 4: "commit_inv n ?s"
  proof (rule commit_inv_step [OF g i(4)])
    fix p assume "p < n" "alog ?s p \<noteq> alog s p \<or> acommit ?s p \<noteq> acommit s p"
    then have p: "p = q" by (auto split: if_splits)
    have c: "committed n s (aterm s q) ?l (acommit s q)" using i(4) assms(2) by (simp add: commit_inv_def)
    have "take (acommit s q) l' = take (acommit s q) ?l"
      using committed_in_tlog [OF i(1,3) c o(1) assms(4)] unfolding l' by (intro splice_take) simp_all
    then have "committed n ?s T l' (acommit s q)" using committed_mono [OF g c assms(4)] by (rule committed_cong [rotated])
    moreover have "committed n ?s T l' (min lc (length l'))"
    proof -
      have "committed n s T ?t lc" using i(4) assms(3) by (auto simp: commit_inv_def)
      from committed_mono [OF g committed_less [OF this, of "min lc (length l')"]] have "committed n ?s T ?t (min lc (length l'))" by simp
      moreover have "take (min lc (length l')) l' = take (min lc (length l')) ?t" using take_eq_less [OF ag] o(3) by simp
      ultimately show ?thesis by (rule committed_cong)
    qed
    ultimately have "committed n ?s T l' (max (acommit s q) (min lc (length l')))" by (metis max_def)
    then show "committed n ?s (aterm ?s p) (alog ?s p) (acommit ?s p)" using p by simp
  qed simp
  from 1 2 3 4 show ?thesis by (simp add: proto_inv_def)
qed

lemma commit_step_inv:
  assumes "proto_inv n s" "p < n" "aterm s p = T" "(T, p) \<in> leads s" "majority n Q"
    "\<And>q. q \<in> Q \<Longrightarrow> q \<noteq> p \<Longrightarrow> \<exists>e \<ge> m. (q, T, e) \<in> acks s" "0 < m" "m \<le> length (alog s p)" "LogTerm (alog s p ! (m - 1)) = T"
  shows "proto_inv n (s\<lparr>acommit := (acommit s)(p := m)\<rparr>)" (is "proto_inv n ?s")
proof -
  note i = proto_invD [OF assms(1)]
  have g: "grows s ?s" using step_grows [OF commit i(1)] assms(2-9) by simp
  have l: "alog s p = tlog s T" using log_invD(8) [OF i(1) assms(4,3)] .
  have w: "led ?s = led s" by (simp add: led_def fun_eq_iff)
  have "acked s q T m" if "q \<in> Q" for q using that assms(4,6,8) l by (cases "q = p") (auto simp: acked_def)
  then have "chosen n s T m" using assms(5,7-9) l by (auto simp: chosen_def)
  then have "committed n s T (alog s p) m" using l by (auto simp: committed_def)
  then have c: "committed n ?s T (alog s p) m" using committed_mono [OF g] by simp
  have "commit_inv n ?s" by (rule commit_inv_step [OF g i(4)]) (use c assms(3) in \<open>auto split: if_splits\<close>)
  moreover have "ballot_inv n ?s" by (rule ballot_inv_step [OF g i(2,3)]) (simp_all add: w)
  ultimately show ?thesis using quiet_step [OF assms(1) g] by (simp add: proto_inv_def)
qed

lemma proto_step_inv: "proto_step n s s' \<Longrightarrow> proto_inv n s \<Longrightarrow> proto_inv n s'"
proof (induction rule: proto_step.induct)
  case (win p s T Q)
  then show ?case by (intro win_inv) auto
next
  case (commit p s T Q m)
  then show ?case by (intro commit_step_inv) auto
qed (auto intro: later_inv vote_inv append_inv offer_inv accept_inv)

lemma proto_start_inv: "proto_start n s \<Longrightarrow> proto_inv n s"
  by (auto simp: proto_start_def proto_inv_def log_inv_def ack_inv_def ballot_inv_def commit_inv_def wf_log_def traced_def
      led_def acked_def committed_def)

lemma proto_steps_inv: "(proto_step n)\<^sup>*\<^sup>* s s' \<Longrightarrow> proto_inv n s \<Longrightarrow> proto_inv n s'"
  by (induction rule: rtranclp_induct) (auto intro: proto_step_inv)

lemma grows_trans: "grows a b \<Longrightarrow> grows b c \<Longrightarrow> grows a c"
  unfolding grows_def led_def by (intro conjI) (blast, blast, meson prefix_order.trans, fastforce, meson order_trans, meson order_trans)

lemma grows_refl [simp]: "grows s s"
  by (simp add: grows_def)

lemma proto_steps_grow: "(proto_step n)\<^sup>*\<^sup>* s s' \<Longrightarrow> proto_inv n s \<Longrightarrow> grows s s'"
proof (induction rule: rtranclp_induct)
  case (step b c)
  then have "proto_inv n b" using proto_steps_inv by blast
  then show ?case using step step_grows grows_trans by (blast dest: proto_invD(1))
qed simp

end
