(* ===== verification/RaftCluster.thy ===== *)
theory RaftCluster
  imports RaftSpec
begin

text \<open>
  A whole cluster of peers of \<^verbatim>\<open>src/raft/raft.go\<close>: elections as in \<^verbatim>\<open>RaftElection\<close>, and the messages that replicate the log.
  Every message may be delayed, reordered, repeated and lost. A step is one locked section of one peer, with the code of that
  section. Peers may stop but do not restart, and take no snapshots: both lose entries that count (\<^verbatim>\<open>RaftPersist\<close> and
  \<^verbatim>\<open>RaftSteps\<close> show how). A message is what the leader's log holds when it is built.

  The cluster follows the protocol of \<^verbatim>\<open>RaftSpec\<close>, shown by a forward simulation; what the protocol promises then holds
  of the peers.
\<close>

section \<open>Definitions\<close>

text \<open>The messages of the replication: those sent to a peer, and the answers peers gave.\<close>

record net =
  base :: cluster
  sentAE :: "(nat \<times> ae_args) set"
  repliedAE :: "(nat \<times> ae_args \<times> ae_reply) set"

abbreviation peer :: "net \<Rightarrow> nat \<Rightarrow> raft" where
  "peer c p \<equiv> node (base c) p"

definition set_peer :: "nat \<Rightarrow> raft \<Rightarrow> net \<Rightarrow> net" where
  "set_peer p rf c = c\<lparr>base := (base c)\<lparr>node := (node (base c))(p := rf)\<rparr>\<rparr>"

inductive net_step :: "codecs \<Rightarrow> nat \<Rightarrow> net \<Rightarrow> net \<Rightarrow> bool" for C n where
  elects: "vote_step C n (base c) b \<Longrightarrow> net_step C n c (c\<lparr>base := b\<rparr>)"
| sends: "p < n \<Longrightarrow> q < n \<Longrightarrow> q \<noteq> p \<Longrightarrow> append_request (int q) (peer c p) = Inr (Some args) \<Longrightarrow>
    net_step C n c (c\<lparr>sentAE := insert (q, args) (sentAE c)\<rparr>)"
| delivers: "q < n \<Longrightarrow> (q, args) \<in> sentAE c \<Longrightarrow> AppendEntries C now args (peer c q) = Inr (r, rf') \<Longrightarrow>
    net_step C n c ((set_peer q rf' c)\<lparr>repliedAE := insert (q, args, r) (repliedAE c)\<rparr>)"
| answers: "p < n \<Longrightarrow> aeLeaderId args = int p \<Longrightarrow> (q, args) \<in> sentAE c \<Longrightarrow> (\<And>r. reply = Some r \<Longrightarrow> (q, args, r) \<in> repliedAE c) \<Longrightarrow>
    append_reply C (int q) args reply (peer c p) = Inr (res, rf') \<Longrightarrow> net_step C n c (set_peer p rf' c)"
| commands: "p < n \<Longrightarrow> raft_Start C cmd (peer c p) = Inr (res, rf') \<Longrightarrow> net_step C n c (set_peer p rf' c)"
| beats: "p < n \<Longrightarrow> appendEntries_turn now (peer c p) = Inr (ks, rf') \<Longrightarrow> net_step C n c (set_peer p rf' c)"
| hands_over: "p < n \<Longrightarrow> net_step C n c (set_peer p (Applyer (peer c p)) c)"
| stops: "p < n \<Longrightarrow> net_step C n c (set_peer p (raft_Kill (peer c p)) c)"

text \<open>A peer as \<^verbatim>\<open>Make\<close> leaves it on a directory without records, and the cluster of such peers.\<close>

definition fresh_peer :: "nat \<Rightarrow> nat \<Rightarrow> raft \<Rightarrow> bool" where
  "fresh_peer n p rf \<longleftrightarrow> me rf = int p \<and> peers rf = n \<and> state rf = Follower \<and> currentTerm rf = 0 \<and> rlog rf = [] \<and>
     lastIncludeIndex rf = -1 \<and> lastIncludeTerm rf = -1 \<and> commitIndex rf = -1 \<and> lastApplied rf = -1 \<and> sent rf = []"

definition net_start :: "nat \<Rightarrow> net \<Rightarrow> bool" where
  "net_start n c \<longleftrightarrow> (\<forall>p < n. fresh_peer n p (peer c p) \<and> pending (base c) p = None) \<and>
     asked (base c) = {} \<and> replied (base c) = {} \<and> elected (base c) = {} \<and> sentAE c = {} \<and> repliedAE c = {}"

subsection \<open>The simulation\<close>

text \<open>The peer and the abstract peer; the request of a candidate; what a leader believes of the others.\<close>

definition peer_rel :: "proto \<Rightarrow> nat \<Rightarrow> raft \<Rightarrow> bool" where
  "peer_rel s p rf \<longleftrightarrow> lastIncludeIndex rf = -1 \<and> lastIncludeTerm rf = -1 \<and> aterm s p = currentTerm rf \<and> alog s p = rlog rf \<and>
     int (acommit s p) = commitIndex rf + 1"

definition pend_rel :: "proto \<Rightarrow> nat \<Rightarrow> raft \<Rightarrow> rv_args option \<Rightarrow> bool" where
  "pend_rel s p rf req \<longleftrightarrow> (\<forall>args. req = Some args \<longrightarrow> state rf = Candidate \<longrightarrow>
     rvLastLogTerm args = end_term (rlog rf) \<and> rvLastLogIndex args = end_index (rlog rf) \<and>
     (\<exists>l. (p, rvTerm args, p, rvLastLogTerm args, rvLastLogIndex args, l) \<in> votes s))"

definition match_rel :: "proto \<Rightarrow> raft \<Rightarrow> bool" where
  "match_rel s rf \<longleftrightarrow> (state rf = Leader \<longrightarrow> (\<forall>i < length (matchIndex rf). 0 \<le> matchIndex rf ! i \<longrightarrow>
     (\<exists>e. matchIndex rf ! i < int e \<and> (i, currentTerm rf, e) \<in> acks s)))"

text \<open>The messages and what they stand for.\<close>

definition vote_rel :: "proto \<Rightarrow> nat \<times> rv_args \<times> rv_reply \<Rightarrow> bool" where
  "vote_rel s = (\<lambda>(q, a, r). rvrVoteGranted r \<longrightarrow>
     (\<exists>l. (q, rvTerm a, nat (rvCandidateId a), rvLastLogTerm a, rvLastLogIndex a, l) \<in> votes s))"

definition msg_end :: "ae_args \<Rightarrow> nat" where
  "msg_end a = nat (aePrevLogIndex a + 1) + length (aeEntries a)"

definition msg_rel :: "proto \<Rightarrow> nat \<times> ae_args \<Rightarrow> bool" where
  "msg_rel s = (\<lambda>(q, a). (\<exists>p. p \<noteq> q \<and> aeLeaderId a = int p \<and> (aeTerm a, p) \<in> leads s) \<and>
     (aePrevLogIndex a < -1 \<longrightarrow> aeEntries a = []) \<and>
     (-1 \<le> aePrevLogIndex a \<longrightarrow>
        (\<exists>lc. (aeTerm a, msg_end a, lc) \<in> offers s \<and> aeLeaderCommit a + 1 = int lc) \<and>
        aeEntries a = drop (nat (aePrevLogIndex a + 1)) (take (msg_end a) (tlog s (aeTerm a))) \<and>
        (0 \<le> aePrevLogIndex a \<longrightarrow> aePrevLogTerm a = LogTerm (take (msg_end a) (tlog s (aeTerm a)) ! nat (aePrevLogIndex a)))))"

definition ack_rel :: "proto \<Rightarrow> nat \<times> ae_args \<times> ae_reply \<Rightarrow> bool" where
  "ack_rel s = (\<lambda>(q, a, r). aerSuccess r \<longrightarrow> -1 \<le> aePrevLogIndex a \<and> (q, aeTerm a, msg_end a) \<in> acks s)"

definition refines :: "nat \<Rightarrow> net \<Rightarrow> proto \<Rightarrow> bool" where
  "refines n c s \<longleftrightarrow> cluster_inv n (base c) \<and> proto_inv n s \<and> leads s = elected (base c) \<and>
     (\<forall>p < n. peer_rel s p (peer c p) \<and> pend_rel s p (peer c p) (pending (base c) p) \<and> match_rel s (peer c p)) \<and>
     (\<forall>x \<in> replied (base c). vote_rel s x) \<and> (\<forall>x \<in> sentAE c. msg_rel s x) \<and> (\<forall>x \<in> repliedAE c. ack_rel s x)"

text \<open>What a run of the protocol adds, seen from the peers other than \<open>p\<close>.\<close>

definition extends :: "nat \<Rightarrow> proto \<Rightarrow> proto \<Rightarrow> bool" where
  "extends p s s' \<longleftrightarrow> grows s s' \<and> votes s \<subseteq> votes s' \<and> offers s \<subseteq> offers s' \<and>
     (\<forall>q. q \<noteq> p \<longrightarrow> aterm s' q = aterm s q \<and> alog s' q = alog s q \<and> acommit s' q = acommit s q)"

text \<open>A locked section that leaves the log and what the peer is alone, but may enter a newer term as a follower.\<close>

definition quiet :: "raft \<Rightarrow> raft \<Rightarrow> bool" where
  "quiet rf rf' \<longleftrightarrow> rlog rf' = rlog rf \<and> lastIncludeIndex rf' = lastIncludeIndex rf \<and> lastIncludeTerm rf' = lastIncludeTerm rf \<and>
     commitIndex rf' = commitIndex rf \<and> currentTerm rf \<le> currentTerm rf' \<and>
     (state rf' \<noteq> Follower \<longrightarrow> state rf' = state rf \<and> currentTerm rf' = currentTerm rf \<and> matchIndex rf' = matchIndex rf)"

subsection \<open>Three peers\<close>

definition demo_net :: net where
  "demo_net = \<lparr>base = demo_cluster, sentAE = {}, repliedAE = {}\<rparr>"

text \<open>
  The three peers after a command of peer 0, the leader of term 1, has been accepted by peer 1, committed by the leader, and
  accepted as committed by peer 2.
\<close>

definition demo_done :: "bytes \<Rightarrow> net \<Rightarrow> bool" where
  "demo_done cmd c \<longleftrightarrow> (let l = [\<lparr>LogTerm = 1, LogValue = cmd\<rparr>] in
     state (peer c 0) = Leader \<and> currentTerm (peer c 0) = 1 \<and> rlog (peer c 0) = l \<and> rlog (peer c 1) = l \<and> rlog (peer c 2) = l \<and>
     currentTerm (peer c 2) = 1 \<and> commitIndex (peer c 0) = 0 \<and> commitIndex (peer c 2) = 0 \<and>
     lastApplied (peer c 0) = 0 \<and> lastApplied (peer c 2) = 0)"

section \<open>Lemmas\<close>

text \<open>Forward simulation: one step of the concrete system is matched by a run of the abstract one.\<close>

locale forward_simulation =
  fixes cstep :: "'c \<Rightarrow> 'c \<Rightarrow> bool" and astep :: "'a \<Rightarrow> 'a \<Rightarrow> bool" and rel :: "'c \<Rightarrow> 'a \<Rightarrow> bool"
  assumes simulates: "rel c s \<Longrightarrow> cstep c c' \<Longrightarrow> \<exists>s'. astep\<^sup>*\<^sup>* s s' \<and> rel c' s'"
begin

lemma run: "cstep\<^sup>*\<^sup>* c c' \<Longrightarrow> rel c s \<Longrightarrow> \<exists>s'. astep\<^sup>*\<^sup>* s s' \<and> rel c' s'"
proof (induction rule: rtranclp_induct)
  case (step b d)
  then obtain s1 where s1: "astep\<^sup>*\<^sup>* s s1" "rel b s1" by blast
  from simulates [OF s1(2) step(2)] obtain s2 where "astep\<^sup>*\<^sup>* s1 s2" "rel d s2" by blast
  with s1(1) show ?case by (meson rtranclp_trans)
qed blast

end

lemma set_peer_simps [simp]:
  "node (base (set_peer p rf c)) = (node (base c))(p := rf)" "pending (base (set_peer p rf c)) = pending (base c)"
  "asked (base (set_peer p rf c)) = asked (base c)" "replied (base (set_peer p rf c)) = replied (base c)"
  "elected (base (set_peer p rf c)) = elected (base c)" "sentAE (set_peer p rf c) = sentAE c" "repliedAE (set_peer p rf c) = repliedAE c"
  by (simp_all add: set_peer_def)

lemma base_set_peer: "base (set_peer p rf c) = (base c)\<lparr>node := (node (base c))(p := rf)\<rparr>"
  by (simp add: set_peer_def)

lemma extends_refl [simp]: "extends p s s"
  by (simp add: extends_def)

lemma extends_trans: "extends p a b \<Longrightarrow> extends p b c \<Longrightarrow> extends p a c"
  using grows_trans by (fastforce simp: extends_def)

lemma vote_rel_mono: "extends p s s' \<Longrightarrow> vote_rel s x \<Longrightarrow> vote_rel s' x"
  by (force simp: extends_def vote_rel_def)

lemma ack_rel_mono: "extends p s s' \<Longrightarrow> ack_rel s x \<Longrightarrow> ack_rel s' x"
  by (auto simp: extends_def grows_def ack_rel_def)

lemma pend_rel_mono: "extends p s s' \<Longrightarrow> pend_rel s q rf req \<Longrightarrow> pend_rel s' q rf req"
  unfolding extends_def pend_rel_def by blast

lemma match_rel_mono: "extends p s s' \<Longrightarrow> match_rel s rf \<Longrightarrow> match_rel s' rf"
  unfolding extends_def grows_def match_rel_def by blast

lemma peer_rel_other: "extends p s s' \<Longrightarrow> q \<noteq> p \<Longrightarrow> peer_rel s' q rf = peer_rel s q rf"
  by (simp add: extends_def peer_rel_def)

lemma msg_rel_mono:
  assumes "extends p s s'" "proto_inv n s" "msg_rel s x"
  shows "msg_rel s' x"
proof -
  obtain q a where x: "x = (q, a)" by fastforce
  have g: "grows s s'" "leads s \<subseteq> leads s'" "offers s \<subseteq> offers s'" using assms(1) by (simp_all add: extends_def grows_def)
  show ?thesis
  proof (cases "-1 \<le> aePrevLogIndex a")
    case True
    with assms(3) x obtain lc where "(aeTerm a, msg_end a, lc) \<in> offers s" by (auto simp: msg_rel_def)
    then have "msg_end a \<le> length (tlog s (aeTerm a))" using log_invD(10) [OF proto_invD(1) [OF assms(2)]] by blast
    then have "take (msg_end a) (tlog s' (aeTerm a)) = take (msg_end a) (tlog s (aeTerm a))" by (rule tlog_take_mono [OF g(1)])
    with assms(3) x g(2,3) show ?thesis by (auto simp: msg_rel_def)
  qed (use assms(3) x g(2) in \<open>auto simp: msg_rel_def\<close>)
qed

lemma refinesD:
  assumes "refines n c s"
  shows "cluster_inv n (base c)" "proto_inv n s" "leads s = elected (base c)" "p < n \<Longrightarrow> peer_rel s p (peer c p)"
    "p < n \<Longrightarrow> pend_rel s p (peer c p) (pending (base c) p)" "p < n \<Longrightarrow> match_rel s (peer c p)"
    "x \<in> replied (base c) \<Longrightarrow> vote_rel s x" "y \<in> sentAE c \<Longrightarrow> msg_rel s y" "z \<in> repliedAE c \<Longrightarrow> ack_rel s z"
  using assms by (simp_all add: refines_def)

text \<open>A step of one peer keeps the relation to everything else.\<close>

lemma refines_update:
  assumes "refines n c s" "extends p s s'" "proto_inv n s'" "cluster_inv n (base c')" "node (base c') = (node (base c))(p := rf')"
    "\<And>q. q \<noteq> p \<Longrightarrow> pending (base c') q = pending (base c) q" "leads s' = elected (base c')"
    "peer_rel s' p rf'" "pend_rel s' p rf' (pending (base c') p)" "match_rel s' rf'"
    "\<And>x. x \<in> replied (base c') \<Longrightarrow> x \<notin> replied (base c) \<Longrightarrow> vote_rel s' x"
    "\<And>x. x \<in> sentAE c' \<Longrightarrow> x \<notin> sentAE c \<Longrightarrow> msg_rel s' x" "\<And>x. x \<in> repliedAE c' \<Longrightarrow> x \<notin> repliedAE c \<Longrightarrow> ack_rel s' x"
  shows "refines n c' s'"
proof -
  have "peer_rel s' q (peer c' q) \<and> pend_rel s' q (peer c' q) (pending (base c') q) \<and> match_rel s' (peer c' q)" if q: "q < n" for q
  proof (cases "q = p")
    case False
    with assms(5,6) refinesD(4-6) [OF assms(1) q] show ?thesis
      using peer_rel_other [OF assms(2) False] pend_rel_mono [OF assms(2)] match_rel_mono [OF assms(2)] by simp
  qed (use assms(5,8-10) in simp)
  moreover have "vote_rel s' x" if "x \<in> replied (base c')" for x
    using that assms(11) refinesD(7) [OF assms(1)] vote_rel_mono [OF assms(2)] by blast
  moreover have "msg_rel s' x" if "x \<in> sentAE c'" for x
    using that assms(12) refinesD(8) [OF assms(1)] msg_rel_mono [OF assms(2) refinesD(2) [OF assms(1)]] by blast
  moreover have "ack_rel s' x" if "x \<in> repliedAE c'" for x
    using that assms(13) refinesD(9) [OF assms(1)] ack_rel_mono [OF assms(2)] by blast
  ultimately show ?thesis using assms(3,4,7) by (simp add: refines_def)
qed

lemma extends_step:
  assumes "proto_step n s s'" "proto_inv n s" "votes s \<subseteq> votes s'" "offers s \<subseteq> offers s'"
    "\<And>q. q \<noteq> p \<Longrightarrow> aterm s' q = aterm s q \<and> alog s' q = alog s q \<and> acommit s' q = acommit s q"
  shows "extends p s s'" "proto_inv n s'"
  using assms step_grows [OF assms(1) proto_invD(1) [OF assms(2)]] proto_step_inv [OF assms(1,2)] by (simp_all add: extends_def)

lemma quiet_sim:
  assumes "refines n c s" "p < n" "quiet (peer c p) rf'" "cluster_inv n (base c')" "node (base c') = (node (base c))(p := rf')"
    "\<And>q. q \<noteq> p \<Longrightarrow> pending (base c') q = pending (base c) q" "pending (base c') p = pending (base c) p \<or> pending (base c') p = None"
    "elected (base c') = elected (base c)" "\<And>x. x \<in> replied (base c') \<Longrightarrow> x \<notin> replied (base c) \<Longrightarrow> vote_rel s x"
    "sentAE c' = sentAE c" "\<And>x. x \<in> repliedAE c' \<Longrightarrow> x \<notin> repliedAE c \<Longrightarrow> ack_rel s x"
  shows "\<exists>s'. (proto_step n)\<^sup>*\<^sup>* s s' \<and> refines n c' s'"
proof -
  let ?s = "s\<lparr>aterm := (aterm s)(p := currentTerm rf')\<rparr>"
  note r = refinesD [OF assms(1)]
  note q = assms(3) [unfolded quiet_def]
  have st: "proto_step n s ?s" using q r(4) [OF assms(2)] by (intro later [OF assms(2)]) (simp add: peer_rel_def)
  note e = extends_step [OF st r(2), of p, simplified]
  have "refines n c' ?s"
  proof (rule refines_update [OF assms(1) e assms(4,5,6)])
    show "leads ?s = elected (base c')" using r(3) assms(8) by simp
    show "peer_rel ?s p rf'" using q r(4) [OF assms(2)] by (simp add: peer_rel_def)
    show "pend_rel ?s p rf' (pending (base c') p)" using assms(7) q r(5) [OF assms(2)] by (auto simp: pend_rel_def)
    show "match_rel ?s rf'" using q r(6) [OF assms(2)] by (auto simp: match_rel_def)
    show "vote_rel ?s x" if "x \<in> replied (base c')" "x \<notin> replied (base c)" for x using vote_rel_mono [OF e(1) assms(9) [OF that]] .
    show "ack_rel ?s x" if "x \<in> repliedAE c'" "x \<notin> repliedAE c" for x using ack_rel_mono [OF e(1) assms(11) [OF that]] .
  qed (use assms(10) in auto)
  with st show ?thesis by blast
qed

lemma last_simps: "lastIncludeIndex rf = -1 \<Longrightarrow> lastIndex rf = end_index (rlog rf)" "lastIncludeTerm rf = -1 \<Longrightarrow> lastTerm rf = end_term (rlog rf)"
  by (simp_all add: lastIndex_def end_index_def lastTerm_def end_term_def)

subsection \<open>Elections\<close>

lemma election_begin_request:
  assumes "election_begin C now ms rf = Inr (Some args, rf')"
  shows "rvLastLogIndex args = lastIndex rf \<and> rvLastLogTerm args = lastTerm rf \<and> rlog rf' = rlog rf \<and> lastIncludeIndex rf' = lastIncludeIndex rf \<and>
    lastIncludeTerm rf' = lastIncludeTerm rf \<and> commitIndex rf' = commitIndex rf"
  using assms by (auto simp: election_begin_def Let_def res_simps lastIndex_def lastTerm_def split: if_splits)

lemma starts_sim:
  assumes "refines n c s" "p < n" "pending (base c) p = None" "election_begin C now ms (peer c p) = Inr (Some args, rf')"
    "b = (base c)\<lparr>node := (node (base c))(p := rf'), pending := (pending (base c))(p := Some args), asked := insert args (asked (base c))\<rparr>"
  shows "\<exists>s'. (proto_step n)\<^sup>*\<^sup>* s s' \<and> refines n (c\<lparr>base := b\<rparr>) s'"
proof -
  note r = refinesD [OF assms(1)]
  note rq = election_begin_request [OF assms(4)] and v = election_begin_vote [OF assms(4)]
  have pr: "lastIncludeIndex (peer c p) = -1" "lastIncludeTerm (peer c p) = -1" "aterm s p = currentTerm (peer c p)" "alog s p = rlog (peer c p)"
    "int (acommit s p) = commitIndex (peer c p) + 1" using r(4) [OF assms(2)] by (simp_all add: peer_rel_def)
  let ?T = "rvTerm args" and ?lt = "rvLastLogTerm args" and ?li = "rvLastLogIndex args"
  let ?s = "s\<lparr>aterm := (aterm s)(p := ?T), votes := insert (p, ?T, p, ?lt, ?li, alog s p) (votes s)\<rparr>"
  have st: "proto_step n s ?s"
    using v rq pr last_simps [of "peer c p"] by (intro vote [OF assms(2)]) (simp_all add: up_to_date_def)
  have e: "extends p s ?s" "proto_inv n ?s" using extends_step [OF st r(2), of p] by auto
  have "cluster_inv n b" unfolding assms(5) using starts_inv [OF r(1) assms(2,4)] .
  with e(2) v rq pr r(3) last_simps [of "peer c p"] have "refines n (c\<lparr>base := b\<rparr>) ?s"
    by (intro refines_update [OF assms(1) e, of _ rf']) (auto simp: assms(5) peer_rel_def pend_rel_def match_rel_def)
  with st show ?thesis by blast
qed

lemma RequestVote_granted:
  assumes "RequestVote C now args rf = Inr (r, rf')" "rvrVoteGranted r"
  shows "lastTerm rf < rvLastLogTerm args \<or> rvLastLogTerm args = lastTerm rf \<and> lastIndex rf \<le> rvLastLogIndex args"
  using assms by (auto simp: RequestVote_def Let_def res_simps lastTerm_def lastIndex_def split: if_splits)

lemma decides_sim:
  assumes "refines n c s" "q < n" "args \<in> asked (base c)" "rvCandidateId args \<noteq> int q" "RequestVote C now args (peer c q) = Inr (r, rf')"
    "b = (base c)\<lparr>node := (node (base c))(q := rf'), replied := insert (q, args, r) (replied (base c))\<rparr>"
  shows "\<exists>s'. (proto_step n)\<^sup>*\<^sup>* s s' \<and> refines n (c\<lparr>base := b\<rparr>) s'"
proof (cases "rvrVoteGranted r")
  case False
  note r = refinesD [OF assms(1)]
  have k: "keeps_vote (peer c q) rf'" using RequestVote_vote [OF assms(5)] False by simp
  have "cluster_inv n b" unfolding assms(6) by (rule decides_inv [OF r(1) assms(2-5)])
  moreover have "quiet (peer c q) rf'" using k RequestVote_log [OF assms(5)] by (auto simp: quiet_def keeps_vote_def)
  ultimately show ?thesis using False by (intro quiet_sim [OF assms(1,2)]) (auto simp: assms(6) vote_rel_def)
next
  case True
  note r = refinesD [OF assms(1)]
  have v: "votes_for args (peer c q) rf'" using RequestVote_vote [OF assms(5)] True by simp
  have i: "peers_inv n (base c)" "0 \<le> rvCandidateId args" using r(1) assms(3) by (auto simp: cluster_inv_def votes_inv_def)
  have f: "state rf' = Follower" by (rule votes_for_succeeds(2) [OF i(1) assms(2) v assms(4) i(2)])
  have pr: "lastIncludeIndex (peer c q) = -1" "lastIncludeTerm (peer c q) = -1" "aterm s q = currentTerm (peer c q)" "alog s q = rlog (peer c q)"
    "int (acommit s q) = commitIndex (peer c q) + 1" using r(4) [OF assms(2)] by (simp_all add: peer_rel_def)
  let ?v = "(q, rvTerm args, nat (rvCandidateId args), rvLastLogTerm args, rvLastLogIndex args, alog s q)"
  let ?s = "s\<lparr>aterm := (aterm s)(q := rvTerm args), votes := insert ?v (votes s)\<rparr>"
  have st: "proto_step n s ?s"
    using v RequestVote_granted [OF assms(5) True] pr last_simps [of "peer c q"]
    by (intro vote [OF assms(2)]) (auto simp: up_to_date_def votes_for_def)
  have e: "extends q s ?s" "proto_inv n ?s" using extends_step [OF st r(2), of q] by auto
  have ci: "cluster_inv n b" unfolding assms(6) by (rule decides_inv [OF r(1) assms(2-5)])
  have "refines n (c\<lparr>base := b\<rparr>) ?s"
  proof (rule refines_update [OF assms(1) e])
    show "peer_rel ?s q rf'" using v RequestVote_log [OF assms(5)] pr by (simp add: peer_rel_def votes_for_def)
  qed (use ci r(3) f in \<open>auto simp: assms(6) pend_rel_def match_rel_def vote_rel_def\<close>)
  with st show ?thesis by blast
qed

text \<open>A leader that counts: what it commits, a majority has acknowledged.\<close>

lemma set_peer_same [simp]: "set_peer p (peer c p) c = c"
  by (simp add: set_peer_def)

lemma set_peer_twice [simp]: "set_peer p rf (set_peer p rf0 c) = set_peer p rf c"
  by (simp add: set_peer_def)

lemma leader_leads: "refines n c s \<Longrightarrow> p < n \<Longrightarrow> state (peer c p) = Leader \<Longrightarrow> (currentTerm (peer c p), p) \<in> leads s"
  by (simp add: refines_def cluster_inv_def elected_inv_def)

lemma peers_of: "refines n c s \<Longrightarrow> p < n \<Longrightarrow> me (peer c p) = int p \<and> peers (peer c p) = n"
  by (simp add: refines_def cluster_inv_def peers_inv_def)

lemma commit_sim:
  assumes "refines n c s" "p < n" "odd n" "updateCommitIndex (peer c p) = Inr rf'"
  shows "\<exists>s'. (proto_step n)\<^sup>*\<^sup>* s s' \<and> refines n (set_peer p rf' c) s'"
proof (cases "rf' = peer c p")
  case False
  let ?rf = "peer c p" and ?T = "currentTerm (peer c p)"
  note r = refinesD [OF assms(1)]
  have pr: "lastIncludeIndex ?rf = -1" "lastIncludeTerm ?rf = -1" "aterm s p = ?T" "alog s p = rlog ?rf"
    "int (acommit s p) = commitIndex ?rf + 1" using r(4) [OF assms(2)] by (simp_all add: peer_rel_def)
  have me: "me ?rf = int p" "peers ?rf = n" using peers_of [OF assms(1,2)] by simp_all
  from assms(4) False obtain N others where a: "state ?rf = Leader" "match_loop ?rf [0..<peers ?rf] = Inr others"
    "N = sort (lastIndex ?rf # others) ! (length (lastIndex ?rf # others) div 2)" "commitIndex ?rf < N"
    "N \<le> lastIncludeIndex ?rf \<or> map_option LogTerm (entry_at ?rf N) = Some ?T" "rf' = undateLastApplied (?rf\<lparr>commitIndex := N\<rparr>)"
    by (rule updateCommitIndex_Inr)
  define m where "m = nat (N + 1)"
  have m: "0 < m" "int m = N + 1" using a(4) pr(5) by (simp_all add: m_def)
  have m1: "m - Suc 0 = nat N" using m by linarith
  have ent: "m \<le> length (rlog ?rf)" "LogTerm (rlog ?rf ! (m - 1)) = ?T"
    using a(5) pr(1) m by (auto simp: m1 entry_at_def lastIndex_def index2LogPos_def split: if_splits)
  have ld: "(?T, p) \<in> leads s" by (rule leader_leads [OF assms(1,2) a(1)])
  have "n div 2 < n - n div 2" using assms(3) by presburger
  then have maj: "majority n (matched ?rf N)"
    using matched_count [OF a(2) _ _ a(3)] me assms(2) by (auto simp: majority_def matched_def)
  have ack: "\<exists>e \<ge> m. (q, ?T, e) \<in> acks s" if q: "q \<in> matched ?rf N" "q \<noteq> p" for q
  proof -
    have l: "N \<le> matchIndex ?rf ! q" "q < length (matchIndex ?rf)"
      using q me match_loop_Inr [OF a(2)] by (auto simp: matched_def)
    then obtain e where "matchIndex ?rf ! q < int e" "(q, ?T, e) \<in> acks s"
      using r(6) [OF assms(2)] a(1) m by (force simp: match_rel_def)
    with l(1) m(2) show ?thesis by (intro exI [of _ e]) auto
  qed
  let ?s = "s\<lparr>acommit := (acommit s)(p := m)\<rparr>"
  have st: "proto_step n s ?s" using pr ent ack maj m(1) ld by (intro commit [OF assms(2)]) auto
  have e: "extends p s ?s" "proto_inv n ?s" using extends_step [OF st r(2), of p] by auto
  have ci: "cluster_inv n (base (set_peer p rf' c))" unfolding base_set_peer
    by (rule quiet_inv [OF r(1) assms(2)]) (use updateCommitIndex_frame [OF assms(4)] in simp)
  have "refines n (set_peer p rf' c) ?s"
  proof (rule refines_update [OF assms(1) e ci])
    show "peer_rel ?s p rf'" using pr m(2) by (simp add: peer_rel_def a(6) frame_simps)
    show "pend_rel ?s p rf' (pending (base (set_peer p rf' c)) p)" using a(1) by (simp add: pend_rel_def a(6) frame_simps)
    show "match_rel ?s rf'" using r(6) [OF assms(2)] by (simp add: match_rel_def a(6) frame_simps)
  qed (use r(3) in auto)
  with st show ?thesis by blast
qed (use assms(1) in auto)

lemma ends_sim:
  assumes "refines n c s" "odd n" "p < n" "pending (base c) p = Some args" "received (base c) n args rs"
    "election_end C now (tally (peers (peer c p)) rs) (peer c p) = Inr (won, rf')"
    "b = (base c)\<lparr>node := (node (base c))(p := rf'), pending := (pending (base c))(p := None),
      elected := (if won then insert (currentTerm (peer c p), p) (elected (base c)) else elected (base c))\<rparr>"
  shows "\<exists>s'. (proto_step n)\<^sup>*\<^sup>* s s' \<and> refines n (c\<lparr>base := b\<rparr>) s'"
  using assms(6)
proof (cases rule: election_end_Inr)
  case (won rf0 rf1)
  let ?rf = "peer c p" and ?T = "currentTerm (peer c p)"
  note r = refinesD [OF assms(1)]
  have ci: "cluster_inv n b" unfolding assms(7) by (rule ends_inv [OF r(1) assms(3-6)])
  have pr: "lastIncludeIndex ?rf = -1" "lastIncludeTerm ?rf = -1" "aterm s p = ?T" "alog s p = rlog ?rf"
    "int (acommit s p) = commitIndex ?rf + 1" using r(4) [OF assms(3)] by (simp_all add: peer_rel_def)
  have a: "rvCandidateId args = int p" "rvTerm args = ?T" using r(1) assms(3,4) won(5) by (auto simp: cluster_inv_def pending_inv_def)
  have pd: "rvLastLogTerm args = end_term (rlog ?rf)" "rvLastLogIndex args = end_index (rlog ?rf)"
    "\<exists>l. (p, ?T, p, rvLastLogTerm args, rvLastLogIndex args, l) \<in> votes s"
    using r(5) [OF assms(3)] assms(4) won(5) a by (auto simp: pend_rel_def)
  have nl: "(?T, p') \<notin> leads s" for p'
  proof
    assume l: "(?T, p') \<in> leads s"
    then have "p' = p" using elected_unique [OF ci, of ?T p' p] r(3) won(4) by (simp add: assms(7))
    with l r(1,3) won(5) show False by (auto simp: cluster_inv_def elected_inv_def reigns_def)
  qed
  have "n div 2 < voteCount (tally n rs)" using won(6) peers_of [OF assms(1,3)] by simp
  then obtain Q where Q: "majority n Q" "\<And>q. q \<in> Q \<Longrightarrow> q \<noteq> p \<Longrightarrow> \<exists>v. (q, args, v) \<in> replied (base c) \<and> rvrVoteGranted v"
    using tally_grants [OF assms(5) _ assms(3) a(1)] by blast
  have vt: "\<exists>l. (q, ?T, p, end_term (rlog ?rf), end_index (rlog ?rf), l) \<in> votes s" if q: "q \<in> Q" for q
  proof (cases "q = p")
    case False
    with Q(2) q obtain v where "(q, args, v) \<in> replied (base c)" "rvrVoteGranted v" by blast
    with r(7) a pd show ?thesis by (force simp: vote_rel_def)
  qed (use pd in simp)
  let ?s = "s\<lparr>leads := insert (?T, p) (leads s), tlog := (tlog s)(?T := alog s p), wlog := (wlog s)(?T := alog s p)\<rparr>"
  have st: "proto_step n s ?s" using pr nl vt Q(1) by (intro win [OF assms(3)]) auto
  have e: "extends p s ?s" "proto_inv n ?s" using extends_step [OF st r(2), of p] by auto
  let ?c = "c\<lparr>base := b\<lparr>node := (node b)(p := rf0)\<rparr>\<rparr>"
  have "keeps_vote (node b p) rf0" using updateCommitIndex_frame [OF won(2)] won(3) by (simp add: assms(7))
  then have ci0: "cluster_inv n (base ?c)" using quiet_inv [OF ci assms(3)] by simp
  have "refines n ?c ?s"
  proof (rule refines_update [OF assms(1) e ci0])
    show "node (base ?c) = (node (base c))(p := rf0)" by (simp add: assms(7))
    show "match_rel ?s rf0" by (simp add: match_rel_def won(1))
  qed (use pr r(3) won(4) in \<open>auto simp: assms(7) peer_rel_def won(1) pend_rel_def\<close>)
  moreover have "updateCommitIndex (peer ?c p) = Inr rf1" using won(2) by simp
  ultimately obtain s1 where s1: "(proto_step n)\<^sup>*\<^sup>* ?s s1" "refines n (set_peer p rf1 ?c) s1" using commit_sim [OF _ assms(3,2)] by blast
  have "quiet rf1 rf'" using won(3) by (simp add: quiet_def)
  then obtain s2 where "(proto_step n)\<^sup>*\<^sup>* s1 s2" "refines n (c\<lparr>base := b\<rparr>) s2"
    using quiet_sim [OF s1(2) assms(3), of rf' "c\<lparr>base := b\<rparr>"] ci by (auto simp: assms(7))
  with st s1(1) show ?thesis by (meson converse_rtranclp_into_rtranclp rtranclp_trans)
next
  case same
  have ci: "cluster_inv n b" unfolding assms(7) by (rule ends_inv [OF refinesD(1) [OF assms(1)] assms(3-6)])
  show ?thesis by (rule quiet_sim [OF assms(1,3), of rf']) (use ci same in \<open>auto simp: assms(7) quiet_def\<close>)
next
  case (down f)
  have ci: "cluster_inv n b" unfolding assms(7) by (rule ends_inv [OF refinesD(1) [OF assms(1)] assms(3-6)])
  show ?thesis by (rule quiet_sim [OF assms(1,3), of rf']) (use ci down in \<open>auto simp: assms(7) quiet_def\<close>)
qed

subsection \<open>Replication\<close>

lemma append_request_msg:
  assumes "append_request server rf = Inr (Some a)" "lastIncludeIndex rf = -1"
  shows "state rf = Leader \<and> aeTerm a = currentTerm rf \<and> aeLeaderId a = me rf \<and> aeLeaderCommit a = commitIndex rf \<and>
    (aePrevLogIndex a < -1 \<longrightarrow> aeEntries a = []) \<and>
    (-1 \<le> aePrevLogIndex a \<longrightarrow> msg_end a = length (rlog rf) \<and> aeEntries a = drop (nat (aePrevLogIndex a + 1)) (rlog rf) \<and>
       (0 \<le> aePrevLogIndex a \<longrightarrow> aePrevLogTerm a = LogTerm (rlog rf ! nat (aePrevLogIndex a))))"
proof -
  from assms(1) obtain nx where nx: "go_nth (nextIndex rf) server = Inr nx" and l: "state rf = Leader"
    by (auto simp: append_request_def res_bind_Inr_iff split: if_splits)
  show ?thesis
  proof (cases "-1 \<le> nx - 1")
    case True
    with assms l nx have p: "aePrevLogIndex a = nx - 1" "aeEntries a = drop (nat nx) (rlog rf)" "nx \<le> int (length (rlog rf))"
      "0 \<le> nx - 1 \<Longrightarrow> aePrevLogTerm a = LogTerm (rlog rf ! nat (nx - 1))"
      "aeTerm a = currentTerm rf" "aeLeaderId a = me rf" "aeLeaderCommit a = commitIndex rf"
      by (auto simp: append_request_def res_bind_Inr_iff Let_def index2LogPos_def go_from_Inr_iff go_nth_Inr_iff split: if_splits)
    then have "msg_end a = length (rlog rf)" using True by (simp add: msg_end_def)
    with p l True show ?thesis by simp
  next
    case False
    with assms l nx show ?thesis by (auto simp: append_request_def res_bind_Inr_iff Let_def)
  qed
qed

lemma sends_sim:
  assumes "refines n c s" "p < n" "q < n" "q \<noteq> p" "append_request (int q) (peer c p) = Inr (Some args)"
  shows "\<exists>s'. (proto_step n)\<^sup>*\<^sup>* s s' \<and> refines n (c\<lparr>sentAE := insert (q, args) (sentAE c)\<rparr>) s'"
proof -
  let ?rf = "peer c p" and ?T = "currentTerm (peer c p)"
  note r = refinesD [OF assms(1)]
  have pr: "lastIncludeIndex ?rf = -1" "aterm s p = ?T" "alog s p = rlog ?rf"
    "int (acommit s p) = commitIndex ?rf + 1" using r(4) [OF assms(2)] by (simp_all add: peer_rel_def)
  note m = append_request_msg [OF assms(5) pr(1)]
  have ld: "(?T, p) \<in> leads s" using leader_leads [OF assms(1,2)] m by simp
  then have t: "tlog s ?T = rlog ?rf" using log_invD(8) [OF proto_invD(1) [OF r(2)] ld pr(2)] pr(3) by simp
  let ?s = "s\<lparr>offers := insert (?T, length (alog s p), acommit s p) (offers s)\<rparr>"
  have st: "proto_step n s ?s" by (rule offer [OF assms(2) pr(2) ld])
  have e: "extends p s ?s" "proto_inv n ?s" using extends_step [OF st r(2), of p] by auto
  have me: "me ?rf = int p" using peers_of [OF assms(1,2)] by simp
  have "msg_rel ?s (q, args)" using m ld t pr(3,4) assms(4) me by (auto simp: msg_rel_def)
  moreover have "peer_rel ?s p ?rf" using r(4) [OF assms(2)] by (simp add: peer_rel_def)
  moreover have "pend_rel ?s p ?rf (pending (base c) p)" by (rule pend_rel_mono [OF e(1) r(5) [OF assms(2)]])
  moreover have "match_rel ?s ?rf" by (rule match_rel_mono [OF e(1) r(6) [OF assms(2)]])
  ultimately have "refines n (c\<lparr>sentAE := insert (q, args) (sentAE c)\<rparr>) ?s"
    using r(1,3) by (intro refines_update [OF assms(1) e]) auto
  with st show ?thesis by blast
qed

lemma AppendEntries_frame:
  assumes "AppendEntries C now args rf = Inr (r, rf')"
  shows "lastIncludeTerm rf' = lastIncludeTerm rf \<and> lastIncludeIndex rf' = lastIncludeIndex rf \<and> matchIndex rf' = matchIndex rf"
  using assms
proof (cases rule: AppendEntries_Inr)
  case (accept f s v rf3)
  have "lastIncludeIndex rf3 \<le> aePrevLogIndex args" "aePrevLogIndex args \<le> lastIndex rf3"
    using accept(3,4,5) by (simp_all add: lastIndex_def)
  with accept(7) show ?thesis by (rule CopyEntries_Inr) (use accept(3) in \<open>auto simp: frame_simps\<close>)
qed auto

lemma AppendEntries_follower:
  assumes "AppendEntries C now args rf = Inr (r, rf')" "currentTerm rf \<le> aeTerm args" "state rf = Leader \<Longrightarrow> aeTerm args \<noteq> currentTerm rf"
  shows "state rf' = Follower"
  using assms(1)
proof (cases rule: AppendEntries_Inr)
  case (reject f s v)
  with assms(2,3) show ?thesis by (cases "state rf") auto
next
  case (accept f s v rf3)
  have "lastIncludeIndex rf3 \<le> aePrevLogIndex args" "aePrevLogIndex args \<le> lastIndex rf3"
    using accept(3,4,5) by (simp_all add: lastIndex_def)
  from CopyEntries_vote [OF accept(7) this] accept(3,8) assms(3) show ?thesis by (cases "state rf") auto
qed (use assms(2) in simp)

lemma delivers_sim:
  assumes "refines n c s" "q < n" "(q, args) \<in> sentAE c" "AppendEntries C now args (peer c q) = Inr (r, rf')"
  shows "\<exists>s'. (proto_step n)\<^sup>*\<^sup>* s s' \<and> refines n ((set_peer q rf' c)\<lparr>repliedAE := insert (q, args, r) (repliedAE c)\<rparr>) s'"
    (is "\<exists>s'. _ \<and> refines n ?c s'")
proof -
  let ?rf = "peer c q"
  note rr = refinesD [OF assms(1)]
  have ci: "cluster_inv n (base ?c)"
    using quiet_inv [OF rr(1) assms(2) AppendEntries_keeps_vote [OF assms(4)]] by (simp add: base_set_peer)
  show ?thesis
  proof (cases "aerSuccess r")
    case False
    have "quiet ?rf rf'" using assms(4) by (cases rule: AppendEntries_Inr) (use False in \<open>auto simp: quiet_def\<close>)
    then show ?thesis using ci False by (intro quiet_sim [OF assms(1,2)]) (auto simp: ack_rel_def)
  next
    case True
    have pr: "lastIncludeIndex ?rf = -1" "lastIncludeTerm ?rf = -1" "aterm s q = currentTerm ?rf" "alog s q = rlog ?rf"
      "int (acommit s q) = commitIndex ?rf + 1" using rr(4) [OF assms(2)] by (simp_all add: peer_rel_def)
    note m = merged_accept [OF assms(4) True] and fr = AppendEntries_frame [OF assms(4)]
    define k where "k = nat (aePrevLogIndex args + 1)"
    let ?T = "aeTerm args" and ?e = "msg_end args" and ?l = "merge k (msg_end args) (tlog s (aeTerm args)) (alog s q)"
    have k: "int k = aePrevLogIndex args + 1" "-1 \<le> aePrevLogIndex args" using m pr(1) by (simp_all add: k_def)
    have ke: "k \<le> ?e" by (simp add: msg_end_def k_def)
    from rr(8) [OF assms(3)] k obtain p lc where g: "p \<noteq> q" "(?T, p) \<in> leads s" "(?T, ?e, lc) \<in> offers s" "aeLeaderCommit args + 1 = int lc"
      "aeEntries args = drop k (take ?e (tlog s ?T))" "0 < k \<Longrightarrow> aePrevLogTerm args = LogTerm (take ?e (tlog s ?T) ! nat (aePrevLogIndex args))"
      by (auto simp: msg_rel_def k_def)
    have el: "?e \<le> length (tlog s ?T)" using log_invD(10) [OF proto_invD(1) [OF rr(2)] g(3)] by simp
    have l: "rlog rf' = ?l"
      using m pr(1,4) g(5) by (simp add: merged_log_def merge_def k_def drop_take Let_def)
    have n1: "nat (aePrevLogIndex args) = k - 1" if "0 < k" using k that by linarith
    have chk: "LogTerm (alog s q ! (k - 1)) = LogTerm (tlog s ?T ! (k - 1))" if "0 < k"
      using m pr(1,4) k g(6) [OF that] that ke n1 [OF that] by (auto simp: entry_at_def index2LogPos_def lastIndex_def)
    have kl: "k \<le> length (alog s q)" using m pr(1,4) k by (simp add: lastIndex_def)
    let ?s = "s\<lparr>aterm := (aterm s)(q := ?T), alog := (alog s)(q := ?l),
      acommit := (acommit s)(q := max (acommit s q) (min lc (length ?l))), acks := insert (q, ?T, ?e) (acks s)\<rparr>"
    have st: "proto_step n s ?s" using m pr(3) chk kl by (intro accept [OF assms(2) g(3) _ ke]) auto
    have e: "extends q s ?s" "proto_inv n ?s" using extends_step [OF st rr(2), of q] by auto
    have nl: "?T \<noteq> currentTerm ?rf" if "state ?rf = Leader"
      using that g(1,2) leader_leads [OF assms(1,2)] log_invD(9) [OF proto_invD(1) [OF rr(2)]] by metis
    have fo: "state rf' = Follower" by (rule AppendEntries_follower [OF assms(4)]) (use m nl in auto)
    have co: "int (max (acommit s q) (min lc (length ?l))) = commitIndex rf' + 1"
      using m pr(1,5) g(4) fr l by (simp add: lastIndex_def of_nat_max of_nat_min)
    have "refines n ?c ?s"
    proof (rule refines_update [OF assms(1) e ci])
      show "peer_rel ?s q rf'" using m l fr pr(1,2) co by (simp add: peer_rel_def)
    qed (use fo rr(3) k in \<open>auto simp: pend_rel_def match_rel_def ack_rel_def\<close>)
    with st show ?thesis by blast
  qed
qed

lemma append_reply_cases:
  assumes "append_reply C server args reply rf = Inr (res, rf')"
  obtains (quiet) "quiet rf rf'" "keeps_vote rf rf'"
  | (count) r ni where "reply = Some r" "aerSuccess r" "aeTerm args = currentTerm rf"
      "updateCommitIndex (rf\<lparr>nextIndex := ni, matchIndex := (matchIndex rf)[nat server := aePrevLogIndex args + int (length (aeEntries args))]\<rparr>) = Inr rf'"
proof (cases "\<exists>r. reply = Some r \<and> aerSuccess r \<and> aeTerm args = currentTerm rf \<and> \<not> currentTerm rf < aerTerm r")
  case True
  with assms count show thesis by (auto simp: append_reply_def Let_def res_bind_Inr_iff go_set_Inr_iff)
next
  case False
  have "quiet rf rf'" using False assms
    by (auto simp: append_reply_def Let_def res_bind_Inr_iff persistState_Inr_iff quiet_def split: option.splits if_splits)
  moreover have "keeps_vote rf rf'" using other_step_keeps_vote [OF append_answered [OF assms]] .
  ultimately show thesis by (rule quiet)
qed

lemma pend_rel_cong: "rlog rf' = rlog rf \<Longrightarrow> state rf' = state rf \<Longrightarrow> pend_rel s p rf' req = pend_rel s p rf req"
  by (simp add: pend_rel_def)

lemma answers_sim:
  assumes "refines n c s" "p < n" "odd n" "aeLeaderId args = int p" "(q, args) \<in> sentAE c" "\<And>r. reply = Some r \<Longrightarrow> (q, args, r) \<in> repliedAE c"
    "append_reply C (int q) args reply (peer c p) = Inr (res, rf')"
  shows "\<exists>s'. (proto_step n)\<^sup>*\<^sup>* s s' \<and> refines n (set_peer p rf' c) s'"
  using assms(7)
proof (cases rule: append_reply_cases)
  case quiet
  have "cluster_inv n (base (set_peer p rf' c))"
    unfolding base_set_peer by (rule quiet_inv [OF refinesD(1) [OF assms(1)] assms(2) quiet(2)])
  with quiet(1) show ?thesis by (intro quiet_sim [OF assms(1,2)]) auto
next
  case (count r ni)
  let ?rf = "peer c p" and ?mi = "(matchIndex (peer c p))[q := aePrevLogIndex args + int (length (aeEntries args))]"
  note rr = refinesD [OF assms(1)]
  define rf0 where "rf0 = ?rf\<lparr>nextIndex := ni, matchIndex := ?mi\<rparr>"
  have k: "-1 \<le> aePrevLogIndex args" "(q, currentTerm ?rf, msg_end args) \<in> acks s"
    using rr(9) [OF assms(6) [OF count(1)]] count(2,3) by (auto simp: ack_rel_def)
  then have v: "aePrevLogIndex args + int (length (aeEntries args)) < int (msg_end args)" by (simp add: msg_end_def)
  have "\<exists>e. ?mi ! i < int e \<and> (i, currentTerm ?rf, e) \<in> acks s" if "state ?rf = Leader" "i < length ?mi" "0 \<le> ?mi ! i" for i
    using that rr(6) [OF assms(2)] k(2) v by (cases "i = q") (auto simp: match_rel_def)
  then have mr: "match_rel s rf0" by (simp add: match_rel_def rf0_def)
  have ci: "cluster_inv n (base (set_peer p rf0 c))" unfolding base_set_peer
    by (rule quiet_inv [OF rr(1) assms(2)]) (simp add: rf0_def)
  have pd: "peer_rel s p rf0" "pend_rel s p rf0 (pending (base c) p)"
    using rr(4,5) [OF assms(2)] pend_rel_cong [of rf0 ?rf] by (simp_all add: rf0_def peer_rel_def)
  have "refines n (set_peer p rf0 c) s"
    by (rule refines_update [OF assms(1) extends_refl rr(2) ci, where p = p and rf' = rf0]) (use mr pd rr(3) in simp_all)
  moreover have "updateCommitIndex (peer (set_peer p rf0 c) p) = Inr rf'" using count(4) by (simp add: rf0_def)
  ultimately have "\<exists>s'. (proto_step n)\<^sup>*\<^sup>* s s' \<and> refines n (set_peer p rf' (set_peer p rf0 c)) s'" using commit_sim assms(2,3) by blast
  then show ?thesis by simp
qed

lemma commands_sim:
  assumes "refines n c s" "p < n" "raft_Start C cmd (peer c p) = Inr (res, rf')"
  shows "\<exists>s'. (proto_step n)\<^sup>*\<^sup>* s s' \<and> refines n (set_peer p rf' c) s'"
proof (cases "state (peer c p) = Leader")
  case False
  with assms(1,3) show ?thesis by (auto simp: raft_Start_def)
next
  case True
  let ?rf = "peer c p" and ?e = "\<lparr>LogTerm = currentTerm (peer c p), LogValue = cmd\<rparr>"
  note rr = refinesD [OF assms(1)]
  from True assms(3) obtain f where f: "rf' = ?rf\<lparr>rlog := rlog ?rf @ [?e], disk := f\<rparr>"
    by (auto simp: raft_Start_def Let_def res_simps)
  have pr: "aterm s p = currentTerm ?rf" "alog s p = rlog ?rf" using rr(4) [OF assms(2)] by (simp_all add: peer_rel_def)
  let ?s = "s\<lparr>alog := (alog s)(p := alog s p @ [?e]), tlog := (tlog s)(currentTerm ?rf := alog s p @ [?e])\<rparr>"
  have st: "proto_step n s ?s" by (rule append [OF assms(2) pr(1) leader_leads [OF assms(1,2) True]]) simp
  have e: "extends p s ?s" "proto_inv n ?s" using extends_step [OF st rr(2), of p] by auto
  have "cluster_inv n (base (set_peer p rf' c))" unfolding base_set_peer
    by (rule quiet_inv [OF rr(1) assms(2)]) (simp add: f)
  then have "refines n (set_peer p rf' c) ?s"
    using rr(3) rr(4-6) [OF assms(2)] True by (intro refines_update [OF assms(1) e]) (auto simp: f peer_rel_def pend_rel_def match_rel_def)
  with st show ?thesis by blast
qed

lemma idle_sim:
  assumes "refines n c s" "p < n" "quiet (peer c p) rf'" "other_step C (peer c p) rf'"
  shows "\<exists>s'. (proto_step n)\<^sup>*\<^sup>* s s' \<and> refines n (set_peer p rf' c) s'"
proof -
  have "cluster_inv n (base (set_peer p rf' c))" unfolding base_set_peer
    by (rule quiet_inv [OF refinesD(1) [OF assms(1)] assms(2) other_step_keeps_vote [OF assms(4)]])
  with assms(3) show ?thesis by (intro quiet_sim [OF assms(1,2)]) auto
qed

lemma vote_sim:
  assumes "vote_step C n (base c) b" "refines n c s" "odd n"
  shows "\<exists>s'. (proto_step n)\<^sup>*\<^sup>* s s' \<and> refines n (c\<lparr>base := b\<rparr>) s'"
  using assms(1)
proof (cases rule: vote_step.cases)
  case (waits p now ms rf')
  then have "b = base c" using election_begin_vote [OF waits(4)] by simp
  with assms(2) show ?thesis by auto
next
  case (starts p now ms args rf')
  with assms(2) show ?thesis using starts_sim by blast
next
  case (decides q args now r rf')
  with assms(2) show ?thesis using decides_sim by blast
next
  case (ends p args rs now won rf')
  with assms(2,3) show ?thesis using ends_sim by blast
qed

lemma net_step_sim:
  assumes "net_step C n c c'" "refines n c s" "odd n"
  shows "\<exists>s'. (proto_step n)\<^sup>*\<^sup>* s s' \<and> refines n c' s'"
  using assms(1)
proof (cases rule: net_step.cases)
  case (elects b)
  with assms show ?thesis using vote_sim by blast
next
  case (sends p q args)
  with assms show ?thesis using sends_sim by blast
next
  case (delivers q args now r rf')
  with assms show ?thesis using delivers_sim by blast
next
  case (answers p args q reply res rf')
  with assms show ?thesis using answers_sim by blast
next
  case (commands p cmd res rf')
  with assms show ?thesis using commands_sim by blast
next
  case (beats p now ks rf')
  have "quiet (peer c p) rf'" using beats(3) by (auto simp: quiet_def appendEntries_turn_def Let_def res_bind_Inr_iff split: if_splits)
  with beats assms show ?thesis using idle_sim [OF _ _ _ beat] by blast
next
  case (hands_over p)
  have "quiet (peer c p) (Applyer (peer c p))" by (auto simp: quiet_def Applyer_def split: list.splits option.splits)
  with hands_over assms show ?thesis using idle_sim [OF _ _ _ handed_over] by blast
next
  case (stops p)
  have "quiet (peer c p) (raft_Kill (peer c p))" by (simp add: quiet_def raft_Kill_def)
  with stops assms show ?thesis using idle_sim [OF _ _ _ stopped] by blast
qed

interpretation raft_sim: forward_simulation "net_step C n" "proto_step n" "\<lambda>c s. odd n \<and> refines n c s" for C n
  by unfold_locales (use net_step_sim in blast)

lemma net_start_refines:
  assumes "net_start n c"
  shows "\<exists>s. proto_start n s \<and> refines n c s"
proof -
  define s where "s = \<lparr>aterm = \<lambda>_. 0, alog = \<lambda>_. [], acommit = \<lambda>_. 0, leads = {}, tlog = \<lambda>_. [], wlog = \<lambda>_. [],
    votes = {}, offers = {}, acks = {}\<rparr>"
  have st: "proto_start n s" by (simp add: proto_start_def s_def)
  then have "proto_inv n s" by (rule proto_start_inv)
  moreover have "cluster_inv n (base c)"
    by (rule cluster_start_inv) (use assms in \<open>simp add: net_start_def cluster_start_def fresh_peer_def\<close>)
  ultimately have "refines n c s"
    using assms by (simp add: refines_def net_start_def fresh_peer_def s_def peer_rel_def pend_rel_def match_rel_def)
  with st show ?thesis by blast
qed

lemma reachable_refines:
  assumes "net_start n c0" "odd n" "(net_step C n)\<^sup>*\<^sup>* c0 c"
  shows "\<exists>s. refines n c s"
  using net_start_refines [OF assms(1)] raft_sim.run [OF assms(3)] assms(2) by blast

lemma later_refines:
  assumes "refines n c s" "odd n" "(net_step C n)\<^sup>*\<^sup>* c c'"
  shows "\<exists>s'. refines n c' s' \<and> grows s s'"
  using raft_sim.run [OF assms(3)] assms(1,2) proto_steps_grow refinesD(2) by blast

text \<open>Entries of a peer that has its whole log.\<close>

lemma entry_at_whole: "lastIncludeIndex rf = -1 \<Longrightarrow> entry_at rf i = (if 0 \<le> i \<and> i < int (length (rlog rf)) then Some (rlog rf ! nat i) else None)"
  by (auto simp: entry_at_def lastIndex_def index2LogPos_def)

lemma entry_at_take_eq:
  assumes "lastIncludeIndex a = -1" "lastIncludeIndex b = -1" "take k (rlog a) = take k (rlog b)" "i < int k"
    "k \<le> length (rlog a)" "k \<le> length (rlog b)"
  shows "entry_at a i = entry_at b i"
proof (cases "0 \<le> i")
  case True
  then have "nat i < k" using assms(4) by simp
  then have "rlog a ! nat i = rlog b ! nat i" using assms(3) by (metis nth_take)
  with True assms(1,2,4-6) show ?thesis by (simp add: entry_at_whole)
qed (use assms in \<open>simp add: entry_at_whole\<close>)

lemma peer_facts:
  assumes "refines n c s" "p < n"
  shows "lastIncludeIndex (peer c p) = -1" "aterm s p = currentTerm (peer c p)" "alog s p = rlog (peer c p)"
    "int (acommit s p) = commitIndex (peer c p) + 1" "committed n s (aterm s p) (rlog (peer c p)) (acommit s p)"
    "acommit s p \<le> length (rlog (peer c p))" "wf_log (tlog s) (aterm s p) (rlog (peer c p))"
proof -
  note r = refinesD [OF assms(1)]
  show 1: "lastIncludeIndex (peer c p) = -1" "aterm s p = currentTerm (peer c p)" "alog s p = rlog (peer c p)"
    "int (acommit s p) = commitIndex (peer c p) + 1" using r(4) [OF assms(2)] by (simp_all add: peer_rel_def)
  have "committed n s (aterm s p) (alog s p) (acommit s p)" using proto_invD(4) [OF r(2)] assms(2) by (simp add: commit_inv_def)
  then show 2: "committed n s (aterm s p) (rlog (peer c p)) (acommit s p)" using 1(3) by simp
  then show "acommit s p \<le> length (rlog (peer c p))" by (rule committed_length)
  show "wf_log (tlog s) (aterm s p) (rlog (peer c p))" using log_invD(2) [OF proto_invD(1) [OF r(2)] assms(2)] 1(3) by simp
qed

subsection \<open>A peer of a cluster\<close>

text \<open>The steps of a peer in a cluster are steps of the peer alone: the cluster gives the guarantees \<open>node_step\<close> asks for.\<close>

lemma vote_step_node:
  assumes "vote_step C n b b'"
  shows "node b' p = node b p \<or> node_step C (node b p) (node b' p)"
  using assms by (cases rule: vote_step.cases) (auto intro: node_step.intros)

lemma delivery_agrees:
  assumes "refines n c s" "q < n" "(q, args) \<in> sentAE c" "currentTerm (peer c q) \<le> aeTerm args"
  shows "agrees args (peer c q)" "state (peer c q) = Leader \<Longrightarrow> aeTerm args \<noteq> currentTerm (peer c q)"
proof -
  note r = refinesD [OF assms(1)] and f = peer_facts [OF assms(1,2)]
  have i: "log_inv n s" "ballot_inv n s" using r(2) by (simp_all add: proto_inv_def)
  let ?T = "aeTerm args" and ?l = "rlog (peer c q)" and ?k = "nat (aePrevLogIndex args + 1)"
  from r(8) [OF assms(3)] obtain p where p: "p \<noteq> q" "(?T, p) \<in> leads s" by (auto simp: msg_rel_def)
  then show "?T \<noteq> currentTerm (peer c q)" if "state (peer c q) = Leader"
    using that leader_leads [OF assms(1,2)] log_invD(9) [OF i(1)] by metis
  show "agrees args (peer c q)"
  proof (cases "-1 \<le> aePrevLogIndex args")
    case True
    with r(8) [OF assms(3)] have es: "aeEntries args = drop ?k (take (msg_end args) (tlog s ?T))" by (auto simp: msg_rel_def)
    have tk: "take (acommit s q) ?l = take (acommit s q) (tlog s ?T)"
      using p assms(4) f(2) by (intro committed_in_tlog [OF i f(5)]) (auto simp: led_def)
    have "LogTerm (?l ! (?k + j)) = LogTerm (aeEntries args ! j)" if "j < length (aeEntries args)" "aePrevLogIndex args + 1 + int j \<le> commitIndex (peer c q)" for j
    proof -
      have "?k + j < acommit s q" using that(2) f(4) True by linarith
      then have "?l ! (?k + j) = tlog s ?T ! (?k + j)" using tk by (metis nth_take)
      moreover have "0 < length (take (msg_end args) (tlog s ?T)) - ?k"
        using that(1) arg_cong [OF es, of length] by (metis length_drop not_less_zero gr0I)
      then have "aeEntries args ! j = tlog s ?T ! (?k + j)" using that(1) es by simp
      ultimately show ?thesis by simp
    qed
    then show ?thesis using True f(1,4,6) by (auto simp: agrees_def entry_at_whole nat_add_distrib)
  qed (use r(8) [OF assms(3)] in \<open>auto simp: agrees_def msg_rel_def\<close>)
qed

lemma answer_within:
  assumes "refines n c s" "p < n" "aeLeaderId args = int p" "(q, args) \<in> sentAE c" "aeTerm args = currentTerm (peer c p)"
  shows "aePrevLogIndex args + int (length (aeEntries args)) \<le> lastIndex (peer c p)"
proof -
  note r = refinesD [OF assms(1)] and f = peer_facts [OF assms(1,2)]
  have i: "log_inv n s" using r(2) by (simp add: proto_inv_def)
  from r(8) [OF assms(4)] assms(3,5) have ld: "(currentTerm (peer c p), p) \<in> leads s" by (auto simp: msg_rel_def)
  have t: "tlog s (currentTerm (peer c p)) = rlog (peer c p)" using log_invD(8) [OF i ld f(2)] f(3) by simp
  show ?thesis
  proof (cases "-1 \<le> aePrevLogIndex args")
    case True
    with r(8) [OF assms(4)] assms(5) have "\<exists>lc. (currentTerm (peer c p), msg_end args, lc) \<in> offers s" by (auto simp: msg_rel_def)
    then have "msg_end args \<le> length (rlog (peer c p))" using log_invD(10) [OF i] t by metis
    then show ?thesis using True f(1) by (simp add: msg_end_def lastIndex_def)
  qed (use r(8) [OF assms(4)] f(1) in \<open>auto simp: msg_rel_def lastIndex_def\<close>)
qed

lemma net_step_node:
  assumes "net_step C n c c'" "refines n c s"
  shows "peer c' p = peer c p \<or> node_step C (peer c p) (peer c' p)"
  using assms(1)
proof (cases rule: net_step.cases)
  case (elects b)
  then show ?thesis using vote_step_node by simp
next
  case (delivers q args now r rf')
  show ?thesis
  proof (cases "q = p")
    case True
    consider "rf' = peer c q" | "currentTerm (peer c q) \<le> aeTerm args" using delivers(4) by (cases rule: AppendEntries_Inr) auto
    then show ?thesis
    proof cases
      case 2
      from delivery_agrees [OF assms(2) delivers(2,3) this] delivers(4) have "node_step C (peer c q) rf'"
        by (intro node_step.append_entries) auto
      with True delivers(1) show ?thesis by simp
    qed (use True delivers(1) in simp)
  qed (use delivers(1) in simp)
next
  case (answers p' args q reply res rf')
  show ?thesis
  proof (cases "p' = p")
    case True
    consider "rf' = peer c p'" | "aeTerm args = currentTerm (peer c p')"
      using answers(6) by (cases "aeTerm args = currentTerm (peer c p')") (auto simp: append_reply_def split: option.splits)
    then show ?thesis
    proof cases
      case 2
      from answer_within [OF assms(2) answers(2-4) this] answers(6) have "node_step C (peer c p') rf'" by (intro node_step.append_replied)
      with True answers(1) show ?thesis by simp
    qed (use True answers(1) in simp)
  qed (use answers(1) in simp)
qed (auto intro: node_step.intros)

lemma net_steps_node:
  assumes "(net_step C n)\<^sup>*\<^sup>* c0 c" "net_start n c0" "odd n"
  shows "(node_step C)\<^sup>*\<^sup>* (peer c0 p) (peer c p)"
  using assms
proof (induction rule: rtranclp_induct)
  case (step b d)
  obtain s where "refines n b s" using reachable_refines step by blast
  with net_step_node [OF step(2)] have "peer d p = peer b p \<or> node_step C (peer b p) (peer d p)" by blast
  with step show ?case by (metis rtranclp.rtrancl_into_rtrancl)
qed simp

lemma fresh_peer_inv: "fresh_peer n p rf \<Longrightarrow> raft_inv rf"
  by (simp add: fresh_peer_def raft_inv_def idx_inv_def lastIndex_def)

text \<open>Without snapshots a peer sends commands only.\<close>

lemma sent_updates [simp]:
  "sent (rf\<lparr>nextIndex := ni\<rparr>) = sent rf" "sent (rf\<lparr>matchIndex := mi\<rparr>) = sent rf" "sent (rf\<lparr>disk := f\<rparr>) = sent rf"
  "sent (rf\<lparr>votedFor := v\<rparr>) = sent rf" "sent (rf\<lparr>state := x\<rparr>) = sent rf" "sent (rf\<lparr>currentTerm := t\<rparr>) = sent rf"
  "sent (rf\<lparr>leaderId := j\<rparr>) = sent rf" "sent (rf\<lparr>lastHearBeatTime := h\<rparr>) = sent rf" "sent (rf\<lparr>rlog := l\<rparr>) = sent rf"
  "sent (rf\<lparr>commitIndex := k\<rparr>) = sent rf" "sent (rf\<lparr>IisBack := b\<rparr>) = sent rf" "sent (rf\<lparr>lastSendHeartbeatTime := h\<rparr>) = sent rf"
  by (simp_all add: sent_def)

lemma undate_commands: "list_all CommandValid (sent rf) \<Longrightarrow> list_all CommandValid (sent (undateLastApplied rf))"
proof (induction rf rule: undateLastApplied.induct)
  case (1 rf)
  let ?i = "lastApplied rf + 1"
  let ?rf = "rf\<lparr>lastApplied := ?i, applyChTerm := applyChTerm rf @ [command_msg rf ?i], IisBack := (IisBackIndex rf = ?i \<or> IisBack rf)\<rparr>"
  have "list_all CommandValid (sent ?rf)" using "1.prems" by (simp add: sent_def command_msg_def)
  with "1.IH" "1.prems" show ?case by (subst undateLastApplied.simps) (auto simp: Let_def sent_def)
qed

lemma updateCommitIndex_commands: "updateCommitIndex rf = Inr rf' \<Longrightarrow> list_all CommandValid (sent rf) \<Longrightarrow> list_all CommandValid (sent rf')"
  by (cases "rf' = rf") (auto elim!: updateCommitIndex_Inr intro!: undate_commands)

lemma AppendEntries_commands:
  assumes "AppendEntries C now args rf = Inr (r, rf')" "list_all CommandValid (sent rf)"
  shows "list_all CommandValid (sent rf')"
  using assms(1)
proof (cases rule: AppendEntries_Inr)
  case (accept f s v rf3)
  have "lastIncludeIndex rf3 \<le> aePrevLogIndex args" "aePrevLogIndex args \<le> lastIndex rf3"
    using accept(3,4,5) by (simp_all add: lastIndex_def)
  with accept(7) show ?thesis by (rule CopyEntries_Inr) (use accept(3) assms(2) in \<open>auto intro!: undate_commands\<close>)
qed (use assms(2) in auto)

lemma election_end_commands:
  assumes "election_end C now v rf = Inr (w, rf')" "list_all CommandValid (sent rf)"
  shows "list_all CommandValid (sent rf')"
  using assms(1)
proof (cases rule: election_end_Inr)
  case (won rf0 rf1)
  have "list_all CommandValid (sent rf0)" using assms(2) by (simp add: won(1) sent_def)
  from updateCommitIndex_commands [OF won(2) this] won(3) show ?thesis by (simp add: sent_def)
qed (use assms(2) in auto)

lemma append_reply_commands:
  assumes "append_reply C server args reply rf = Inr (res, rf')" "list_all CommandValid (sent rf)"
  shows "list_all CommandValid (sent rf')"
  using append_reply_Inr [OF assms(1)] assms(2)
  by (elim disjE exE conjE) (auto intro: updateCommitIndex_commands)

lemma RequestVote_commands:
  assumes "RequestVote C now args rf = Inr (r, rf')" "list_all CommandValid (sent rf)"
  shows "list_all CommandValid (sent rf')"
  using assms(1) by (rule RequestVote_Inr) (use assms(2) in \<open>simp add: sent_def\<close>)

lemma sent_same:
  "election_begin C now ms rf = Inr (req, rf') \<Longrightarrow> sent rf' = sent rf" "raft_Start C cmd rf = Inr (res, rf') \<Longrightarrow> sent rf' = sent rf"
  "appendEntries_turn now rf = Inr (ks, rf') \<Longrightarrow> sent rf' = sent rf" "sent (Applyer rf) = sent rf" "sent (raft_Kill rf) = sent rf"
  by (auto simp: election_begin_def raft_Start_def appendEntries_turn_def Applyer_def raft_Kill_def sent_def Let_def res_simps
      split: if_splits list.splits option.splits)

lemma net_step_commands:
  assumes "net_step C n c c'" "list_all CommandValid (sent (peer c p))"
  shows "list_all CommandValid (sent (peer c' p))"
  using assms(1)
proof (cases rule: net_step.cases)
  case (elects b)
  from elects(2) have "list_all CommandValid (sent (node b p))"
    by (cases rule: vote_step.cases) (use assms(2) in \<open>auto intro: RequestVote_commands election_end_commands simp: sent_same(1)\<close>)
  with elects(1) show ?thesis by simp
qed (use assms(2) in \<open>auto intro: AppendEntries_commands append_reply_commands simp: sent_same\<close>)

lemma net_steps_commands:
  "(net_step C n)\<^sup>*\<^sup>* c0 c \<Longrightarrow> list_all CommandValid (sent (peer c0 p)) \<Longrightarrow> list_all CommandValid (sent (peer c p))"
  by (induction rule: rtranclp_induct) (auto intro: net_step_commands)

lemma committed_entries_agree:
  assumes "refines n c s" "refines n c' s'" "odd n" "grows s s'" "p < n" "q < n"
    "0 \<le> i" "i \<le> commitIndex (peer c p)" "i \<le> commitIndex (peer c' q)"
  shows "\<exists>e. entry_at (peer c p) i = Some e \<and> entry_at (peer c' q) i = Some e"
proof -
  note p = peer_facts [OF assms(1,5)] and q = peer_facts [OF assms(2,6)]
  let ?k = "Suc (nat i)"
  have k: "?k \<le> acommit s p" "?k \<le> acommit s' q" using assms(7-9) p(4) q(4) by linarith+
  have "committed n s' (aterm s p) (rlog (peer c p)) ?k" using committed_mono [OF assms(4) committed_less [OF p(5) k(1)]] by simp
  moreover have "committed n s' (aterm s' q) (rlog (peer c' q)) ?k" using committed_less [OF q(5) k(2)] .
  moreover have "log_inv n s'" "ballot_inv n s'" using refinesD(2) [OF assms(2)] by (simp_all add: proto_inv_def)
  ultimately have "take ?k (rlog (peer c p)) = take ?k (rlog (peer c' q))" using committed_agree by blast
  then have "entry_at (peer c p) i = entry_at (peer c' q) i"
    using assms(7) k p(6) q(6) by (intro entry_at_take_eq [OF p(1) q(1), of ?k]) auto
  moreover have "entry_at (peer c p) i = Some (rlog (peer c p) ! nat i)" using assms(7) k p(1,6) by (auto simp: entry_at_whole)
  ultimately show ?thesis by metis
qed

subsection \<open>A run of three peers\<close>

lemma demo_net_start: "net_start 3 demo_net"
  by (simp add: net_start_def demo_net_def demo_cluster_def fresh_peer_def demo_peer_def zero_raft_def sent_def)

lemma elects_steps: "(vote_step C n)\<^sup>*\<^sup>* b b' \<Longrightarrow> (net_step C n)\<^sup>*\<^sup>* (c\<lparr>base := b\<rparr>) (c\<lparr>base := b'\<rparr>)"
proof (induction rule: rtranclp_induct)
  case (step b1 b2)
  then have "net_step C n (c\<lparr>base := b1\<rparr>) (c\<lparr>base := b1, base := b2\<rparr>)" by (intro elects) simp
  with step(3) show ?case by (simp add: rtranclp.rtrancl_into_rtrancl)
qed simp

text \<open>A first message to a peer with an empty log is accepted.\<close>

lemma first_message_accepted:
  assumes "disk_up rf" "currentTerm rf \<le> aeTerm args" "aePrevLogIndex args = -1" "lastIncludeIndex rf = -1" "rlog rf = []"
  shows "\<exists>r rf'. AppendEntries C now args rf = Inr (r, rf') \<and> aerSuccess r \<and> aerTerm r = currentTerm rf \<and> rlog rf' = aeEntries args \<and>
    currentTerm rf' = aeTerm args \<and> commitIndex rf' = max (commitIndex rf) (min (aeLeaderCommit args) (int (length (aeEntries args)) - 1))"
proof -
  obtain r rf' where a: "AppendEntries C now args rf = Inr (r, rf')"
    using AppendEntries_Inl [of C now args rf] assms(1) by (cases "AppendEntries C now args rf") auto
  have s: "aerSuccess r" using a
  proof (cases rule: AppendEntries_Inr)
    case (reject f s v)
    then show ?thesis using assms(3-5) by (simp add: ae_check_def lastIndex_def)
  qed (use assms(2) in auto)
  from merged_accept [OF a s] AppendEntries_reply_term [OF a] a s assms(3-5) show ?thesis
    by (intro exI [of _ r] exI [of _ rf']) (simp add: merged_log_def lastIndex_def Let_def)
qed

lemma replicate_command:
  assumes "net_start 3 c0" "(net_step C 3)\<^sup>*\<^sup>* c0 c" "demo_elected (base c)"
  shows "\<exists>c'. (net_step C 3)\<^sup>*\<^sup>* c c' \<and> demo_done cmd c'"
proof -
  note d = assms(3) [unfolded demo_elected_def]
  let ?e = "\<lparr>LogTerm = 1, LogValue = cmd\<rparr>"
  obtain s where s: "refines 3 c s" using reachable_refines [OF assms(1) _ assms(2)] by auto
  have p0: "lastIncludeIndex (peer c 0) = -1" "lastIncludeTerm (peer c 0) = -1" "me (peer c 0) = 0" "peers (peer c 0) = 3" "commitIndex (peer c 0) = -1"
    using peer_facts [OF s, of 0] refinesD(4) [OF s, of 0] peers_of [OF s, of 0] d by (auto simp: peer_rel_def)
  have p1: "lastIncludeIndex (peer c 1) = -1" "commitIndex (peer c 1) = -1" using peer_facts [OF s, of 1] d by auto
  from d have "persistEntry C ?e ((peer c 0)\<lparr>rlog := [?e]\<rparr>) \<noteq> Inl x" for x by (auto simp: res_simps disk_up_def)
  then obtain f where f: "persistEntry C ?e ((peer c 0)\<lparr>rlog := [?e]\<rparr>) = Inr ((peer c 0)\<lparr>rlog := [?e], disk := f\<rparr>)"
    by (cases "persistEntry C ?e ((peer c 0)\<lparr>rlog := [?e]\<rparr>)") (auto simp: res_simps)
  define ldr where "ldr = (peer c 0)\<lparr>rlog := [?e], disk := f\<rparr>"
  have "raft_Start C cmd (peer c 0) = Inr ((0, 1, True), ldr)" using d f p0 by (simp add: raft_Start_def ldr_def lastIndex_def)
  then have s1: "net_step C 3 c (set_peer 0 ldr c)" (is "net_step C 3 c ?c1") by (intro commands) simp_all
  let ?m = "\<lparr>aeTerm = 1, aeLeaderId = 0, aePrevLogIndex = -1, aePrevLogTerm = -1, aeLeaderCommit = -1, aeEntries = [?e]\<rparr>"
  have "append_request (int 1) (peer ?c1 0) = Inr (Some ?m)"
    using d p0 by (simp add: append_request_def ldr_def go_nth_def go_from_def index2LogPos_def)
  then have s2: "net_step C 3 ?c1 (?c1\<lparr>sentAE := insert (1, ?m) (sentAE ?c1)\<rparr>)" (is "net_step C 3 ?c1 ?c2") by (intro sends [where p = 0]) simp_all
  have q1: "peer ?c2 1 = peer c 1" by simp
  from first_message_accepted [of "peer c 1" ?m C 0] d p1 obtain r f1 where a: "AppendEntries C 0 ?m (peer c 1) = Inr (r, f1)" "aerSuccess r"
    "aerTerm r = 1" "rlog f1 = [?e]" by auto
  have s3: "net_step C 3 ?c2 ((set_peer 1 f1 ?c2)\<lparr>repliedAE := insert (1, ?m, r) (repliedAE ?c2)\<rparr>)" (is "net_step C 3 ?c2 ?c3")
    by (intro delivers) (use a(1) in simp_all)
  define cnt where "cnt = ldr\<lparr>nextIndex := [0, 1, 0], matchIndex := [-1, 0, -1]\<rparr>"
  have u: "updateCommitIndex cnt = Inr (undateLastApplied (cnt\<lparr>commitIndex := 0\<rparr>))"
    using d p0 by (simp add: updateCommitIndex_def cnt_def ldr_def go_nth_def lastIndex_def index2LogPos_def upt_rec numeral_3_eq_3 Let_def)
  let ?l = "undateLastApplied (cnt\<lparr>commitIndex := 0\<rparr>)"
  have "append_reply C (int 1) ?m (Some r) (peer ?c3 0) = Inr (AEresult_Accept, ?l)"
    using d a(2,3) u by (simp add: append_reply_def ldr_def cnt_def go_set_def)
  then have s4: "net_step C 3 ?c3 (set_peer 0 ?l ?c3)" (is "net_step C 3 ?c3 ?c4") by (intro answers [where args = ?m and q = 1 and reply = "Some r"]) simp_all
  let ?k = "\<lparr>aeTerm = 1, aeLeaderId = 0, aePrevLogIndex = -1, aePrevLogTerm = -1, aeLeaderCommit = 0, aeEntries = [?e]\<rparr>"
  have "append_request (int 2) (peer ?c4 0) = Inr (Some ?k)"
    using d p0 by (simp add: append_request_def cnt_def ldr_def go_nth_def go_from_def index2LogPos_def frame_simps)
  then have s5: "net_step C 3 ?c4 (?c4\<lparr>sentAE := insert (2, ?k) (sentAE ?c4)\<rparr>)" (is "net_step C 3 ?c4 ?c5") by (intro sends [where p = 0]) simp_all
  have "\<exists>r f2. AppendEntries C 0 ?k (demo_peer 2) = Inr (r, f2) \<and> rlog f2 = [?e] \<and> currentTerm f2 = 1 \<and> commitIndex f2 = 0 \<and> lastApplied f2 = 0"
    by (simp add: AppendEntries_def Let_def ae_adopt_term_def ae_leave_candidacy_def ae_check_def CopyEntries_def
      demo_peer_def zero_raft_def persistState_def persistEntry_def raft_write_def wal_Write_def fresh_wal_def lastIndex_def
      undateLastApplied.simps index2LogPos_def)
  then obtain r2 f2 where b: "AppendEntries C 0 ?k (demo_peer 2) = Inr (r2, f2)" "rlog f2 = [?e]" "currentTerm f2 = 1" "commitIndex f2 = 0" "lastApplied f2 = 0"
    by blast
  have "peer ?c5 2 = demo_peer 2" using d by simp
  then have s6: "net_step C 3 ?c5 ((set_peer 2 f2 ?c5)\<lparr>repliedAE := insert (2, ?k, r2) (repliedAE ?c5)\<rparr>)" (is "net_step C 3 ?c5 ?c6")
    by (intro delivers) (use b(1) in simp_all)
  have run: "(net_step C 3)\<^sup>*\<^sup>* c ?c6" using s1 s2 s3 s4 s5 s6 by (meson converse_rtranclp_into_rtranclp r_into_rtranclp)
  have "lastApplied (peer c 0) = -1"
  proof -
    have "raft_inv (peer c 0)"
      using net_steps_node [OF assms(2,1), of 0] node_steps_ok fresh_peer_inv [of 3 0 "peer c0 0"] assms(1) by (auto simp: net_start_def ok_step_def)
    then show ?thesis using p0 by (simp add: raft_inv_def idx_inv_def)
  qed
  then have "lastApplied ?l = 0"
    using undateLastApplied_spec [of "cnt\<lparr>commitIndex := 0\<rparr>"] p0 by (simp add: cnt_def ldr_def lastIndex_def)
  with d a b have "demo_done cmd ?c6" by (simp add: demo_done_def frame_simps cnt_def ldr_def)
  with run show ?thesis by blast
qed

lemma demo_run: "\<exists>c. (net_step C 3)\<^sup>*\<^sup>* demo_net c \<and> demo_done cmd c"
proof -
  obtain b where b: "(vote_step C 3)\<^sup>*\<^sup>* demo_cluster b" "demo_elected b" using demo_elects by blast
  have r: "(net_step C 3)\<^sup>*\<^sup>* demo_net (demo_net\<lparr>base := b\<rparr>)" using elects_steps [OF b(1), of demo_net] by (simp add: demo_net_def)
  from replicate_command [OF demo_net_start r, of cmd] b(2) r show ?thesis by (auto intro: rtranclp_trans)
qed

lemma demo_done_entries:
  assumes "(net_step C 3)\<^sup>*\<^sup>* demo_net c" "demo_done cmd c" "p < 3"
  shows "entry_at (peer c p) 0 = Some \<lparr>LogTerm = 1, LogValue = cmd\<rparr>"
proof -
  obtain s where s: "refines 3 c s" using reachable_refines [OF demo_net_start _ assms(1)] by auto
  have "rlog (peer c p) = [\<lparr>LogTerm = 1, LogValue = cmd\<rparr>]"
    using assms(2,3) by (auto simp: demo_done_def Let_def less_Suc_eq numeral_3_eq_3 numeral_2_eq_2)
  with peer_facts(1) [OF s assms(3)] show ?thesis by (simp add: entry_at_whole)
qed

section \<open>Properties\<close>









end
