(* ===== verification/Replica.thy ===== *)
theory Replica
  imports KVServer RaftCluster
begin

text \<open>
  Whole replicas: the messages a Raft peer of a cluster sends over \<^verbatim>\<open>applyCh\<close>, applied one after the other by the loop
  \<^verbatim>\<open>HandleApplych\<close> of the server. Servers of one cluster have the same keys and the same last requests once they have
  applied the same number of entries.
\<close>

section \<open>Definitions\<close>

text \<open>The loop of \<^verbatim>\<open>HandleApplych\<close> over the messages that arrive.\<close>

fun apply_stream :: "'d db_ops \<Rightarrow> kv_codecs \<Rightarrow> apply_msg list \<Rightarrow> 'd kvserver \<Rightarrow> 'd kvserver res" where
  "apply_stream D K [] kv = Inr kv"
| "apply_stream D K (m # ms) kv = res_bind (HandleApplych D K m kv) (apply_stream D K ms)"

text \<open>The commands the specification runs, and whether each can be stored at its turn.\<close>

fun spec_stream :: "kv_codecs \<Rightarrow> bytes list \<Rightarrow> kv_map \<times> (int \<Rightarrow> duplicateType) \<Rightarrow> kv_map \<times> (int \<Rightarrow> duplicateType)" where
  "spec_stream K [] s = s"
| "spec_stream K (c # cs) s =
     spec_stream K cs (case dec (opC (raftC K)) c of None \<Rightarrow> s | Some o' \<Rightarrow> spec_apply (batchC K) o' s)"

fun stream_fits :: "(string \<Rightarrow> entry \<Rightarrow> bool) \<Rightarrow> kv_codecs \<Rightarrow> bytes list \<Rightarrow> kv_map \<times> (int \<Rightarrow> duplicateType) \<Rightarrow> bool" where
  "stream_fits fits K [] s \<longleftrightarrow> True"
| "stream_fits fits K (c # cs) s \<longleftrightarrow>
     (case dec (opC (raftC K)) c of
        None \<Rightarrow> False
      | Some o' \<Rightarrow> op_fits fits (batchC K) o' (fst s) \<and> stream_fits fits K cs (spec_apply (batchC K) o' s))"

text \<open>A server that runs and takes no snapshots, at the index \<open>n\<close>.\<close>

definition serving :: "('d \<Rightarrow> bool) \<Rightarrow> int \<Rightarrow> 'd kvserver \<Rightarrow> bool" where
  "serving ok n kv \<longleftrightarrow> kv_good ok kv \<and> \<not> kv_dead kv \<and> maxraftstate kv = -1 \<and> lastAppliedIndex kv = n"

text \<open>A peer that has sent commands only and still has its whole log.\<close>

definition whole_log :: "raft \<Rightarrow> bool" where
  "whole_log rf \<longleftrightarrow> lastIncludeIndex rf = -1 \<and> list_all CommandValid (sent rf)"

section \<open>Lemmas\<close>

lemma dup_of_frame [simp]: "dup_of (kv\<lparr>lastAppliedIndex := x\<rparr>) = dup_of kv" "dup_of (kv\<lparr>eventNotifier := e\<rparr>) = dup_of kv"
  by (simp_all add: dup_of_def fun_eq_iff)

context kv_store
begin

lemma apply_one:
  assumes "serving ok n kv" "CommandValid m" "CommandIndex m = n + 1" "dec (opC (raftC K)) (Command m) = Some o'"
    "op_fits fits (batchC K) o' (view (db kv))"
  shows "\<exists>kv'. HandleApplych D K m kv = Inr kv' \<and> serving ok (n + 1) kv' \<and>
    kv_abs view kv' = spec_apply (batchC K) o' (kv_abs view kv)"
proof -
  from assms(1) have g: "kv_good ok kv" by (simp add: serving_def)
  from command_refines [OF g assms(4,5)] obtain evs kv1 where c: "HandleApplychCommand D K m kv = Inr (evs, kv1)" "kv_good ok kv1"
    "kv_abs view kv1 = spec_apply (batchC K) o' (kv_abs view kv)" "data_only kv kv1" by blast
  with assms(1-3) show ?thesis
    by (auto simp: HandleApplych_def serving_def checkifNeedSnapshot_def data_only_def notify_events_def kv_good_def kv_abs_def)
qed

lemma apply_stream_refines:
  assumes "serving ok n kv" "list_all CommandValid ms" "stream_from n ms = Some k" "stream_fits fits K (map Command ms) (kv_abs view kv)"
  shows "\<exists>kv'. apply_stream D K ms kv = Inr kv' \<and> serving ok k kv' \<and> kv_abs view kv' = spec_stream K (map Command ms) (kv_abs view kv)"
  using assms
proof (induction ms arbitrary: n kv)
  case (Cons m ms)
  from Cons.prems obtain o' where o': "dec (opC (raftC K)) (Command m) = Some o'" "op_fits fits (batchC K) o' (view (db kv))"
    "stream_fits fits K (map Command ms) (spec_apply (batchC K) o' (kv_abs view kv))"
    by (auto simp: kv_abs_def split: option.splits)
  from Cons.prems have m: "CommandValid m" "CommandIndex m = n + 1" "stream_from (n + 1) ms = Some k" "list_all CommandValid ms"
    by (auto split: if_splits)
  from apply_one [OF Cons.prems(1) m(1,2) o'(1,2)] obtain kv1 where kv1: "HandleApplych D K m kv = Inr kv1" "serving ok (n + 1) kv1"
    "kv_abs view kv1 = spec_apply (batchC K) o' (kv_abs view kv)" by blast
  from Cons.IH [OF kv1(2) m(4,3)] o'(3) kv1 o'(1) show ?case by auto
qed simp

end

subsection \<open>The messages of a peer\<close>

lemma stream_take: "stream_from n ms = Some k \<Longrightarrow> \<exists>k'. stream_from n (take j ms) = Some k'"
  by (induction ms arbitrary: n j) (auto simp: take_Cons split: if_splits nat.splits)

lemma stream_indexes:
  assumes "stream_from n ms = Some k" "list_all CommandValid ms"
  shows "k = n + int (length ms) \<and> (\<forall>j < length ms. CommandIndex (ms ! j) = n + 1 + int j)"
  using assms
proof (induction ms arbitrary: n)
  case (Cons m ms)
  then show ?case by (auto simp: nth_Cons algebra_simps split: if_splits nat.splits) fastforce+
qed simp

lemma stream_is_log:
  assumes "raft_inv rf" "list_all (carries rf) (sent rf)" "whole_log rf"
  shows "map Command (sent rf) = map LogValue (take (nat (lastApplied rf + 1)) (rlog rf))"
proof -
  have s: "stream_from 0 (sent rf) = Some (lastApplied rf + 1)" and i: "idx_inv rf" using assms(1) by (simp_all add: raft_inv_def)
  have c: "list_all CommandValid (sent rf)" and l: "lastIncludeIndex rf = -1" using assms(3) by (simp_all add: whole_log_def)
  note sc = stream_indexes [OF s c]
  have len: "length (sent rf) \<le> length (rlog rf)" using sc i l by (simp add: idx_inv_def lastIndex_def)
  show ?thesis
  proof (rule nth_equalityI)
    fix j assume j: "j < length (map Command (sent rf))"
    with sc have "CommandIndex (sent rf ! j) - 1 = int j" by simp
    moreover have "entry_at rf (int j) = Some (rlog rf ! j)" using j len l by (simp add: entry_at_def lastIndex_def index2LogPos_def)
    moreover have "carries rf (sent rf ! j)" "CommandValid (sent rf ! j)" using assms(2) c j by (simp_all add: list_all_length)
    ultimately have "Command (sent rf ! j) = LogValue (rlog rf ! j)" by (simp add: carries_def)
    then show "map Command (sent rf) ! j = map LogValue (take (nat (lastApplied rf + 1)) (rlog rf)) ! j" using j len sc by simp
  qed (use len sc in simp)
qed

lemma same_entries:
  assumes "idx_inv p" "idx_inv q" "lastIncludeIndex p = -1" "lastIncludeIndex q = -1" "lastApplied p \<le> lastApplied q"
    "\<forall>i \<le> lastApplied p. entry_at p i = entry_at q i"
  shows "take (nat (lastApplied p + 1)) (rlog q) = take (nat (lastApplied p + 1)) (rlog p)"
proof (rule nth_equalityI)
  have l: "lastApplied p < int (length (rlog p))" "lastApplied q < int (length (rlog q))"
    using assms(1-4) by (auto simp: idx_inv_def lastIndex_def)
  then show "length (take (nat (lastApplied p + 1)) (rlog q)) = length (take (nat (lastApplied p + 1)) (rlog p))"
    using assms(5) by simp
  fix j assume "j < length (take (nat (lastApplied p + 1)) (rlog q))"
  then have j: "int j \<le> lastApplied p" "j < length (rlog p)" "j < length (rlog q)" using l by auto
  with assms(6) have "entry_at p (int j) = entry_at q (int j)" by blast
  with j assms(3,4) show "take (nat (lastApplied p + 1)) (rlog q) ! j = take (nat (lastApplied p + 1)) (rlog p) ! j"
    by (simp add: entry_at_def lastIndex_def index2LogPos_def)
qed

text \<open>A peer that has sent nothing yet, and any steps it takes.\<close>

lemma run_stream:
  assumes "(node_step C)\<^sup>*\<^sup>* rf0 rf" "raft_inv rf0" "sent rf0 = []"
  shows "raft_inv rf \<and> list_all (carries rf) (sent rf)"
proof -
  have ok: "ok_step rf0 rf" using node_steps_ok [OF assms(1,2)] .
  have "sends rf0 rf" using node_steps_sends [OF assms(1,2)] .
  then show ?thesis using ok assms(3) by (auto simp: sends_def ok_step_def)
qed

text \<open>The messages two peers of a cluster have sent: each the entries of its log it has applied, and the shorter list is the beginning of the longer.\<close>

lemma cluster_messages:
  assumes "net_start n c0" "odd n" "(net_step C n)\<^sup>*\<^sup>* c0 c" "r < n"
  shows "list_all CommandValid (sent (peer c r))" "stream_from 0 (sent (peer c r)) = Some (lastApplied (peer c r) + 1)"
    "map Command (sent (peer c r)) = map LogValue (take (nat (lastApplied (peer c r) + 1)) (rlog (peer c r)))"
    "idx_inv (peer c r)" "lastIncludeIndex (peer c r) = -1"
proof -
  have f: "raft_inv (peer c0 r)" "sent (peer c0 r) = []" using assms(1,4) fresh_peer_inv by (auto simp: net_start_def fresh_peer_def)
  obtain s where s: "refines n c s" using reachable_refines [OF assms(1-3)] by blast
  have w: "whole_log (peer c r)" using net_steps_commands [OF assms(3), of r] f(2) peer_facts(1) [OF s assms(4)] by (simp add: whole_log_def)
  have i: "raft_inv (peer c r)" "list_all (carries (peer c r)) (sent (peer c r))"
    using run_stream [OF net_steps_node [OF assms(3,1,2)] f] by simp_all
  then show "stream_from 0 (sent (peer c r)) = Some (lastApplied (peer c r) + 1)" "idx_inv (peer c r)" by (simp_all add: raft_inv_def)
  show "list_all CommandValid (sent (peer c r))" "lastIncludeIndex (peer c r) = -1" using w by (simp_all add: whole_log_def)
  show "map Command (sent (peer c r)) = map LogValue (take (nat (lastApplied (peer c r) + 1)) (rlog (peer c r)))"
    by (rule stream_is_log [OF i w])
qed

lemma cluster_prefix:
  assumes "net_start n c0" "odd n" "(net_step C n)\<^sup>*\<^sup>* c0 c" "p < n" "q < n" "lastApplied (peer c p) \<le> lastApplied (peer c q)"
  shows "map Command (take (nat (lastApplied (peer c p) + 1)) (sent (peer c q))) = map Command (sent (peer c p))"
proof -
  let ?n = "nat (lastApplied (peer c p) + 1)"
  note p = cluster_messages [OF assms(1-4)] and q = cluster_messages [OF assms(1-3,5)]
  obtain s where s: "refines n c s" using reachable_refines [OF assms(1-3)] by blast
  have "entry_at (peer c p) i = entry_at (peer c q) i" if "i \<le> lastApplied (peer c p)" for i
  proof (cases "0 \<le> i")
    case True
    then show ?thesis using committed_entries_agree [OF s s assms(2) grows_refl assms(4,5), of i] that p(4) q(4) assms(6)
      by (force simp: idx_inv_def)
  qed (use p(5) q(5) in \<open>simp add: entry_at_whole\<close>)
  then have same: "take ?n (rlog (peer c q)) = take ?n (rlog (peer c p))" using same_entries p(4,5) q(4,5) assms(6) by blast
  have "map Command (take ?n (sent (peer c q))) = take ?n (map LogValue (take (nat (lastApplied (peer c q) + 1)) (rlog (peer c q))))"
    by (simp only: q(3) take_map [symmetric])
  also have "\<dots> = map LogValue (take ?n (rlog (peer c q)))" using assms(6) by (simp add: take_map min_def)
  finally show ?thesis by (simp only: same p(3))
qed

lemma cluster_taken:
  assumes "net_start n c0" "odd n" "(net_step C n)\<^sup>*\<^sup>* c0 c" "q < n"
  shows "\<exists>k. stream_from 0 (take j (sent (peer c q))) = Some k" "list_all CommandValid (take j (sent (peer c q)))"
proof -
  note q = cluster_messages [OF assms]
  show "\<exists>k. stream_from 0 (take j (sent (peer c q))) = Some k" by (rule stream_take [OF q(2)])
  show "list_all CommandValid (take j (sent (peer c q)))" using q(1) by (metis append_take_drop_id list_all_append)
qed

section \<open>Properties\<close>



end
