(* ===== verification/Pipe.thy ===== *)
theory Pipe
  imports KVServer
begin

text \<open>
  The batches of the client library, \<^verbatim>\<open>src/client/pipe.go\<close>: a pipe collects operations and sends them as
  one \<^verbatim>\<open>Batch\<close> command. The interface \<^verbatim>\<open>BatchWriter\<close> is an argument of \<^verbatim>\<open>Exec\<close>.
\<close>

section \<open>Definitions\<close>

definition pipeLimit :: nat where "pipeLimit = 1024 * 4000"

record pipe =
  Ops :: "op list"
  pipe_size :: nat

definition NewPipe :: pipe where "NewPipe = \<lparr>Ops = [], pipe_size = 0\<rparr>"

definition pipe_Size :: "pipe \<Rightarrow> nat" where "pipe_Size p = pipe_size p"

definition pipe_Marshal :: "op list codec \<Rightarrow> pipe \<Rightarrow> bytes" where
  "pipe_Marshal bc p = enc bc (Ops p)"

definition pipe_UnMarshal :: "op list codec \<Rightarrow> bytes \<Rightarrow> pipe \<Rightarrow> pipe res" where
  "pipe_UnMarshal bc data p = (case dec bc data of None \<Rightarrow> Inl LoggerFatal | Some os \<Rightarrow> Inr (p\<lparr>Ops := os\<rparr>))"

text \<open>\<^verbatim>\<open>append\<close>: whether there was no error; the operation is added in both cases.\<close>

definition pipe_append :: "op \<Rightarrow> pipe \<Rightarrow> bool \<times> pipe" where
  "pipe_append o' p =
     (let p' = p\<lparr>Ops := Ops p @ [o'], pipe_size := pipe_size p + op_Size o'\<rparr> in (pipe_size p' \<le> pipeLimit, p'))"

definition pipe_op :: "optype \<Rightarrow> string \<Rightarrow> bytes \<Rightarrow> int \<Rightarrow> op" where
  "pipe_op t key val dt =
     \<lparr>ClientId = 0, Offset = 0, OpType = t, Key = key, OriValue = [], OpEntry = \<lparr>Value = val, DeadTime = dt\<rparr>, LeaseId = 0\<rparr>"

text \<open>\<^verbatim>\<open>time.Now().Add(TTL).UnixMilli()\<close> at the time \<open>now\<close> in nanoseconds.\<close>

definition dead_time :: "int \<Rightarrow> int \<Rightarrow> int" where
  "dead_time now ttl = (now + ttl) div Millisecond"

definition pipe_Delete :: "string \<Rightarrow> pipe \<Rightarrow> bool \<times> pipe" where
  "pipe_Delete key p = pipe_append (pipe_op DelT key [] 0) p"

definition pipe_DeleteWithPrefix :: "string \<Rightarrow> pipe \<Rightarrow> bool \<times> pipe" where
  "pipe_DeleteWithPrefix key p = pipe_append (pipe_op DelWithPrefixT key [] 0) p"

definition pipe_Put :: "int \<Rightarrow> string \<Rightarrow> bytes \<Rightarrow> int \<Rightarrow> pipe \<Rightarrow> bool \<times> pipe" where
  "pipe_Put now key val ttl p = pipe_append (pipe_op PutT key val (if ttl \<noteq> 0 then dead_time now ttl else 0)) p"

definition pipe_Append :: "int \<Rightarrow> string \<Rightarrow> bytes \<Rightarrow> int \<Rightarrow> pipe \<Rightarrow> bool \<times> pipe" where
  "pipe_Append now key val ttl p = pipe_append (pipe_op AppendT key val (dead_time now ttl)) p"

definition pipe_Exec :: "(pipe \<Rightarrow> 'r) \<Rightarrow> 'r \<Rightarrow> pipe \<Rightarrow> 'r" where
  "pipe_Exec batchWrite nothing p = (if Ops p = [] then nothing else batchWrite p)"

text \<open>The size a pipe should have, and the batches one can build.\<close>

definition pipe_inv :: "pipe \<Rightarrow> bool" where
  "pipe_inv p \<longleftrightarrow> pipe_size p = sum_list (map op_Size (Ops p)) \<and>
     (\<forall>o' \<in> set (Ops p). OpType o' \<in> {PutT, AppendT, DelT, DelWithPrefixT})"

section \<open>Lemmas\<close>

lemma pipe_inv_intros [inv_intros]:
  "pipe_inv NewPipe"
  "pipe_inv p \<Longrightarrow> pipe_inv (snd (pipe_Put now k v ttl p))"
  "pipe_inv p \<Longrightarrow> pipe_inv (snd (pipe_Append now k v ttl p))"
  "pipe_inv p \<Longrightarrow> pipe_inv (snd (pipe_Delete k p))"
  "pipe_inv p \<Longrightarrow> pipe_inv (snd (pipe_DeleteWithPrefix k p))"
  by (simp_all add: pipe_inv_def NewPipe_def pipe_Put_def pipe_Append_def pipe_Delete_def pipe_DeleteWithPrefix_def
      pipe_append_def Let_def pipe_op_def)

end
