(* ===== verification/Client.thy ===== *)
theory Client
  imports Pipe
begin

text \<open>
  The client library, \<^verbatim>\<open>src/client/client.go\<close>: the table of connections, the retry loops \<^verbatim>\<open>read\<close> and \<^verbatim>\<open>write\<close>
  that look for the leader, the operations built on them, locks, leases and watches.

  The network and the goroutine \<^verbatim>\<open>watchEtcd\<close> are the environment of a call: before each turn of a loop
  the environment gives the table of connections as the goroutine has left it and, for the turn, what
  each server would answer. A call that blocks for ever inside gRPC is not modelled; a lost request or
  answer is the answer \<open>None\<close>. The answers are those \<^verbatim>\<open>src/kvraft/server.go\<close> can give (\<^typ>\<open>kv_err\<close>).
\<close>

section \<open>Definitions\<close>

subsection \<open>State\<close>

text \<open>\<^verbatim>\<open>kvraft.KVconn\<close>: whether it is valid, and whether its two pointers are not nil.\<close>

record KVconn =
  Valid :: bool
  Conn :: bool
  Realconn :: bool

record client =
  servers :: "KVconn list"
  nextSendLocalId :: int
  LatestOffset :: "32 word"
  clientId :: int
  cTos :: "int list"
  sToc :: "int list"

text \<open>The errors of \<^verbatim>\<open>src/kvraft/common.go\<close>, of \<^verbatim>\<open>fmt.Errorf\<close> in this file, and of gRPC.\<close>

datatype client_error = ErrCASFaild | ErrNil | ErrFaild | ErrLockFaild | ErrUnLockFaild | NoValidServers | RpcError

text \<open>What \<^verbatim>\<open>NewKvConn\<close> gives when it succeeds, and the placeholder of \<^verbatim>\<open>MakeClerk\<close>.\<close>

definition NewKvConn :: "bool \<Rightarrow> KVconn option" where
  "NewKvConn dialed = (if dialed then Some \<lparr>Valid = True, Conn = True, Realconn = True\<rparr> else None)"

definition no_conn :: KVconn where
  "no_conn = \<lparr>Valid = False, Conn = False, Realconn = False\<rparr>"

text \<open>\<^verbatim>\<open>MakeClerk\<close> for \<open>n\<close> addresses with the two random numbers it draws; no address is a division by zero.\<close>

definition MakeClerk :: "nat \<Rightarrow> int \<Rightarrow> int \<Rightarrow> client res" where
  "MakeClerk n r1 r2 =
     (if n = 0 then Inl DivideByZero
      else Inr \<lparr>servers = replicate n no_conn, nextSendLocalId = r1 mod int n, LatestOffset = 1, clientId = r2,
        cTos = replicate n (-1), sToc = replicate n (-1)\<rparr>)"

text \<open>One pass of \<^verbatim>\<open>watchEtcd\<close>: every invalid connection is dialled again; \<open>dial i\<close> says whether that succeeds.\<close>

fun watchEtcd :: "(nat \<Rightarrow> bool) \<Rightarrow> nat \<Rightarrow> KVconn list \<Rightarrow> KVconn list" where
  "watchEtcd dial i [] = []"
| "watchEtcd dial i (c # cs) =
     (if Valid c then c else case NewKvConn (dial i) of Some k \<Rightarrow> k | None \<Rightarrow> c) # watchEtcd dial (Suc i) cs"

definition changeNextSendId :: "client \<Rightarrow> client" where
  "changeNextSendId ck = ck\<lparr>nextSendLocalId := (nextSendLocalId ck + 1) mod int (length (servers ck))\<rparr>"

text \<open>
  The loop \<^verbatim>\<open>for !ck.servers[ck.nextSendLocalId].Valid\<close> with its counter \<^verbatim>\<open>validCount\<close>, as the number of
  turns it may still make: whether it found a valid server. It is called with the number of servers; with none, the
  index is out of range at once.
\<close>

fun find_valid :: "nat \<Rightarrow> client \<Rightarrow> (bool \<times> client) res" where
  "find_valid 0 ck = Inl IndexOutOfRange"
| "find_valid (Suc r) ck =
     res_bind (go_nth (servers ck) (nextSendLocalId ck)) (\<lambda>c.
       if Valid c then Inr (True, ck)
       else if r = 0 then Inr (False, changeNextSendId ck) else find_valid r (changeNextSendId ck))"

text \<open>The test on \<^verbatim>\<open>lastSendLocalId\<close> at the head of a turn, with the limit of \<^verbatim>\<open>count\<close>.\<close>

definition rotate_stuck :: "nat \<Rightarrow> int \<Rightarrow> nat \<Rightarrow> client \<Rightarrow> nat \<times> client" where
  "rotate_stuck limit lastId count ck =
     (if nextSendLocalId ck = lastId
      then if count + 1 > limit then (0, changeNextSendId ck) else (count + 1, ck)
      else (count, ck))"

text \<open>\<^verbatim>\<open>ck.sToc[reply.ServerId] = ck.nextSendLocalId\<close>, and the case \<^verbatim>\<open>ErrWrongLeader\<close>.\<close>

definition note_server :: "int \<Rightarrow> client \<Rightarrow> client res" where
  "note_server sid ck =
     res_bind (go_set (sToc ck) sid (nextSendLocalId ck)) (\<lambda>t. Inr (ck\<lparr>sToc := t\<rparr>))"

definition follow_leader :: "int \<Rightarrow> client \<Rightarrow> client res" where
  "follow_leader lid ck =
     (if lid = -1 then Inr (changeNextSendId ck)
      else res_bind (go_nth (sToc ck) lid) (\<lambda>s.
        Inr (if s = -1 then changeNextSendId ck else ck\<lparr>nextSendLocalId := s\<rparr>)))"

definition next_offset :: "client \<Rightarrow> client" where
  "next_offset ck = ck\<lparr>LatestOffset := LatestOffset ck + 1\<rparr>"

subsection \<open>Reading\<close>

text \<open>The environment of a turn of \<^verbatim>\<open>read\<close>: the table, and what each server answers.\<close>

record read_turn =
  rtServers :: "KVconn list"
  rtReply :: "int \<Rightarrow> get_args \<Rightarrow> get_reply option"

text \<open>The \<^verbatim>\<open>switch\<close> on the reply: the result to return, or \<open>None\<close> to go on.\<close>

definition read_reply :: "get_reply \<Rightarrow> client \<Rightarrow> ((client_error + bytes list) option \<times> client) res" where
  "read_reply r ck =
     (case grErr r of
        ErrOK \<Rightarrow> Inr (Some (if grValue r = [] then Inl ErrNil else Inr (grValue r)), next_offset ck)
      | ErrNoKey \<Rightarrow> Inr (Some (Inl ErrNil), next_offset ck)
      | ErrWrongLeader \<Rightarrow> res_bind (follow_leader (grLeaderId r) ck) (\<lambda>ck'. Inr (None, ck'))
      | ErrWaitForRecover \<Rightarrow> Inr (None, ck)
      | ErrCasFaildInt \<Rightarrow> Inl LoggerFatal)"

text \<open>
  A call through the connection of the chosen server. \<^verbatim>\<open>Conn\<close> is nil only in the placeholder.
\<close>

definition the_conn :: "client \<Rightarrow> KVconn res" where
  "the_conn ck = res_bind (go_nth (servers ck) (nextSendLocalId ck)) (\<lambda>c. if Conn c then Inr c else Inl NilDereference)"

text \<open>
  The loop of \<^verbatim>\<open>read\<close> with the turns \<^verbatim>\<open>totalCount\<close> leaves it, and the turn's number: the result, the
  requests sent with their targets, and the client afterwards.
\<close>

fun read_loop ::
  "(nat \<Rightarrow> read_turn) \<Rightarrow> get_args \<Rightarrow> nat \<Rightarrow> nat \<Rightarrow> int \<Rightarrow> nat \<Rightarrow> client \<Rightarrow>
   ((client_error + bytes list) \<times> (int \<times> get_args) list \<times> client) res" where
  "read_loop env args 0 t lastId count ck = Inr (Inl ErrFaild, [], ck)"
| "read_loop env args (Suc r) t lastId count ck =
     (let ck0 = ck\<lparr>servers := rtServers (env t)\<rparr>;
          (count1, ck1) = rotate_stuck 3 lastId count ck0 in
      res_bind (find_valid (length (servers ck1)) ck1) (\<lambda>(found, ck2).
        if \<not> found then read_loop env args r (Suc t) lastId count1 ck2
        else res_bind (the_conn ck2) (\<lambda>_.
          let i = nextSendLocalId ck2 in
          res_bind
            (case rtReply (env t) i args of
               None \<Rightarrow> Inr (None, changeNextSendId ck2)
             | Some reply \<Rightarrow> res_bind (note_server (grServerId reply) ck2) (read_reply reply))
            (\<lambda>(out, ck3).
              case out of
                Some res \<Rightarrow> Inr (res, [(i, args)], ck3)
              | None \<Rightarrow>
                  res_bind (read_loop env args r (Suc t) i count1 ck3) (\<lambda>(res, sent, ck4).
                    Inr (res, (i, args) # sent, ck4))))))"

definition client_read ::
  "(nat \<Rightarrow> read_turn) \<Rightarrow> get_args \<Rightarrow> client \<Rightarrow> ((client_error + bytes list) \<times> (int \<times> get_args) list \<times> client) res" where
  "client_read env args ck = read_loop env args (2 * length (servers ck) * 3) 0 (-1) 0 ck"

definition doGetValue ::
  "(nat \<Rightarrow> read_turn) \<Rightarrow> string \<Rightarrow> bool \<Rightarrow> client \<Rightarrow> ((client_error + bytes list) \<times> (int \<times> get_args) list \<times> client) res" where
  "doGetValue env key withPrefix ck =
     client_read env \<lparr>gaKey = key, gaClientId = clientId ck, gaLatestOffset = LatestOffset ck, gaWithPrefix = withPrefix,
       gaOp = GetT, gaPageSize = 0, gaPageIndex = 0\<rparr> ck"

text \<open>\<^verbatim>\<open>int32(n)\<close>, and the pairs of \<^verbatim>\<open>doGetKV\<close>: a value that does not decode leaves a zero pair.\<close>

definition to_int32 :: "int \<Rightarrow> int" where "to_int32 n = sint (word_of_int n :: 32 word)"

definition zero_pair :: pair where "zero_pair = \<lparr>PairKey = [], PairEntry = zero_entry\<rparr>"

definition doGetKV ::
  "pair codec \<Rightarrow> (nat \<Rightarrow> read_turn) \<Rightarrow> string \<Rightarrow> bool \<Rightarrow> optype \<Rightarrow> int \<Rightarrow> int \<Rightarrow> client \<Rightarrow>
   ((client_error + pair list) \<times> (int \<times> get_args) list \<times> client) res" where
  "doGetKV pc env key withPrefix o' pageSize pageIndex ck =
     res_bind (client_read env \<lparr>gaKey = key, gaClientId = clientId ck, gaLatestOffset = LatestOffset ck,
         gaWithPrefix = withPrefix, gaOp = o', gaPageSize = to_int32 pageSize, gaPageIndex = to_int32 pageIndex\<rparr> ck)
       (\<lambda>(r, sent, ck').
         Inr (case r of
            Inl e \<Rightarrow> Inl e
          | Inr datas \<Rightarrow> Inr (map (\<lambda>d. case dec pc d of Some p \<Rightarrow> p | None \<Rightarrow> zero_pair) datas), sent, ck'))"

definition client_Get ::
  "(nat \<Rightarrow> read_turn) \<Rightarrow> string \<Rightarrow> client \<Rightarrow> ((client_error + bytes) \<times> (int \<times> get_args) list \<times> client) res" where
  "client_Get env key ck =
     res_bind (doGetValue env key False ck) (\<lambda>(r, sent, ck').
       Inr (case r of Inl e \<Rightarrow> Inl e | Inr vs \<Rightarrow> if length vs = 1 then Inr (hd vs) else Inl ErrNil, sent, ck'))"

definition client_GetWithPrefix ::
  "(nat \<Rightarrow> read_turn) \<Rightarrow> string \<Rightarrow> client \<Rightarrow> ((client_error + bytes list) \<times> (int \<times> get_args) list \<times> client) res" where
  "client_GetWithPrefix env key ck =
     res_bind (doGetValue env key True ck) (\<lambda>(r, sent, ck').
       Inr (case r of Inl e \<Rightarrow> Inl e | Inr vs \<Rightarrow> if length vs \<noteq> 0 then Inr vs else Inl ErrNil, sent, ck'))"

definition KeysWithPage where
  "KeysWithPage pc env pageSize pageIndex ck = doGetKV pc env [] True GetKeysT pageSize pageIndex ck"

definition KVsWithPage where
  "KVsWithPage pc env pageSize pageIndex ck = doGetKV pc env [] True GetKVsT pageSize pageIndex ck"

definition client_Keys where
  "client_Keys pc env ck = doGetKV pc env [] True GetKeysT 0 0 ck"

definition client_KVs where
  "client_KVs pc env ck = doGetKV pc env [] True GetKVsT 0 0 ck"

subsection \<open>Writing\<close>

text \<open>The environment of a turn of \<^verbatim>\<open>write\<close>: also the answer to \<^verbatim>\<open>LeaseGrant\<close>, \<open>None\<close> for an error.\<close>

record write_turn =
  wtServers :: "KVconn list"
  wtGrant :: "int \<Rightarrow> int \<Rightarrow> int option"
  wtReply :: "int \<Rightarrow> put_args \<Rightarrow> put_reply option"

definition write_reply :: "put_reply \<Rightarrow> client \<Rightarrow> (client_error option option \<times> client) res" where
  "write_reply r ck =
     (case prErr r of
        ErrOK \<Rightarrow> Inr (Some None, next_offset ck)
      | ErrNoKey \<Rightarrow> Inr (Some (Some ErrNil), next_offset ck)
      | ErrCasFaildInt \<Rightarrow> Inr (Some (Some ErrCASFaild), next_offset ck)
      | ErrWrongLeader \<Rightarrow> res_bind (follow_leader (prLeaderId r) ck) (\<lambda>ck'. Inr (None, ck'))
      | ErrWaitForRecover \<Rightarrow> Inl LoggerFatal)"

text \<open>
  The lease a write with a time to live asks the target for, once; \<open>None\<close> when that fails. \<^verbatim>\<open>Realconn\<close>
  is nil only in connections that are not valid.
\<close>

definition real_conn :: "client \<Rightarrow> KVconn res" where
  "real_conn ck = res_bind (go_nth (servers ck) (nextSendLocalId ck)) (\<lambda>c. if Realconn c then Inr c else Inl NilDereference)"

definition write_lease :: "write_turn \<Rightarrow> int \<Rightarrow> put_args \<Rightarrow> client \<Rightarrow> put_args option res" where
  "write_lease w ttl args ck =
     (if ttl > 0 \<and> paLeaseId args = 0 then
        res_bind (real_conn ck) (\<lambda>_.
          Inr (case wtGrant w (nextSendLocalId ck) (go_quot ttl Millisecond) of
             None \<Rightarrow> None
           | Some l \<Rightarrow> if l = 0 then None else Some (args\<lparr>paLeaseId := l\<rparr>)))
      else Inr (Some args))"

fun write_loop ::
  "(nat \<Rightarrow> write_turn) \<Rightarrow> int \<Rightarrow> put_args \<Rightarrow> nat \<Rightarrow> nat \<Rightarrow> int \<Rightarrow> nat \<Rightarrow> client \<Rightarrow>
   (client_error option \<times> (int \<times> put_args) list \<times> client) res" where
  "write_loop env ttl args 0 t lastId count ck = Inr (Some ErrFaild, [], ck)"
| "write_loop env ttl args (Suc r) t lastId count ck =
     (let ck0 = ck\<lparr>servers := wtServers (env t)\<rparr>;
          (count1, ck1) = rotate_stuck 5 lastId count ck0 in
      res_bind (find_valid (length (servers ck1)) ck1) (\<lambda>(found, ck2).
        if \<not> found then write_loop env ttl args r (Suc t) lastId count1 ck2
        else res_bind (write_lease (env t) ttl args ck2) (\<lambda>leased.
          case leased of
            None \<Rightarrow> write_loop env ttl args r (Suc t) lastId count1 (changeNextSendId ck2)
          | Some args1 \<Rightarrow>
              let i = nextSendLocalId ck2 in
              res_bind (the_conn ck2) (\<lambda>_.
                res_bind
                  (case wtReply (env t) i args1 of
                     None \<Rightarrow> Inr (None, changeNextSendId ck2)
                   | Some reply \<Rightarrow> res_bind (note_server (prServerId reply) ck2) (write_reply reply))
                  (\<lambda>(out, ck3).
                    case out of
                      Some res \<Rightarrow> Inr (res, [(i, args1)], ck3)
                    | None \<Rightarrow>
                        res_bind (write_loop env ttl args1 r (Suc t) i count1 ck3) (\<lambda>(res, sent, ck4).
                          Inr (res, (i, args1) # sent, ck4)))))))"

text \<open>The request \<^verbatim>\<open>write\<close> builds, and \<^verbatim>\<open>write\<close>.\<close>

definition write_args :: "int \<Rightarrow> string \<Rightarrow> bytes \<Rightarrow> bytes \<Rightarrow> int \<Rightarrow> optype \<Rightarrow> client \<Rightarrow> put_args" where
  "write_args now key val oriValue ttl o' ck =
     \<lparr>paKey = key, paValue = val, paOp = o', paClientId = clientId ck, paLatestOffset = LatestOffset ck,
      paOriValue = oriValue, paDeadTime = (if ttl = 0 then 0 else dead_time now ttl), paLeaseId = 0\<rparr>"

definition client_write ::
  "(nat \<Rightarrow> write_turn) \<Rightarrow> int \<Rightarrow> string \<Rightarrow> bytes \<Rightarrow> bytes \<Rightarrow> int \<Rightarrow> optype \<Rightarrow> client \<Rightarrow>
   (client_error option \<times> (int \<times> put_args) list \<times> client) res" where
  "client_write env now key val oriValue ttl o' ck =
     write_loop env ttl (write_args now key val oriValue ttl o' ck) (2 * length (servers ck) * 3) 0 (-1) 0 ck"

definition client_Put where
  "client_Put env now key val ttl ck = client_write env now key val [] ttl PutT ck"

definition client_Append where
  "client_Append env now key val ttl ck = client_write env now key val [] ttl AppendT ck"

definition client_Delete where
  "client_Delete env now key ck = client_write env now key [] [] 0 DelT ck"

definition client_DeleteWithPrefix where
  "client_DeleteWithPrefix env now p ck = client_write env now p [] [] 0 DelWithPrefixT ck"

definition client_CAS ::
  "(nat \<Rightarrow> write_turn) \<Rightarrow> int \<Rightarrow> string \<Rightarrow> bytes \<Rightarrow> bytes \<Rightarrow> int \<Rightarrow> client \<Rightarrow>
   ((bool \<times> client_error option) \<times> (int \<times> put_args) list \<times> client) res" where
  "client_CAS env now key origin dest ttl ck =
     res_bind (client_write env now key dest origin ttl CAST ck) (\<lambda>(r, sent, ck').
       Inr (case r of
          None \<Rightarrow> (True, None)
        | Some e \<Rightarrow> if e = ErrCASFaild then (False, None) else (False, Some e), sent, ck'))"

text \<open>
  \<^verbatim>\<open>BatchWrite\<close>: first a lease for every operation that has a deadline and no lease, with at most
  \<open>2 n\<close> attempts; \<open>clock j\<close> is the time in milliseconds at operation \<open>j\<close>, \<open>genv j\<close> the environment of its attempts.
\<close>

fun grant_loop :: "(nat \<Rightarrow> write_turn) \<Rightarrow> int \<Rightarrow> nat \<Rightarrow> nat \<Rightarrow> client \<Rightarrow> (int option \<times> client) res" where
  "grant_loop env ms 0 t ck = Inr (None, ck)"
| "grant_loop env ms (Suc r) t ck =
     (let ck0 = ck\<lparr>servers := wtServers (env t)\<rparr> in
      res_bind (find_valid (length (servers ck0)) ck0) (\<lambda>(found, ck1).
        if \<not> found then grant_loop env ms r (Suc t) ck1
        else res_bind (real_conn ck1) (\<lambda>_.
          case wtGrant (env t) (nextSendLocalId ck1) ms of
            None \<Rightarrow> grant_loop env ms r (Suc t) (changeNextSendId ck1)
          | Some l \<Rightarrow> if l = 0 then grant_loop env ms r (Suc t) (changeNextSendId ck1) else Inr (Some l, ck1))))"

fun grant_leases ::
  "(nat \<Rightarrow> nat \<Rightarrow> write_turn) \<Rightarrow> (nat \<Rightarrow> int) \<Rightarrow> nat \<Rightarrow> op list \<Rightarrow> client \<Rightarrow> (op list \<times> client) res" where
  "grant_leases genv clock j [] ck = Inr ([], ck)"
| "grant_leases genv clock j (o' # os) ck =
     res_bind
       (if DeadTime (OpEntry o') \<noteq> 0 \<and> LeaseId o' = 0 \<and> DeadTime (OpEntry o') - clock j > 0
        then res_bind (grant_loop (genv j) (DeadTime (OpEntry o') - clock j) (2 * length (servers ck)) 0 ck) (\<lambda>(l, ck1).
          Inr (case l of None \<Rightarrow> o' | Some i \<Rightarrow> o'\<lparr>LeaseId := i\<rparr>, ck1))
        else Inr (o', ck))
       (\<lambda>(o1, ck1).
         res_bind (grant_leases genv clock (Suc j) os ck1) (\<lambda>(os1, ck2). Inr (o1 # os1, ck2)))"

definition BatchWrite ::
  "op list codec \<Rightarrow> (nat \<Rightarrow> nat \<Rightarrow> write_turn) \<Rightarrow> (nat \<Rightarrow> int) \<Rightarrow> (nat \<Rightarrow> write_turn) \<Rightarrow> int \<Rightarrow> pipe \<Rightarrow> client \<Rightarrow>
   (client_error option \<times> (int \<times> put_args) list \<times> client) res" where
  "BatchWrite bc genv clock env now p ck =
     res_bind (grant_leases genv clock 0 (Ops p) ck) (\<lambda>(os, ck1).
       client_write env now [] (pipe_Marshal bc (p\<lparr>Ops := os\<rparr>)) [] 0 BatchT ck1)"

definition client_Pipeline :: "client \<Rightarrow> pipe" where
  "client_Pipeline ck = NewPipe"

subsection \<open>Leases and locks\<close>

text \<open>
  The part \<^verbatim>\<open>LeaseGrant\<close>, \<^verbatim>\<open>LeaseRevoke\<close> and \<^verbatim>\<open>LeaseTimeToLive\<close> share, with the table of connections and what
  each server answers.
\<close>

record 'a lease_turn =
  ltServers :: "KVconn list"
  ltAnswer :: "int \<Rightarrow> client_error + 'a"

definition lease_call :: "'a lease_turn \<Rightarrow> client \<Rightarrow> ((client_error + 'a) \<times> client) res" where
  "lease_call e ck =
     (let ck0 = ck\<lparr>servers := ltServers e\<rparr> in
      res_bind (find_valid (length (servers ck0)) ck0) (\<lambda>(found, ck1).
        if \<not> found then Inr (Inl NoValidServers, ck1)
        else res_bind (real_conn ck1) (\<lambda>_. Inr (ltAnswer e (nextSendLocalId ck1), ck1))))"

text \<open>The requests carry the milliseconds, the identifier and the flag; the answer may depend on them.\<close>

definition client_LeaseGrant :: "(int \<Rightarrow> int lease_turn) \<Rightarrow> int \<Rightarrow> client \<Rightarrow> ((client_error + int) \<times> client) res" where
  "client_LeaseGrant e ttl ck = lease_call (e (go_quot ttl Millisecond)) ck"

definition client_LeaseRevoke :: "(int \<Rightarrow> unit lease_turn) \<Rightarrow> int \<Rightarrow> client \<Rightarrow> (client_error option \<times> client) res" where
  "client_LeaseRevoke e i ck =
     res_bind (lease_call (e i) ck) (\<lambda>(r, ck'). Inr (case r of Inl err \<Rightarrow> Some err | Inr _ \<Rightarrow> None, ck'))"

definition client_LeaseTimeToLive ::
  "(int \<Rightarrow> bool \<Rightarrow> (int \<times> string list) lease_turn) \<Rightarrow> int \<Rightarrow> bool \<Rightarrow> client \<Rightarrow> ((client_error + int \<times> string list) \<times> client) res" where
  "client_LeaseTimeToLive e i withKeys ck = lease_call (e i withKeys) ck"

text \<open>\<^verbatim>\<open>Lock\<close> and \<^verbatim>\<open>Unlock\<close>; a lock held by someone else is an empty identifier and no error.\<close>

definition Lock ::
  "(int \<Rightarrow> int lease_turn) \<Rightarrow> (nat \<Rightarrow> write_turn) \<Rightarrow> (int \<Rightarrow> unit lease_turn) \<Rightarrow> int \<Rightarrow> string \<Rightarrow> int \<Rightarrow> client \<Rightarrow>
   ((client_error + string) \<times> (int \<times> put_args) list \<times> client) res" where
  "Lock ge env re now key ttl ck =
     res_bind (client_LeaseGrant ge ttl ck) (\<lambda>(g, ck1).
       case g of
         Inl e \<Rightarrow> Inr (Inl e, [], ck1)
       | Inr l \<Rightarrow>
           res_bind (client_CAS env now key [] (itoa l) 0 ck1) (\<lambda>((got, err), sent, ck2).
             if err \<noteq> None \<or> \<not> got then
               res_bind (client_LeaseRevoke re l ck2) (\<lambda>(_, ck3).
                 Inr (case err of Some e \<Rightarrow> Inl e | None \<Rightarrow> Inr [], sent, ck3))
             else Inr (Inr (itoa l), sent, ck2)))"

definition Unlock ::
  "(nat \<Rightarrow> write_turn) \<Rightarrow> (int \<Rightarrow> unit lease_turn) \<Rightarrow> int \<Rightarrow> string \<Rightarrow> string \<Rightarrow> client \<Rightarrow>
   ((client_error + bool) \<times> (int \<times> put_args) list \<times> client) res" where
  "Unlock env re now key lid ck =
     res_bind (client_CAS env now key lid [] 0 ck) (\<lambda>((got, err), sent, ck1).
       if err \<noteq> None \<or> \<not> got then Inr (case err of Some e \<Rightarrow> Inl e | None \<Rightarrow> Inr False, sent, ck1)
       else if fst (ParseInt lid) > 0 then
         res_bind (client_LeaseRevoke re (fst (ParseInt lid)) ck1) (\<lambda>(_, ck2). Inr (Inr True, sent, ck2))
       else Inr (Inr True, sent, ck1))"

text \<open>
  The goroutine of \<^verbatim>\<open>AutoKeepAlive\<close>: its ticker, and one tick with the flag the returned function sets. The
  \<^verbatim>\<open>continue\<close> after the sleep is one of the inner loop, so the tick only ends with a table that has a valid
  server; with any other table it is still looping (\<open>None\<close>). Otherwise, whether the goroutine goes on.
\<close>

record keepalive_turn =
  kaServers :: "KVconn list"
  kaOpened :: "int \<Rightarrow> bool"
  kaSent :: "int \<Rightarrow> bool"
  kaAnswer :: "int \<Rightarrow> int \<Rightarrow> int option"

definition AutoKeepAlive :: "int \<Rightarrow> unit res" where
  "AutoKeepAlive interval = (if interval \<le> 0 then Inl TickerPanic else Inr ())"

definition keepAlive_tick :: "keepalive_turn \<Rightarrow> int \<Rightarrow> bool \<Rightarrow> client \<Rightarrow> (bool \<times> client) option res" where
  "keepAlive_tick e i flag ck =
     (if flag then Inr (Some (False, ck))
      else
        let ck0 = ck\<lparr>servers := kaServers e\<rparr> in
        res_bind (find_valid (length (servers ck0)) ck0) (\<lambda>(found, ck1).
          if \<not> found then Inr None
          else res_bind (real_conn ck1) (\<lambda>_.
            let s = nextSendLocalId ck1 in
            if \<not> kaOpened e s \<or> \<not> kaSent e s then Inr (Some (True, ck1))
            else case kaAnswer e s i of
              None \<Rightarrow> Inr (Some (False, ck1))
            | Some ms \<Rightarrow> Inr (Some (ms \<noteq> 0, ck1)))))"

text \<open>\<^verbatim>\<open>LockWithKeepAlive\<close> until it has started the goroutine, and the function it returns.\<close>

definition LockWithKeepAlive where
  "LockWithKeepAlive ge env re now key ttl ck =
     res_bind (Lock ge env re now key ttl ck) (\<lambda>(r, sent, ck1).
       case r of
         Inl e \<Rightarrow> Inr (Inl e, sent, ck1)
       | Inr lid \<Rightarrow>
           if lid = [] then Inr (Inr [], sent, ck1)
           else res_bind (AutoKeepAlive (go_quot ttl 3)) (\<lambda>_. Inr (Inr lid, sent, ck1)))"

subsection \<open>Watching\<close>

text \<open>\<^verbatim>\<open>WatchOption\<close>s change the request \<^verbatim>\<open>Watch\<close> starts from.\<close>

definition WithSendInitialState :: "bool \<Rightarrow> watch_req \<Rightarrow> watch_req" where
  "WithSendInitialState send req = req\<lparr>wrSendInitialState := send\<rparr>"

definition WithPrefix :: "watch_req \<Rightarrow> watch_req" where
  "WithPrefix req = req\<lparr>wrIsPrefix := True\<rparr>"

definition client_Watch :: "string \<Rightarrow> (watch_req \<Rightarrow> watch_req) list \<Rightarrow> watch_req" where
  "client_Watch key opts = fold (\<lambda>opt req. opt req) opts \<lparr>wrKey = key, wrIsPrefix = False, wrSendInitialState = True\<rparr>"

definition watchRetryInitialBackoff :: int where "watchRetryInitialBackoff = 500 * Millisecond"

definition watchRetryMaxBackoff :: int where "watchRetryMaxBackoff = 30 * Second"

datatype grpc_code = Unavailable | DeadlineExceeded | ResourceExhausted | Internal | Unknown | FailedPrecondition | OtherCode

definition shouldRetry :: "grpc_code \<Rightarrow> bool" where
  "shouldRetry c \<longleftrightarrow> c \<noteq> OtherCode"

text \<open>How the receiving loop ends: end of file, an error, or the context while an event was being sent.\<close>

datatype stream_end = RecvEOF | RecvError grpc_code | SendCancelled

text \<open>
  The environment of a turn of \<^verbatim>\<open>manageWatchStream\<close>: whether the context is done at its head and before a
  retry, the table, and what opening a stream to a server gives: an error, or the events received and how
  the stream ended.
\<close>

record watch_turn =
  wxDone :: bool
  wxRetryDone :: bool
  wxServers :: "KVconn list"
  wxStream :: "int \<Rightarrow> watch_req \<Rightarrow> grpc_code + watch_event list \<times> stream_end"

text \<open>The loop that picks a server for the stream, from the \<open>i\<close>-th on.\<close>

fun pick_server :: "KVconn list \<Rightarrow> int \<Rightarrow> nat \<Rightarrow> nat \<Rightarrow> int option res" where
  "pick_server cs s i 0 = Inr None"
| "pick_server cs s i (Suc r) =
     (let target = (s + int i) mod int (length cs) in
      res_bind (go_nth cs target) (\<lambda>c. if Valid c \<and> Conn c then Inr (Some target) else pick_server cs s (Suc i) r))"

text \<open>Marking the server of a broken stream.\<close>

definition mark_invalid :: "int \<Rightarrow> client \<Rightarrow> client" where
  "mark_invalid s ck =
     ck\<lparr>servers := (servers ck)[nat s := (servers ck ! nat s)\<lparr>Valid := False, Realconn := False\<rparr>]\<rparr>"

text \<open>The label \<^verbatim>\<open>handle_error_and_retry\<close>: the next backoff.\<close>

definition next_backoff :: "int \<Rightarrow> int" where
  "next_backoff b = min (b * 2) watchRetryMaxBackoff"

text \<open>
  A turn of the outer loop from the backoff and the server index: the events delivered, and, unless the goroutine
  returned, the backoff and server index of the next turn and how long it slept.
\<close>

definition manageWatchStream ::
  "watch_turn \<Rightarrow> watch_req \<Rightarrow> int \<Rightarrow> int \<Rightarrow> client \<Rightarrow> (watch_event list \<times> (int \<times> int \<times> int) option \<times> client) res" where
  "manageWatchStream e req backoff serverIdx ck =
     (let ck0 = ck\<lparr>servers := wxServers e\<rparr>;
          s = (if serverIdx = -1 then nextSendLocalId ck0 else serverIdx);
          retry = (\<lambda>evs b i ck'. Inr (evs, if wxRetryDone e then None else Some (next_backoff b, i, b), ck')) in
      if wxDone e then Inr ([], None, ck)
      else res_bind (pick_server (servers ck0) s 0 (length (servers ck0))) (\<lambda>picked.
        case picked of
          None \<Rightarrow> retry [] backoff s ck0
        | Some i \<Rightarrow>
            (case wxStream e i req of
               Inl FailedPrecondition \<Rightarrow>
                 let ck1 = changeNextSendId ck0 in
                 Inr ([], if wxRetryDone e then None else Some (watchRetryInitialBackoff, nextSendLocalId ck1, 0), ck1)
             | Inl _ \<Rightarrow> retry [] backoff i ck0
             | Inr (evs, fin) \<Rightarrow>
                 (case fin of
                    SendCancelled \<Rightarrow> Inr (evs, None, ck0)
                  | RecvError Unavailable \<Rightarrow> retry evs watchRetryInitialBackoff i (mark_invalid i ck0)
                  | _ \<Rightarrow> retry evs watchRetryInitialBackoff i ck0))))"

subsection \<open>Invariants and environments\<close>

text \<open>
  A table of connections as \<^verbatim>\<open>MakeClerk\<close>, \<^verbatim>\<open>watchEtcd\<close> and \<^verbatim>\<open>manageWatchStream\<close> leave it, and a client whose
  indexes are in range.
\<close>

definition table_ok :: "nat \<Rightarrow> KVconn list \<Rightarrow> bool" where
  "table_ok n cs \<longleftrightarrow> length cs = n \<and> (\<forall>c \<in> set cs. Valid c \<longrightarrow> Conn c \<and> Realconn c)"

definition local_ids :: "nat \<Rightarrow> int list \<Rightarrow> bool" where
  "local_ids n xs \<longleftrightarrow> length xs = n \<and> (\<forall>s \<in> set xs. s = -1 \<or> 0 \<le> s \<and> s < int n)"

definition client_inv :: "client \<Rightarrow> bool" where
  "client_inv ck \<longleftrightarrow> table_ok (length (servers ck)) (servers ck) \<and> 0 \<le> nextSendLocalId ck \<and>
     nextSendLocalId ck < int (length (servers ck)) \<and> local_ids (length (servers ck)) (sToc ck)"

text \<open>The environments of a cluster of \<open>n\<close> servers numbered from 0, which know one of them as leader or none.\<close>

definition write_env :: "nat \<Rightarrow> (nat \<Rightarrow> write_turn) \<Rightarrow> bool" where
  "write_env n env \<longleftrightarrow> (\<forall>t. table_ok n (wtServers (env t)) \<and>
     (\<forall>i a r. wtReply (env t) i a = Some r \<longrightarrow> prErr r \<noteq> ErrWaitForRecover \<and>
        0 \<le> prServerId r \<and> prServerId r < int n \<and> -1 \<le> prLeaderId r \<and> prLeaderId r < int n))"

definition read_env :: "nat \<Rightarrow> (nat \<Rightarrow> read_turn) \<Rightarrow> bool" where
  "read_env n env \<longleftrightarrow> (\<forall>t. table_ok n (rtServers (env t)) \<and>
     (\<forall>i a r. rtReply (env t) i a = Some r \<longrightarrow> grErr r \<noteq> ErrCasFaildInt \<and>
        0 \<le> grServerId r \<and> grServerId r < int n \<and> -1 \<le> grLeaderId r \<and> grLeaderId r < int n))"

text \<open>Another choice of server, and other knowledge of who is who, but the same session.\<close>

definition same_session :: "client \<Rightarrow> client \<Rightarrow> bool" where
  "same_session ck ck' \<longleftrightarrow> client_inv ck' \<and> length (servers ck') = length (servers ck) \<and>
     clientId ck' = clientId ck \<and> LatestOffset ck' = LatestOffset ck"

text \<open>What a turn does with a reply.\<close>

definition answered :: "'e \<Rightarrow> 'e option \<Rightarrow> client \<Rightarrow> client \<Rightarrow> bool" where
  "answered failed out ck ck' \<longleftrightarrow>
     (case out of
        None \<Rightarrow> same_session ck ck'
      | Some e \<Rightarrow> e \<noteq> failed \<and> client_inv ck' \<and> length (servers ck') = length (servers ck) \<and> clientId ck' = clientId ck \<and>
          LatestOffset ck' = LatestOffset ck + 1)"

text \<open>What a run of the loop of \<^verbatim>\<open>write\<close> with \<open>r\<close> turns left yields.\<close>

definition write_ran ::
  "int \<Rightarrow> put_args \<Rightarrow> nat \<Rightarrow> client \<Rightarrow> (client_error option \<times> (int \<times> put_args) list \<times> client) res \<Rightarrow> bool" where
  "write_ran ttl args r ck out \<longleftrightarrow>
     (\<exists>res sent ck' l. out = Inr (res, sent, ck') \<and> client_inv ck' \<and> length (servers ck') = length (servers ck) \<and>
        clientId ck' = clientId ck \<and>
        LatestOffset ck' = (if res = Some ErrFaild then LatestOffset ck else LatestOffset ck + 1) \<and>
        length sent \<le> r \<and> (res \<noteq> Some ErrFaild \<longrightarrow> sent \<noteq> []) \<and> (0 < ttl \<longrightarrow> l \<noteq> 0) \<and>
        (0 < ttl \<and> paLeaseId args = 0 \<or> l = paLeaseId args) \<and>
        (\<forall>(i, a) \<in> set sent. 0 \<le> i \<and> i < int (length (servers ck)) \<and> a = args\<lparr>paLeaseId := l\<rparr>))"

text \<open>
  A cluster with a stable leader as the client sees it: all connections are valid and leases are granted, the server
  at position \<open>i\<close> of the client's table is number \<open>names i\<close>, the one at \<open>lead\<close> acknowledges writes and the others
  turn them away, with the number of the leader or without.
\<close>

definition stable_cluster :: "nat \<Rightarrow> (int \<Rightarrow> int) \<Rightarrow> int \<Rightarrow> (nat \<Rightarrow> write_turn) \<Rightarrow> bool" where
  "stable_cluster n names lead env \<longleftrightarrow>
     (\<forall>i j. 0 \<le> i \<and> i < int n \<and> 0 \<le> j \<and> j < int n \<and> names i = names j \<longrightarrow> i = j) \<and>
     (\<forall>i. 0 \<le> i \<and> i < int n \<longrightarrow> 0 \<le> names i \<and> names i < int n) \<and> 0 \<le> lead \<and> lead < int n \<and>
     (\<forall>t. length (wtServers (env t)) = n \<and> (\<forall>c \<in> set (wtServers (env t)). Valid c \<and> Conn c \<and> Realconn c) \<and>
        (\<forall>i ms. \<exists>l. wtGrant (env t) i ms = Some l \<and> l \<noteq> 0) \<and>
        (\<forall>i a. 0 \<le> i \<and> i < int n \<longrightarrow> (\<exists>r. wtReply (env t) i a = Some r \<and> prServerId r = names i \<and>
           (if i = lead then prErr r = ErrOK
            else prErr r = ErrWrongLeader \<and> (prLeaderId r = -1 \<or> prLeaderId r = names lead)))))"

text \<open>What the client has noted of who is who is right.\<close>

definition knows :: "(int \<Rightarrow> int) \<Rightarrow> client \<Rightarrow> bool" where
  "knows names ck \<longleftrightarrow> (\<forall>s < length (sToc ck). sToc ck ! s = -1 \<or> names (sToc ck ! s) = int s)"

text \<open>The reads of a cluster of \<open>n\<close> servers: every answer is one of \<^verbatim>\<open>Get\<close> of one of them.\<close>

definition served_reads :: "'d db_ops \<Rightarrow> kv_codecs \<Rightarrow> nat \<Rightarrow> (nat \<Rightarrow> read_turn) \<Rightarrow> bool" where
  "served_reads D K n env \<longleftrightarrow> (\<forall>t. table_ok n (rtServers (env t)) \<and>
     (\<forall>i a r. rtReply (env t) i a = Some r \<longrightarrow>
        (\<exists>kv kv'. kv_Get D K a kv = Inr (r, kv') \<and> 0 \<le> kv_me kv \<and> kv_me kv < int n \<and>
           -1 \<le> GetleaderId (kv_rf kv) \<and> GetleaderId (kv_rf kv) < int n)))"

text \<open>The server a request reaches answers with what \<^verbatim>\<open>PutAppend\<close> replies in the state \<open>kv\<close>.\<close>

definition served_by :: "kv_codecs \<Rightarrow> 'd kvserver list \<Rightarrow> 'd kvserver \<Rightarrow> int \<Rightarrow> write_turn \<Rightarrow> bool" where
  "served_by K later kv i w \<longleftrightarrow> 0 \<le> i \<and> i < int (length (wtServers w)) \<and> Valid (wtServers w ! nat i) \<and> Conn (wtServers w ! nat i) \<and>
     (\<forall>a. wtReply w i a = (case PutAppend K a later kv of Inl p \<Rightarrow> None | Inr (r, kv') \<Rightarrow> Some r))"

text \<open>The answer of the server at a connection to \<^verbatim>\<open>LeaseGrant\<close>.\<close>

definition lease_granted :: "int \<Rightarrow> int \<Rightarrow> nat \<Rightarrow> int lease_turn \<Rightarrow> bool" where
  "lease_granted l i n e \<longleftrightarrow> table_ok n (ltServers e) \<and> Valid (ltServers e ! nat i) \<and> Realconn (ltServers e ! nat i) \<and> ltAnswer e i = Inr l"

text \<open>A client of three servers, and environments for the witnesses.\<close>

definition up_conn :: KVconn where "up_conn = \<lparr>Valid = True, Conn = True, Realconn = True\<rparr>"

definition demo_ck :: client where
  "demo_ck = \<lparr>servers = replicate 3 no_conn, nextSendLocalId = 0, LatestOffset = 1, clientId = 7,
     cTos = replicate 3 (-1), sToc = replicate 3 (-1)\<rparr>"

definition demo_turn :: write_turn where
  "demo_turn = \<lparr>wtServers = replicate 3 up_conn, wtGrant = (\<lambda>i ms. Some 1),
     wtReply = (\<lambda>i a. if 0 \<le> i \<and> i < 3
       then Some \<lparr>prErr = (if i = 2 then ErrOK else ErrWrongLeader), prLeaderId = -1, prServerId = i\<rparr> else None)\<rparr>"

text \<open>A client of one server, and a network that loses every answer.\<close>

definition demo_ck1 :: client where
  "demo_ck1 = \<lparr>servers = [up_conn], nextSendLocalId = 0, LatestOffset = 1, clientId = 7, cTos = [-1], sToc = [-1]\<rparr>"

definition lost_turn :: write_turn where
  "lost_turn = \<lparr>wtServers = [up_conn], wtGrant = (\<lambda>i ms. None), wtReply = (\<lambda>i a. None)\<rparr>"

section \<open>Lemmas\<close>


lemma client_inv_pos: "client_inv ck \<Longrightarrow> 0 < length (servers ck)"
  by (cases "servers ck") (auto simp: client_inv_def)

lemma same_session_trans: "same_session a b \<Longrightarrow> same_session b c \<Longrightarrow> same_session a c"
  by (simp add: same_session_def)

lemma same_session_refl: "client_inv ck \<Longrightarrow> same_session ck ck"
  by (simp add: same_session_def)

lemma MakeClerk_inv: "MakeClerk n r1 r2 = Inr ck \<Longrightarrow> client_inv ck \<and> length (servers ck) = n \<and> LatestOffset ck = 1"
  by (auto simp: MakeClerk_def client_inv_def table_ok_def local_ids_def no_conn_def split: if_splits)

lemma watchEtcd_table: "table_ok n cs \<Longrightarrow> table_ok n (watchEtcd dial i cs)"
  by (induction dial i cs arbitrary: n rule: watchEtcd.induct) (auto simp: table_ok_def NewKvConn_def)

lemma new_table: "client_inv ck \<Longrightarrow> table_ok (length (servers ck)) cs \<Longrightarrow> same_session ck (ck\<lparr>servers := cs\<rparr>)"
  by (simp add: client_inv_def same_session_def table_ok_def)

lemma move_inv:
  "client_inv ck \<Longrightarrow> 0 \<le> j \<Longrightarrow> j < int (length (servers ck)) \<Longrightarrow> same_session ck (ck\<lparr>nextSendLocalId := j\<rparr>)"
  by (simp add: same_session_def client_inv_def)

lemma change_inv: "client_inv ck \<Longrightarrow> same_session ck (changeNextSendId ck)"
  using client_inv_pos [of ck] by (simp add: changeNextSendId_def move_inv)

lemma rotate_inv: "client_inv ck \<Longrightarrow> rotate_stuck limit l c ck = (c', ck') \<Longrightarrow> same_session ck ck'"
  by (auto simp: rotate_stuck_def change_inv same_session_refl split: if_splits)

lemma find_valid_inv:
  assumes "client_inv ck" "0 < r"
  shows "\<exists>b ck'. find_valid r ck = Inr (b, ck') \<and> same_session ck ck' \<and> (b \<longrightarrow> Valid (servers ck' ! nat (nextSendLocalId ck')))"
  using assms
proof (induction r ck rule: find_valid.induct)
  case (2 r ck)
  have g: "go_nth (servers ck) (nextSendLocalId ck) = Inr (servers ck ! nat (nextSendLocalId ck))"
    using 2(2) by (simp add: go_nth_def client_inv_def)
  have c: "same_session ck (changeNextSendId ck)" "client_inv (changeNextSendId ck)"
    using change_inv [OF 2(2)] by (simp_all add: same_session_def)
  show ?case
  proof (cases "Valid (servers ck ! nat (nextSendLocalId ck)) \<or> r = 0")
    case True
    with g c 2(2) show ?thesis by (auto simp: same_session_refl)
  next
    case False
    with 2(1) [of "servers ck ! nat (nextSendLocalId ck)"] c g show ?thesis by (auto intro: same_session_trans [OF c(1)])
  qed
qed simp

lemma conns_Inr:
  assumes "client_inv ck" "Valid (servers ck ! nat (nextSendLocalId ck))"
  shows "the_conn ck = Inr (servers ck ! nat (nextSendLocalId ck))" "real_conn ck = Inr (servers ck ! nat (nextSendLocalId ck))"
  using assms by (auto simp: the_conn_def real_conn_def go_nth_def client_inv_def table_ok_def)

lemma note_server_inv:
  assumes "client_inv ck" "0 \<le> s" "s < int (length (servers ck))"
  shows "\<exists>ck'. note_server s ck = Inr ck' \<and> same_session ck ck'"
proof -
  have "set ((sToc ck)[nat s := nextSendLocalId ck]) \<subseteq> insert (nextSendLocalId ck) (set (sToc ck))"
    by (rule set_update_subset_insert)
  then show ?thesis using assms
    by (auto simp: note_server_def go_set_def client_inv_def local_ids_def same_session_def)
qed

lemma follow_leader_inv:
  assumes "client_inv ck" "-1 \<le> l" "l < int (length (servers ck))"
  shows "\<exists>ck'. follow_leader l ck = Inr ck' \<and> same_session ck ck'"
proof (cases "l = -1")
  case False
  with assms have "sToc ck ! nat l \<in> set (sToc ck)" by (auto simp: client_inv_def local_ids_def)
  with assms have r: "sToc ck ! nat l = -1 \<or> 0 \<le> sToc ck ! nat l \<and> sToc ck ! nat l < int (length (servers ck))"
    by (auto simp: client_inv_def local_ids_def)
  have "go_nth (sToc ck) l = Inr (sToc ck ! nat l)"
    using False assms by (simp add: go_nth_def client_inv_def local_ids_def)
  with False r assms(1) show ?thesis by (auto simp: follow_leader_def change_inv move_inv)
qed (simp add: follow_leader_def assms change_inv)

lemma next_offset_answered: "client_inv ck \<Longrightarrow> e \<noteq> f \<Longrightarrow> answered f (Some e) ck (next_offset ck)"
  by (simp add: answered_def next_offset_def client_inv_def)

lemma write_reply_inv:
  assumes "client_inv ck" "prErr r \<noteq> ErrWaitForRecover" "-1 \<le> prLeaderId r" "prLeaderId r < int (length (servers ck))"
  shows "\<exists>out ck'. write_reply r ck = Inr (out, ck') \<and> answered (Some ErrFaild) out ck ck'"
  using assms follow_leader_inv [OF assms(1,3,4)]
  by (cases "prErr r") (auto simp: write_reply_def next_offset_answered answered_def [of _ None])

lemma read_reply_inv:
  assumes "client_inv ck" "grErr r \<noteq> ErrCasFaildInt" "-1 \<le> grLeaderId r" "grLeaderId r < int (length (servers ck))"
  shows "\<exists>out ck'. read_reply r ck = Inr (out, ck') \<and> answered (Inl ErrFaild) out ck ck'"
  using assms follow_leader_inv [OF assms(1,3,4)]
  by (cases "grErr r") (auto simp: read_reply_def next_offset_answered answered_def [of _ None] same_session_refl)

lemma write_lease_inv:
  assumes "client_inv ck" "Valid (servers ck ! nat (nextSendLocalId ck))"
  shows "write_lease w ttl args ck = Inr None \<and> 0 < ttl \<and> paLeaseId args = 0 \<or>
    (\<exists>l. write_lease w ttl args ck = Inr (Some (args\<lparr>paLeaseId := l\<rparr>)) \<and> (0 < ttl \<longrightarrow> l \<noteq> 0) \<and>
       (0 < ttl \<and> paLeaseId args = 0 \<or> l = paLeaseId args))"
proof (cases "0 < ttl \<and> paLeaseId args = 0")
  case True
  then show ?thesis using assms by (auto simp: write_lease_def conns_Inr split: option.splits)
next
  case False
  have "args\<lparr>paLeaseId := paLeaseId args\<rparr> = args" by simp
  with False show ?thesis by (auto simp: write_lease_def)
qed

lemma write_ran_later:
  assumes "write_ran ttl args r ck' out" "same_session ck ck'"
  shows "write_ran ttl args (Suc r) ck out"
  using assms unfolding write_ran_def same_session_def by fastforce

lemma write_ran_after_send:
  assumes "write_ran ttl (args\<lparr>paLeaseId := l\<rparr>) r ck' out" "same_session ck ck'" "0 < ttl \<longrightarrow> l \<noteq> 0"
    "0 < ttl \<and> paLeaseId args = 0 \<or> l = paLeaseId args" "0 \<le> i" "i < int (length (servers ck))"
  shows "write_ran ttl args (Suc r) ck (res_bind out (\<lambda>(res, sent, ck4). Inr (res, (i, args\<lparr>paLeaseId := l\<rparr>) # sent, ck4)))"
proof -
  from assms(1) obtain res sent ck4 l' where o: "out = Inr (res, sent, ck4)" "client_inv ck4"
    "length (servers ck4) = length (servers ck')" "clientId ck4 = clientId ck'"
    "LatestOffset ck4 = (if res = Some ErrFaild then LatestOffset ck' else LatestOffset ck' + 1)"
    "length sent \<le> r" "0 < ttl \<and> l = 0 \<or> l' = l"
    "\<forall>(i, a) \<in> set sent. 0 \<le> i \<and> i < int (length (servers ck')) \<and> a = args\<lparr>paLeaseId := l'\<rparr>"
    by (auto simp: write_ran_def)
  then have "l' = l" using assms(3) by auto
  with o assms show ?thesis by (auto simp: write_ran_def same_session_def)
qed

lemma write_ran_answered:
  assumes "answered (Some ErrFaild) (Some res) ck ck'" "0 < ttl \<longrightarrow> l \<noteq> 0"
    "0 < ttl \<and> paLeaseId args = 0 \<or> l = paLeaseId args" "0 \<le> i" "i < int (length (servers ck))"
  shows "write_ran ttl args (Suc r) ck (Inr (res, [(i, args\<lparr>paLeaseId := l\<rparr>)], ck'))"
  using assms by (auto simp: write_ran_def answered_def)

lemma answered_trans: "same_session a b \<Longrightarrow> answered f out b c \<Longrightarrow> answered f out a c"
  by (auto simp: answered_def same_session_def split: option.splits)

lemma write_turn_answer:
  assumes "client_inv ck" "write_env (length (servers ck)) env"
  shows "\<exists>out ck'. (case wtReply (env t) i a of
      None \<Rightarrow> Inr (None, changeNextSendId ck)
    | Some reply \<Rightarrow> res_bind (note_server (prServerId reply) ck) (write_reply reply)) = Inr (out, ck') \<and>
    answered (Some ErrFaild) out ck ck'"
proof (cases "wtReply (env t) i a")
  case None
  then show ?thesis using assms(1) by (simp add: answered_def change_inv)
next
  case (Some reply)
  with assms(2) have r: "prErr reply \<noteq> ErrWaitForRecover" "0 \<le> prServerId reply" "prServerId reply < int (length (servers ck))"
    "-1 \<le> prLeaderId reply" "prLeaderId reply < int (length (servers ck))" by (auto simp: write_env_def)
  obtain ck1 where n: "note_server (prServerId reply) ck = Inr ck1" "same_session ck ck1"
    using note_server_inv [OF assms(1) r(2,3)] by auto
  then obtain out ck2 where "write_reply reply ck1 = Inr (out, ck2)" "answered (Some ErrFaild) out ck1 ck2"
    using write_reply_inv [of ck1 reply] r by (auto simp: same_session_def)
  with Some n show ?thesis by (auto intro: answered_trans)
qed

lemma turn_start:
  assumes "client_inv ck" "table_ok (length (servers ck)) cs"
  obtains count1 ck1 found ck2 where
    "rotate_stuck limit lastId count (ck\<lparr>servers := cs\<rparr>) = (count1, ck1)"
    "find_valid (length (servers ck1)) ck1 = Inr (found, ck2)" "same_session ck ck2"
    "found \<Longrightarrow> Valid (servers ck2 ! nat (nextSendLocalId ck2))"
proof -
  obtain count1 ck1 where r: "rotate_stuck limit lastId count (ck\<lparr>servers := cs\<rparr>) = (count1, ck1)" by fastforce
  have a: "same_session ck (ck\<lparr>servers := cs\<rparr>)" using assms by (rule new_table)
  then have b: "same_session (ck\<lparr>servers := cs\<rparr>) ck1" using r by (auto simp: same_session_def [of ck] intro: rotate_inv)
  then have "client_inv ck1" by (simp add: same_session_def)
  then obtain found ck2 where "find_valid (length (servers ck1)) ck1 = Inr (found, ck2)" "same_session ck1 ck2"
    "found \<Longrightarrow> Valid (servers ck2 ! nat (nextSendLocalId ck2))" using find_valid_inv client_inv_pos by blast
  with r a b show thesis by (auto intro: that same_session_trans)
qed

text \<open>A turn that has found a server, given what the rest of the loop does.\<close>

lemma write_loop_sends:
  assumes inv: "client_inv ck2" "write_env (length (servers ck)) env" "same_session ck ck2"
    and v: "Valid (servers ck2 ! nat (nextSendLocalId ck2))"
    and h: "rotate_stuck 5 lastId count (ck\<lparr>servers := wtServers (env t)\<rparr>) = (count1, ck1)"
      "find_valid (length (servers ck1)) ck1 = Inr (True, ck2)"
    and l: "write_lease (env t) ttl args ck2 = Inr (Some (args\<lparr>paLeaseId := l\<rparr>))" "0 < ttl \<longrightarrow> l \<noteq> 0"
      "0 < ttl \<and> paLeaseId args = 0 \<or> l = paLeaseId args"
    and IH: "\<And>args t lastId count ck'. same_session ck ck' \<Longrightarrow> write_ran ttl args r ck' (write_loop env ttl args r t lastId count ck')"
  shows "write_ran ttl args (Suc r) ck (write_loop env ttl args (Suc r) t lastId count ck)"
proof -
  let ?args = "args\<lparr>paLeaseId := l\<rparr>" and ?i = "nextSendLocalId ck2"
  have n: "length (servers ck2) = length (servers ck)" using inv(3) by (simp add: same_session_def)
  then have i: "0 \<le> ?i" "?i < int (length (servers ck))" using inv(1) by (auto simp: client_inv_def)
  obtain out ck3 where o: "(case wtReply (env t) ?i ?args of
      None \<Rightarrow> Inr (None, changeNextSendId ck2)
    | Some reply \<Rightarrow> res_bind (note_server (prServerId reply) ck2) (write_reply reply)) = Inr (out, ck3)"
    "answered (Some ErrFaild) out ck2 ck3" using write_turn_answer [OF inv(1), of env t ?i ?args] inv(2) n by auto
  have a: "answered (Some ErrFaild) out ck ck3" using inv(3) o(2) by (rule answered_trans)
  have eq: "write_loop env ttl args (Suc r) t lastId count ck =
    (case out of Some res \<Rightarrow> Inr (res, [(?i, ?args)], ck3)
     | None \<Rightarrow> res_bind (write_loop env ttl ?args r (Suc t) ?i count1 ck3) (\<lambda>(res, sent, ck4). Inr (res, (?i, ?args) # sent, ck4)))"
    using h l(1) o(1) conns_Inr [OF inv(1) v] by (simp add: Let_def)
  show ?thesis
  proof (cases out)
    case None
    with a have s: "same_session ck ck3" by (simp add: answered_def)
    from write_ran_after_send [OF IH [OF s] s l(2,3) i] show ?thesis unfolding eq None by simp
  next
    case (Some res)
    with write_ran_answered [OF _ l(2,3) i] a show ?thesis unfolding eq Some by simp
  qed
qed

lemma write_loop_ran:
  assumes "client_inv ck" "write_env (length (servers ck)) env"
  shows "write_ran ttl args r ck (write_loop env ttl args r t lastId count ck)"
  using assms
proof (induction r arbitrary: args t lastId count ck)
  case 0
  define l where "l = (if 0 < ttl \<and> paLeaseId args = 0 then 1 else paLeaseId args)"
  have "(0 < ttl \<longrightarrow> l \<noteq> 0) \<and> (0 < ttl \<and> paLeaseId args = 0 \<or> l = paLeaseId args)" by (simp add: l_def)
  with 0 show ?case by (auto simp: write_ran_def intro!: exI [of _ l])
next
  case (Suc r)
  have tbl: "table_ok (length (servers ck)) (wtServers (env t))" using Suc.prems(2) by (simp add: write_env_def)
  obtain count1 ck1 found ck2 where
    h: "rotate_stuck 5 lastId count (ck\<lparr>servers := wtServers (env t)\<rparr>) = (count1, ck1)"
      "find_valid (length (servers ck1)) ck1 = Inr (found, ck2)" "same_session ck ck2"
      "found \<Longrightarrow> Valid (servers ck2 ! nat (nextSendLocalId ck2))"
    using turn_start [OF Suc.prems(1) tbl] by blast
  have IH: "write_ran ttl args r ck' (write_loop env ttl args r t lastId count ck')" if "same_session ck ck'" for args t lastId count ck'
    using Suc.IH [of ck'] Suc.prems(2) that by (simp add: same_session_def)
  have inv2: "client_inv ck2" using h(3) by (simp add: same_session_def)
  show ?case
  proof (cases found)
    case False
    with h write_ran_later [OF IH [OF h(3)] h(3)] show ?thesis by simp
  next
    case True
    note lease = write_lease_inv [OF inv2 h(4) [OF True], of "env t" ttl args]
    show ?thesis
    proof (cases "write_lease (env t) ttl args ck2 = Inr None")
      case l: True
      have s: "same_session ck (changeNextSendId ck2)" by (rule same_session_trans [OF h(3) change_inv [OF inv2]])
      from True h l write_ran_later [OF IH [OF s] s] show ?thesis by simp
    next
      case False
      with lease obtain l where l: "write_lease (env t) ttl args ck2 = Inr (Some (args\<lparr>paLeaseId := l\<rparr>))"
        "0 < ttl \<longrightarrow> l \<noteq> 0" "0 < ttl \<and> paLeaseId args = 0 \<or> l = paLeaseId args" by blast
      from h(2) True have f: "find_valid (length (servers ck1)) ck1 = Inr (True, ck2)" by simp
      show ?thesis by (rule write_loop_sends [OF inv2 Suc.prems(2) h(3) h(4) [OF True] h(1) f l IH])
    qed
  qed
qed

lemma client_write_ran:
  assumes "client_inv ck" "write_env (length (servers ck)) env"
  shows "write_ran ttl (write_args now key val ori ttl o' ck) (2 * length (servers ck) * 3) ck (client_write env now key val ori ttl o' ck)"
  unfolding client_write_def by (rule write_loop_ran [OF assms])


lemma LeaseGrant_granted:
  assumes "client_inv ck" "lease_granted l (nextSendLocalId ck) (length (servers ck)) (e (go_quot ttl Millisecond))"
  shows "client_LeaseGrant e ttl ck = Inr (Inr l, ck\<lparr>servers := ltServers (e (go_quot ttl Millisecond))\<rparr>)"
proof -
  let ?t = "e (go_quot ttl Millisecond)"
  have t: "length (ltServers ?t) = length (servers ck)" using assms(2) by (simp add: lease_granted_def table_ok_def)
  obtain m where m: "length (ltServers ?t) = Suc m" using t client_inv_pos [OF assms(1)] by (metis gr0_conv_Suc)
  have "go_nth (ltServers ?t) (nextSendLocalId ck) = Inr (ltServers ?t ! nat (nextSendLocalId ck))"
    using assms(1) t by (simp add: client_inv_def go_nth_def)
  with assms(2) m show ?thesis by (simp add: client_LeaseGrant_def lease_call_def lease_granted_def real_conn_def Let_def)
qed

subsection \<open>Finding the leader\<close>

lemma mod_step:
  fixes a b n :: int
  assumes "0 \<le> a" "a < n" "0 \<le> b" "b < n" "a \<noteq> b"
  shows "(b - (a + 1) mod n) mod n = (b - a) mod n - 1" "(a + 1) mod n \<noteq> a" "0 < (b - a) mod n"
proof -
  have 1: "(b - a) mod n = (if a \<le> b then b - a else b - a + n)"
    using assms mod_add_self2 [of "b - a" n] by (auto simp: mod_pos_pos_trivial simp del: mod_add_self2)
  have 2: "(a + 1) mod n = (if a + 1 = n then 0 else a + 1)" using assms by (auto simp: mod_pos_pos_trivial)
  then show "(a + 1) mod n \<noteq> a" using assms by auto
  from 1 show "0 < (b - a) mod n" using assms by auto
  have "(b - (a + 1)) mod n = (b - a) mod n - 1"
  proof (cases "a < b")
    case True
    then show ?thesis using assms 1 by (simp add: mod_pos_pos_trivial)
  next
    case False
    have "(b - (a + 1)) mod n = (b - (a + 1) + n) mod n" by simp
    also have "\<dots> = b - (a + 1) + n" using False assms by (intro mod_pos_pos_trivial) auto
    finally show ?thesis using False assms 1 by auto
  qed
  then show "(b - (a + 1) mod n) mod n = (b - a) mod n - 1" by (simp add: mod_diff_right_eq)
qed

lemma note_server_knows:
  assumes "client_inv ck" "knows names ck" "names (nextSendLocalId ck) = s" "0 \<le> s" "s < int (length (servers ck))"
  shows "note_server s ck = Inr (ck\<lparr>sToc := (sToc ck)[nat s := nextSendLocalId ck]\<rparr>)"
    "knows names (ck\<lparr>sToc := (sToc ck)[nat s := nextSendLocalId ck]\<rparr>)"
    "client_inv (ck\<lparr>sToc := (sToc ck)[nat s := nextSendLocalId ck]\<rparr>)"
proof -
  show n: "note_server s ck = Inr (ck\<lparr>sToc := (sToc ck)[nat s := nextSendLocalId ck]\<rparr>)"
    using assms by (simp add: note_server_def go_set_def client_inv_def local_ids_def)
  from note_server_inv [OF assms(1,4,5)] n show "client_inv (ck\<lparr>sToc := (sToc ck)[nat s := nextSendLocalId ck]\<rparr>)"
    by (simp add: same_session_def)
  show "knows names (ck\<lparr>sToc := (sToc ck)[nat s := nextSendLocalId ck]\<rparr>)"
    unfolding knows_def
  proof (intro allI impI)
    fix k assume "k < length (sToc (ck\<lparr>sToc := (sToc ck)[nat s := nextSendLocalId ck]\<rparr>))"
    then show "sToc (ck\<lparr>sToc := (sToc ck)[nat s := nextSendLocalId ck]\<rparr>) ! k = -1 \<or>
        names (sToc (ck\<lparr>sToc := (sToc ck)[nat s := nextSendLocalId ck]\<rparr>) ! k) = int k"
      using assms(2-4) by (cases "k = nat s") (simp_all add: knows_def)
  qed
qed

text \<open>A refusal leads to the leader or one server on.\<close>

lemma follow_leader_closer:
  assumes "client_inv ck" "knows names ck" "nextSendLocalId ck \<noteq> lead" "0 \<le> lead" "lead < int (length (servers ck))"
    "l = -1 \<or> l = names lead" "0 \<le> names lead" "names lead < int (length (servers ck))"
    "\<And>i. 0 \<le> i \<Longrightarrow> i < int (length (servers ck)) \<Longrightarrow> names i = names lead \<Longrightarrow> i = lead"
  shows "\<exists>j. follow_leader l ck = Inr (ck\<lparr>nextSendLocalId := j\<rparr>) \<and> 0 \<le> j \<and> j < int (length (servers ck)) \<and>
    j \<noteq> nextSendLocalId ck \<and> (lead - j) mod int (length (servers ck)) < (lead - nextSendLocalId ck) mod int (length (servers ck))"
proof -
  let ?i = "nextSendLocalId ck" and ?n = "int (length (servers ck))"
  have i: "0 \<le> ?i" "?i < ?n" using assms(1) by (auto simp: client_inv_def)
  note m = mod_step [OF i assms(4,5,3)]
  have p: "0 < ?n" using i by linarith
  have b: "0 \<le> (?i + 1) mod ?n" "(?i + 1) mod ?n < ?n" using pos_mod_sign [OF p] pos_mod_bound [OF p] by blast+
  have rot: ?thesis if "follow_leader l ck = Inr (changeNextSendId ck)"
    using that m b by (intro exI [of _ "(?i + 1) mod ?n"]) (simp add: changeNextSendId_def)
  show ?thesis
  proof (cases "l = -1 \<or> sToc ck ! nat (names lead) = -1")
    case True
    then show ?thesis using assms(6-8,1)
      by (intro rot) (auto simp: follow_leader_def go_nth_def client_inv_def local_ids_def)
  next
    case False
    let ?j = "sToc ck ! nat (names lead)"
    have len: "nat (names lead) < length (sToc ck)" using assms by (simp add: client_inv_def local_ids_def nat_less_iff)
    then have "?j \<in> set (sToc ck)" by simp
    with False assms(1) have j: "0 \<le> ?j" "?j < ?n" by (auto simp: client_inv_def local_ids_def)
    from len False assms(2,7) have "names ?j = names lead" by (auto simp: knows_def)
    with j assms(9) have e: "?j = lead" by blast
    have "follow_leader l ck = Inr (ck\<lparr>nextSendLocalId := lead\<rparr>)"
      using False assms(1,6-8) e by (auto simp: follow_leader_def go_nth_def client_inv_def local_ids_def)
    with m(3) assms(3,4,5) show ?thesis by auto
  qed
qed

lemma stable_clusterD:
  assumes "stable_cluster n names lead env"
  shows "length (wtServers (env t)) = n" "\<forall>c \<in> set (wtServers (env t)). Valid c \<and> Conn c \<and> Realconn c"
    "\<exists>l. wtGrant (env t) i ms = Some l \<and> l \<noteq> 0" "0 \<le> lead" "lead < int n"
    "0 \<le> i \<Longrightarrow> i < int n \<Longrightarrow> 0 \<le> names i \<and> names i < int n"
    "0 \<le> i \<Longrightarrow> i < int n \<Longrightarrow> 0 \<le> j \<Longrightarrow> j < int n \<Longrightarrow> names i = names j \<Longrightarrow> i = j"
    "0 \<le> i \<Longrightarrow> i < int n \<Longrightarrow> \<exists>r. wtReply (env t) i a = Some r \<and> prServerId r = names i \<and>
       (if i = lead then prErr r = ErrOK else prErr r = ErrWrongLeader \<and> (prLeaderId r = -1 \<or> prLeaderId r = names lead))"
  using assms unfolding stable_cluster_def by blast+

text \<open>A turn in a stable cluster goes to the server the client has chosen, with the lease it needs.\<close>

lemma stable_turn:
  fixes t :: nat
  assumes "stable_cluster (length (servers ck)) names lead env" "client_inv ck" "knows names ck"
  defines "ck0 \<equiv> ck\<lparr>servers := wtServers (env t)\<rparr>"
  shows "client_inv ck0" "knows names ck0" "find_valid (length (servers ck0)) ck0 = Inr (True, ck0)"
    "Valid (servers ck0 ! nat (nextSendLocalId ck0))" "\<exists>a1. write_lease (env t) ttl args ck0 = Inr (Some a1)"
proof -
  let ?i = "nextSendLocalId ck"
  note cl = stable_clusterD [OF assms(1)]
  have i: "0 \<le> ?i" "?i < int (length (servers ck))" using assms(2) by (auto simp: client_inv_def)
  show inv: "client_inv ck0" using assms(2) cl(1,2) [of t] by (auto simp: ck0_def client_inv_def table_ok_def)
  show "knows names ck0" using assms(3) by (simp add: ck0_def knows_def)
  show v: "Valid (servers ck0 ! nat (nextSendLocalId ck0))" using cl(1,2) [of t] i by (simp add: ck0_def nat_less_iff)
  have g: "go_nth (servers ck0) ?i = Inr (servers ck0 ! nat ?i)" using i cl(1) [of t] by (simp add: ck0_def go_nth_def)
  obtain m where "length (servers ck0) = Suc m" using i cl(1) [of t] by (cases "length (servers ck)") (auto simp: ck0_def)
  then show "find_valid (length (servers ck0)) ck0 = Inr (True, ck0)" using g v by (simp add: ck0_def)
  obtain l where l: "wtGrant (env t) (nextSendLocalId ck0) (go_quot ttl Millisecond) = Some l" "l \<noteq> 0" using cl(3) by blast
  show "\<exists>a1. write_lease (env t) ttl args ck0 = Inr (Some a1)"
    using l conns_Inr(2) [OF inv v] by (simp add: write_lease_def)
qed

lemma write_loop_finds_leader:
  assumes "stable_cluster (length (servers ck)) names lead env" "client_inv ck" "knows names ck" "lastId \<noteq> nextSendLocalId ck"
    "nat ((lead - nextSendLocalId ck) mod int (length (servers ck))) < r"
  shows "\<exists>sent ck'. write_loop env ttl args r t lastId count ck = Inr (None, sent, ck') \<and> sent \<noteq> [] \<and>
    int (length sent) \<le> (lead - nextSendLocalId ck) mod int (length (servers ck)) + 1 \<and> fst (last sent) = lead \<and> knows names ck'"
  using assms
proof (induction r arbitrary: args t lastId count ck)
  case (Suc r)
  let ?n = "length (servers ck)" and ?i = "nextSendLocalId ck" and ?ck = "ck\<lparr>servers := wtServers (env t)\<rparr>"
  note cl = stable_clusterD [OF Suc.prems(1)]
  note st = stable_turn [OF Suc.prems(1-3), of t]
  have i: "0 \<le> ?i" "?i < int ?n" using Suc.prems(2) by (auto simp: client_inv_def)
  have len: "length (wtServers (env t)) = ?n" by (rule cl(1))
  obtain a1 where lease: "write_lease (env t) ttl args ?ck = Inr (Some a1)" using st(5) by blast
  obtain rep where rep: "wtReply (env t) ?i a1 = Some rep" "prServerId rep = names ?i"
    "if ?i = lead then prErr rep = ErrOK else prErr rep = ErrWrongLeader \<and> (prLeaderId rep = -1 \<or> prLeaderId rep = names lead)"
    using cl(8) [OF i] by blast
  have nm: "0 \<le> names ?i" "names ?i < int ?n" "0 \<le> names lead" "names lead < int ?n" using cl(4-6) i by blast+
  let ?ck3 = "?ck\<lparr>sToc := (sToc ck)[nat (names ?i) := ?i]\<rparr>"
  note nk = note_server_knows [OF st(1,2), of "names ?i"]
  have n3: "note_server (names ?i) ?ck = Inr ?ck3" "knows names ?ck3" "client_inv ?ck3" using nk nm len by simp_all
  have eq: "write_loop env ttl args (Suc r) t lastId count ck =
      res_bind (write_reply rep ?ck3) (\<lambda>(out, ck3). case out of Some res \<Rightarrow> Inr (res, [(?i, a1)], ck3)
        | None \<Rightarrow> res_bind (write_loop env ttl a1 r (Suc t) ?i count ck3) (\<lambda>(res, sent, ck4). Inr (res, (?i, a1) # sent, ck4)))"
    using Suc.prems(4) st(3) lease rep(1,2) n3(1) conns_Inr(1) [OF st(1,4)]
    by (simp add: rotate_stuck_def Let_def cong: option.case_cong)
  show ?case
  proof (cases "?i = lead")
    case True
    then show ?thesis using rep(3) n3(2) unfolding eq by (simp add: write_reply_def next_offset_def knows_def)
  next
    case False
    obtain j where j: "follow_leader (prLeaderId rep) ?ck3 = Inr (?ck3\<lparr>nextSendLocalId := j\<rparr>)" "0 \<le> j" "j < int ?n" "j \<noteq> ?i"
      "(lead - j) mod int ?n < (lead - ?i) mod int ?n"
      using follow_leader_closer [OF n3(3,2), of lead "prLeaderId rep"] False rep(3) nm cl(4,5) cl(7) [of _ lead] len by auto
    let ?ck4 = "?ck3\<lparr>nextSendLocalId := j\<rparr>"
    have k4: "client_inv ?ck4" "knows names ?ck4" using n3(2,3) j(2,3) len by (auto simp: client_inv_def knows_def)
    have "0 \<le> (lead - j) mod int ?n" using i by (intro pos_mod_sign) linarith
    then have "nat ((lead - j) mod int ?n) < r" using j(5) Suc.prems(5) by linarith
    with Suc.IH [of ?ck4 ?i a1 "Suc t" count] Suc.prems(1) k4 j(4) len obtain sent ck' where
      "write_loop env ttl a1 r (Suc t) ?i count ?ck4 = Inr (None, sent, ck')" "sent \<noteq> []"
      "int (length sent) \<le> (lead - j) mod int ?n + 1" "fst (last sent) = lead" "knows names ck'" by auto
    then show ?thesis using False rep(3) j(1,5) unfolding eq by (simp add: write_reply_def)
  qed
qed simp

lemma client_write_stable:
  assumes "stable_cluster (length (servers ck)) names lead env" "client_inv ck" "knows names ck"
  shows "\<exists>sent ck'. client_write env now key val ori ttl o' ck = Inr (None, sent, ck') \<and> sent \<noteq> [] \<and>
    length sent \<le> length (servers ck) \<and> fst (last sent) = lead \<and> knows names ck'"
proof -
  let ?n = "int (length (servers ck))"
  let ?d = "(lead - nextSendLocalId ck) mod ?n"
  have i: "0 \<le> nextSendLocalId ck" "nextSendLocalId ck < ?n" using assms(2) by (auto simp: client_inv_def)
  then have p: "0 < ?n" by linarith
  have d: "0 \<le> ?d" "?d < ?n" using pos_mod_sign [OF p] pos_mod_bound [OF p] by blast+
  then have r: "nat ?d < 2 * length (servers ck) * 3" "-1 \<noteq> nextSendLocalId ck" using i by linarith+
  obtain sent ck' where "client_write env now key val ori ttl o' ck = Inr (None, sent, ck')" "sent \<noteq> []"
    "int (length sent) \<le> ?d + 1" "fst (last sent) = lead" "knows names ck'"
    using write_loop_finds_leader [OF assms r(2,1)] unfolding client_write_def by blast
  moreover from this(3) d have "length sent \<le> length (servers ck)" by linarith
  ultimately show ?thesis by blast
qed

text \<open>
  C17: A client finds the leader. In a cluster with a stable leader, a client whose notes of who is who are right
  (those of \<^verbatim>\<open>MakeClerk\<close> are empty) gets its write acknowledged with at most one request to each server, the last of
  them to the leader, whether or not the other servers know the leader; its notes stay right.
\<close>

theorem write_finds_leader:
  assumes "stable_cluster (length (servers ck)) names lead env" "client_inv ck" "knows names ck"
  shows "\<exists>sent ck'. client_write env now key val ori ttl o' ck = Inr (None, sent, ck') \<and> sent \<noteq> [] \<and>
    length sent \<le> length (servers ck) \<and> fst (last sent) = lead \<and> knows names ck'"
  by (rule client_write_stable [OF assms])

theorem write_finds_leader_witness:
  "\<exists>sent ck'. client_write (\<lambda>t. demo_turn) 0 ''k'' ''v'' [] 0 PutT demo_ck = Inr (None, sent, ck') \<and>
     length sent \<le> 3 \<and> fst (last sent) = 2"
proof -
  have "stable_cluster 3 (\<lambda>i. i) 2 (\<lambda>t. demo_turn)"
    by (simp add: stable_cluster_def demo_turn_def up_conn_def)
  moreover have "client_inv demo_ck" "knows (\<lambda>i. i) demo_ck" "length (servers demo_ck) = 3"
    by (simp_all add: client_inv_def table_ok_def local_ids_def demo_ck_def no_conn_def knows_def)
  ultimately show ?thesis
    using write_finds_leader [of demo_ck "\<lambda>i. i" 2 "\<lambda>t. demo_turn" 0 "''k''" "''v''" "[]" 0 PutT] by auto
qed


subsection \<open>Reading keeps the notes\<close>

lemma knows_sToc: "sToc ck' = sToc ck \<Longrightarrow> knows names ck' = knows names ck"
  by (simp add: knows_def)

lemma sToc_kept:
  "sToc (changeNextSendId ck) = sToc ck"
  "rotate_stuck limit l c ck = (c', ck') \<Longrightarrow> sToc ck' = sToc ck"
  "find_valid n ck = Inr (found, ck') \<Longrightarrow> sToc ck' = sToc ck"
  "read_reply r ck = Inr (out, ck') \<Longrightarrow> sToc ck' = sToc ck"
proof -
  show c: "sToc (changeNextSendId ck) = sToc ck" for ck by (simp add: changeNextSendId_def)
  show "rotate_stuck limit l c ck = (c', ck') \<Longrightarrow> sToc ck' = sToc ck" by (auto simp: rotate_stuck_def c split: if_splits)
  show "find_valid n ck = Inr (found, ck') \<Longrightarrow> sToc ck' = sToc ck"
    by (induction n ck rule: find_valid.induct) (auto simp: res_bind_Inr_iff c split: if_splits)
  show "read_reply r ck = Inr (out, ck') \<Longrightarrow> sToc ck' = sToc ck"
    by (auto simp: read_reply_def follow_leader_def next_offset_def res_bind_Inr_iff c split: kv_err.splits if_splits)
qed

lemma note_server_names:
  assumes "knows names ck" "note_server (names (nextSendLocalId ck)) ck = Inr ck'"
  shows "knows names ck'"
  using assms by (auto simp: note_server_def go_set_def knows_def nth_list_update split: if_splits)

lemma read_loop_knows:
  assumes "knows names ck" "\<forall>t i a r. rtReply (env t) i a = Some r \<longrightarrow> grServerId r = names i"
    "read_loop env args r t lastId count ck = Inr (res, sent, ck')"
  shows "knows names ck'"
  using assms
proof (induction r arbitrary: t lastId count ck sent)
  case (Suc r)
  obtain count1 ck1 where 1: "rotate_stuck 3 lastId count (ck\<lparr>servers := rtServers (env t)\<rparr>) = (count1, ck1)" by fastforce
  from Suc.prems(3) 1 obtain found ck2 where 2: "find_valid (length (servers ck1)) ck1 = Inr (found, ck2)" by (auto simp: res_bind_Inr_iff)
  have k2: "knows names ck2" using Suc.prems(1) sToc_kept(2) [OF 1] sToc_kept(3) [OF 2] by (simp add: knows_def)
  show ?case
  proof (cases found)
    case False
    with Suc.prems(3) 1 2 have "read_loop env args r (Suc t) lastId count1 ck2 = Inr (res, sent, ck')" by simp
    with Suc.IH [OF k2] Suc.prems(2) show ?thesis by blast
  next
    case True
    let ?x = "case rtReply (env t) (nextSendLocalId ck2) args of None \<Rightarrow> Inr (None, changeNextSendId ck2)
      | Some reply \<Rightarrow> res_bind (note_server (grServerId reply) ck2) (read_reply reply)"
    from Suc.prems(3) 1 2 True obtain out ck3 where 3: "?x = Inr (out, ck3)" and
      go: "(case out of Some res' \<Rightarrow> Inr (res', [(nextSendLocalId ck2, args)], ck3)
        | None \<Rightarrow> res_bind (read_loop env args r (Suc t) (nextSendLocalId ck2) count1 ck3) (\<lambda>(res, sent, ck4).
            Inr (res, (nextSendLocalId ck2, args) # sent, ck4))) = Inr (res, sent, ck')"
      by (auto simp: res_bind_Inr_iff Let_def)
    have "knows names ck3"
    proof (cases "rtReply (env t) (nextSendLocalId ck2) args")
      case None
      with 3 k2 show ?thesis by (auto simp: knows_def sToc_kept)
    next
      case (Some reply)
      with 3 Suc.prems(2) obtain ck4 where "note_server (names (nextSendLocalId ck2)) ck2 = Inr ck4" "read_reply reply ck4 = Inr (out, ck3)"
        by (auto simp: res_bind_Inr_iff)
      with note_server_names [OF k2] sToc_kept(4) show ?thesis by (metis knows_sToc)
    qed
    with Suc.IH Suc.prems(2) go show ?thesis by (cases out) (auto simp: res_bind_Inr_iff)
  qed
qed simp

subsection \<open>Reads that are refused\<close>

lemma kv_Get_refuses:
  assumes "kv_Get D K args kv = Inr (r, kv')"
  shows "(grErr r = ErrWrongLeader \<or> grErr r = ErrWaitForRecover) \<and> grLeaderId r = GetleaderId (kv_rf kv) \<and> grServerId r = kv_me kv"
  using assms by (auto simp: kv_Get_def Let_def CheckIfDepose_def res_simps split: if_splits prod.splits)

lemma read_turn_refused:
  assumes "client_inv ck" "served_reads D K (length (servers ck)) env"
  shows "\<exists>ck'. (case rtReply (env t) i a of
      None \<Rightarrow> Inr (None, changeNextSendId ck)
    | Some reply \<Rightarrow> res_bind (note_server (grServerId reply) ck) (read_reply reply)) = Inr (None, ck') \<and> same_session ck ck'"
proof (cases "rtReply (env t) i a")
  case None
  then show ?thesis using assms(1) by (simp add: change_inv)
next
  case (Some reply)
  with assms(2) obtain kv kv' where k: "kv_Get D K a kv = Inr (reply, kv')" "0 \<le> kv_me kv" "kv_me kv < int (length (servers ck))"
    "-1 \<le> GetleaderId (kv_rf kv)" "GetleaderId (kv_rf kv) < int (length (servers ck))" unfolding served_reads_def by blast
  note r = kv_Get_refuses [OF k(1)]
  obtain ck1 where n: "note_server (kv_me kv) ck = Inr ck1" "same_session ck ck1"
    using note_server_inv [OF assms(1) k(2,3)] by auto
  then obtain ck2 where f: "follow_leader (GetleaderId (kv_rf kv)) ck1 = Inr ck2" "same_session ck1 ck2"
    using follow_leader_inv [of ck1] k(4,5) by (metis same_session_def)
  from r show ?thesis
    using Some n f same_session_trans [OF n(2) f(2)] by (auto simp: read_reply_def)
qed

lemma read_loop_fails:
  assumes "client_inv ck" "served_reads D K (length (servers ck)) env"
  shows "\<exists>sent ck'. read_loop env args r t lastId count ck = Inr (Inl ErrFaild, sent, ck') \<and> length sent \<le> r \<and> same_session ck ck'"
  using assms
proof (induction r arbitrary: t lastId count ck)
  case 0
  then show ?case by (simp add: same_session_refl)
next
  case (Suc r)
  have tbl: "table_ok (length (servers ck)) (rtServers (env t))" using Suc.prems(2) by (simp add: served_reads_def)
  obtain count1 ck1 found ck2 where
    h: "rotate_stuck 3 lastId count (ck\<lparr>servers := rtServers (env t)\<rparr>) = (count1, ck1)"
      "find_valid (length (servers ck1)) ck1 = Inr (found, ck2)" "same_session ck ck2"
      "found \<Longrightarrow> Valid (servers ck2 ! nat (nextSendLocalId ck2))"
    using turn_start [OF Suc.prems(1) tbl] by blast
  have IH: "\<exists>sent ck3. read_loop env args r t lastId count ck' = Inr (Inl ErrFaild, sent, ck3) \<and> length sent \<le> r \<and> same_session ck ck3"
    if s: "same_session ck ck'" for t lastId count ck'
    using Suc.IH [of ck' t lastId count] Suc.prems(2) s same_session_trans [OF s] by (fastforce simp: same_session_def)
  have inv2: "client_inv ck2" "length (servers ck2) = length (servers ck)" using h(3) by (simp_all add: same_session_def)
  show ?case
  proof (cases found)
    case False
    from IH [OF h(3), of "Suc t" lastId count1] h(1,2) False show ?thesis by auto
  next
    case True
    obtain ck3 where a: "(case rtReply (env t) (nextSendLocalId ck2) args of
        None \<Rightarrow> Inr (None, changeNextSendId ck2)
      | Some reply \<Rightarrow> res_bind (note_server (grServerId reply) ck2) (read_reply reply)) = Inr (None, ck3)" "same_session ck2 ck3"
      using read_turn_refused [OF inv2(1), of D K env t "nextSendLocalId ck2" args] Suc.prems(2) inv2(2) by auto
    obtain sent ck4 where "read_loop env args r (Suc t) (nextSendLocalId ck2) count1 ck3 = Inr (Inl ErrFaild, sent, ck4)"
      "length sent \<le> r" "same_session ck ck4" using IH [OF same_session_trans [OF h(3) a(2)]] by blast
    then show ?thesis using h(1,2) True a(1) conns_Inr [OF inv2(1) h(4) [OF True]] by (simp add: Let_def)
  qed
qed

lemma client_read_refused:
  assumes "client_inv ck" "served_reads D K (length (servers ck)) env"
  shows "\<exists>sent ck'. client_read env a ck = Inr (Inl ErrFaild, sent, ck') \<and> length sent \<le> 6 * length (servers ck) \<and> same_session ck ck'"
  using read_loop_fails [OF assms, of a "2 * length (servers ck) * 3" 0 "-1" 0] by (auto simp: client_read_def)

text \<open>
  C32: No read of the client succeeds: as long as the answers it gets are those of \<^verbatim>\<open>Get\<close> of the servers, in any
  states and whatever the network loses, \<^verbatim>\<open>Client.Get\<close> returns \<^verbatim>\<open>ErrFaild\<close> after at most \<open>6 n\<close> requests, without a
  panic, and the session stays as it was.
\<close>

theorem client_get_fails:
  assumes "client_inv ck" "served_reads D K (length (servers ck)) env"
  shows "\<exists>sent ck'. client_Get env key ck = Inr (Inl ErrFaild, sent, ck') \<and> length sent \<le> 6 * length (servers ck) \<and>
    client_inv ck' \<and> LatestOffset ck' = LatestOffset ck"
  using client_read_refused [OF assms, of "\<lparr>gaKey = key, gaClientId = clientId ck, gaLatestOffset = LatestOffset ck, gaWithPrefix = False,
    gaOp = GetT, gaPageSize = 0, gaPageIndex = 0\<rparr>"]
  by (auto simp: client_Get_def doGetValue_def same_session_def)

theorem client_get_fails_witness:
  "\<exists>sent ck'. client_Get (\<lambda>t. \<lparr>rtServers = replicate 3 up_conn, rtReply = (\<lambda>i a.
       case kv_Get (bolt_ops fm_bolt count_codec ''p'') demo_K a demo_kv of Inl p \<Rightarrow> None | Inr (r, kv') \<Rightarrow> Some r)\<rparr>) ''k'' demo_ck
     = Inr (Inl ErrFaild, sent, ck') \<and> length sent \<le> 18"
proof -
  let ?D = "bolt_ops fm_bolt count_codec ''p''"
  have "served_reads ?D demo_K 3 (\<lambda>t. \<lparr>rtServers = replicate 3 up_conn, rtReply = (\<lambda>i a.
       case kv_Get ?D demo_K a demo_kv of Inl p \<Rightarrow> None | Inr (r, kv') \<Rightarrow> Some r)\<rparr>)"
    unfolding served_reads_def by (auto simp: table_ok_def up_conn_def demo_kv_def zero_raft_def GetleaderId_def split: sum.splits)
  moreover have "client_inv demo_ck" "length (servers demo_ck) = 3"
    by (simp_all add: client_inv_def table_ok_def local_ids_def demo_ck_def no_conn_def)
  ultimately show ?thesis using client_get_fails [of demo_ck ?D demo_K] by fastforce
qed

lemma HandleApplychCommand_dup:
  assumes "HandleApplychCommand D K m kv = Inr (evs, kv')" "Command m = op_Marshal (opC (raftC K)) o'" "codec_ok (opC (raftC K))"
    "OpType o' \<noteq> EmptyT" "sint (dOffset (dup_of kv (ClientId o'))) < sint (Offset o')"
  shows "dOffset (dup_of kv' (ClientId o')) = Offset o'"
proof -
  let ?kv = "kv\<lparr>duplicateMap := fmupd (ClientId o') \<lparr>dOffset = Offset o', CASResult = False\<rparr> (duplicateMap kv)\<rparr>"
  have "apply_op D K o' ?kv = Inr (evs, kv')" using assms by (simp add: HandleApplychCommand_def)
  from apply_op_dup [OF this] show ?thesis by (auto simp: dup_of_def)
qed

subsection \<open>A write after a failed one\<close>

lemma PutAppend_again:
  assumes "state (kv_rf kv) = Leader" "paLatestOffset a = dOffset (dup_of kv (paClientId a))" "paOp a \<noteq> CAST"
  shows "PutAppend K a later kv = Inr (\<lparr>prErr = ErrOK, prLeaderId = GetleaderId (kv_rf kv), prServerId = kv_me kv\<rparr>, kv)"
  using assms by (simp add: PutAppend_def put_begin_def GetState_def put_duplicate_def Let_def)

lemma write_first_turn:
  assumes "client_inv ck" "served_by K later kv (nextSendLocalId ck) (env 0)" "ttl \<le> 0"
    "PutAppend K a later kv = Inr (\<lparr>prErr = ErrOK, prLeaderId = l, prServerId = s\<rparr>, kv')" "0 \<le> s" "s < int (length (servers ck))"
  shows "\<exists>ck'. write_loop env ttl a (2 * length (servers ck) * 3) 0 (-1) 0 ck = Inr (None, [(nextSendLocalId ck, a)], ck')"
proof -
  let ?i = "nextSendLocalId ck" and ?ck = "ck\<lparr>servers := wtServers (env 0)\<rparr>"
  obtain r where r: "2 * length (servers ck) * 3 = Suc r" using client_inv_pos [OF assms(1)] by (cases "2 * length (servers ck) * 3") auto
  obtain m where m: "length (wtServers (env 0)) = Suc m" using assms(2) by (cases "wtServers (env 0)") (auto simp: served_by_def)
  have g: "go_nth (wtServers (env 0)) ?i = Inr (wtServers (env 0) ! nat ?i)" "Valid (wtServers (env 0) ! nat ?i)" "Conn (wtServers (env 0) ! nat ?i)"
    using assms(2) by (simp_all add: served_by_def go_nth_def)
  have s: "rotate_stuck 5 (-1) 0 ?ck = (0, ?ck)" "note_server s ?ck = Inr (?ck\<lparr>sToc := (sToc ck)[nat s := ?i]\<rparr>)"
    using assms(1,5,6) by (auto simp: rotate_stuck_def client_inv_def note_server_def go_set_def local_ids_def)
  have w: "wtReply (env 0) ?i a = Some \<lparr>prErr = ErrOK, prLeaderId = l, prServerId = s\<rparr>" using assms(2,4) by (simp add: served_by_def)
  have f: "find_valid (length (wtServers (env 0))) ?ck = Inr (True, ?ck)" using g m by simp
  have lc: "write_lease (env 0) ttl a ?ck = Inr (Some a)" "the_conn ?ck = Inr (wtServers (env 0) ! nat ?i)"
    using assms(3) g by (simp_all add: write_lease_def the_conn_def)
  show ?thesis unfolding r using s w f lc by (simp add: Let_def write_reply_def)
qed

text \<open>
  C31: A write after one that failed is lost. \<^verbatim>\<open>write\<close> returns \<^verbatim>\<open>ErrFaild\<close> without taking a new request number, although
  a server may have applied the request. Then the next write, whatever its key, value and operation (a compare-and-swap
  apart), carries the number of the applied request: a leader that has applied it answers \<^verbatim>\<open>ErrOK\<close> at once without
  starting anything, and the client reports success.
\<close>

theorem write_after_failure_lost:
  assumes "client_inv ck1" "write_env (length (servers ck1)) env1"
    "client_write env1 now1 key1 val1 ori1 ttl1 o1 ck1 = Inr (Some ErrFaild, sent, ck)" "(i, a) \<in> set sent"
    "HandleApplychCommand D K m kv0 = Inr (evs, kv)" "Command m = op_Marshal (opC (raftC K)) (put_op a)" "codec_ok (opC (raftC K))"
    "o1 \<noteq> EmptyT" "sint (dOffset (dup_of kv0 (clientId ck1))) < sint (LatestOffset ck1)"
    "state (kv_rf kv) = Leader" "0 \<le> kv_me kv" "kv_me kv < int (length (servers ck))"
    "served_by K later kv (nextSendLocalId ck) (env 0)" "o2 \<noteq> CAST"
  shows "\<exists>r ck2. client_write env now key val ori 0 o2 ck = Inr (None, [(nextSendLocalId ck, write_args now key val ori 0 o2 ck)], ck2) \<and>
    PutAppend K (write_args now key val ori 0 o2 ck) later kv = Inr (r, kv) \<and> prErr r = ErrOK"
proof -
  let ?a2 = "write_args now key val ori 0 o2 ck"
  from client_write_ran [OF assms(1,2), of ttl1 now1 key1 val1 ori1 o1] obtain l where w: "client_inv ck" "clientId ck = clientId ck1" "LatestOffset ck = LatestOffset ck1"
    "\<forall>(i, b) \<in> set sent. b = (write_args now1 key1 val1 ori1 ttl1 o1 ck1)\<lparr>paLeaseId := l\<rparr>"
    unfolding assms(3) write_ran_def by auto
  from w(4) assms(4) have a: "a = (write_args now1 key1 val1 ori1 ttl1 o1 ck1)\<lparr>paLeaseId := l\<rparr>" by blast
  have "dOffset (dup_of kv (ClientId (put_op a))) = Offset (put_op a)"
    by (rule HandleApplychCommand_dup [OF assms(5-7)]) (use assms(8,9) in \<open>simp_all add: a put_op_def write_args_def\<close>)
  then have d: "paLatestOffset ?a2 = dOffset (dup_of kv (paClientId ?a2))" "paOp ?a2 \<noteq> CAST"
    using w(2,3) assms(14) by (simp_all add: a put_op_def write_args_def)
  note p = PutAppend_again [OF assms(10) d, of K later]
  have "\<exists>ck2. client_write env now key val ori 0 o2 ck = Inr (None, [(nextSendLocalId ck, ?a2)], ck2)"
    unfolding client_write_def by (rule write_first_turn [where env = env, OF w(1) assms(13) _ p assms(11,12)]) simp
  with p show ?thesis by auto
qed

theorem write_after_failure_lost_witness:
  "\<exists>kv r ck2. kv_abs (db_map sorted_list_of_fmap (pin_codec [OpEntry (put_op demo_put)])) kv
      = spec_apply (batchC demo_K) (put_op demo_put) (kv_abs (db_map sorted_list_of_fmap (pin_codec [OpEntry (put_op demo_put)])) demo_kv) \<and>
    client_write (\<lambda>t. \<lparr>wtServers = [up_conn], wtGrant = (\<lambda>i ms. None),
      wtReply = (\<lambda>i a. case PutAppend demo_K a [] kv of Inl p \<Rightarrow> None | Inr (r, kv') \<Rightarrow> Some r)\<rparr>) 0 ''other'' ''w'' [] 0 PutT demo_ck1
      = Inr (None, [(0, write_args 0 ''other'' ''w'' [] 0 PutT demo_ck1)], ck2) \<and>
    PutAppend demo_K (write_args 0 ''other'' ''w'' [] 0 PutT demo_ck1) [] kv = Inr (r, kv)"
proof -
  let ?G = "pin_codec [OpEntry (put_op demo_put)]"
  let ?D = "bolt_ops fm_bolt ?G ''p''" and ?v = "db_map sorted_list_of_fmap ?G"
  obtain evs kv where h: "HandleApplychCommand ?D demo_K (demo_msg (put_op demo_put)) demo_kv = Inr (evs, kv)"
    "kv_abs ?v kv = spec_apply (batchC demo_K) (put_op demo_put) (kv_abs ?v demo_kv)" "data_only demo_kv kv"
    using bdb.command_refines [OF demo_put_hyps, of "''p''"] by blast
  let ?env = "\<lambda>t::nat. \<lparr>wtServers = [up_conn], wtGrant = (\<lambda>i ms. None),
      wtReply = (\<lambda>i a. case PutAppend demo_K a [] kv of Inl p \<Rightarrow> None | Inr (r, kv') \<Rightarrow> Some r)\<rparr>"
  have inv: "client_inv demo_ck1" "write_env (length (servers demo_ck1)) (\<lambda>t. lost_turn)"
    by (simp_all add: client_inv_def table_ok_def local_ids_def demo_ck1_def up_conn_def write_env_def lost_turn_def)
  have first: "client_write (\<lambda>t. lost_turn) 0 ''k'' ''v'' [] 0 PutT demo_ck1
      = Inr (Some ErrFaild, replicate 6 (0, demo_put), demo_ck1)"
    by (simp add: client_write_def demo_ck1_def lost_turn_def up_conn_def write_args_def demo_put_def eval_nat_numeral
        rotate_stuck_def changeNextSendId_def go_nth_def write_lease_def the_conn_def Let_def)
  have "served_by demo_K [] kv (nextSendLocalId demo_ck1) (?env 0)"
    by (simp add: served_by_def up_conn_def demo_ck1_def)
  moreover have "state (kv_rf kv) = Leader" "kv_me kv = 0" using h(3) by (simp_all add: data_only_def demo_kv_def)
  moreover have "codec_ok (opC (raftC demo_K))" "Command (demo_msg (put_op demo_put)) = op_Marshal (opC (raftC demo_K)) (put_op demo_put)"
    by (simp_all add: demo_K_def demo_msg_def count_codecs_def)
  ultimately show ?thesis
    using write_after_failure_lost [where env = ?env and later = "[]" and i = 0 and a = demo_put and ?o2.0 = PutT and
        now = 0 and key = "''other''" and val = "''w''" and ori = "[]", OF inv first _ h(1)] h(2)
    by (auto simp: dup_of_def demo_kv_def demo_ck1_def)
qed

end
