(* ===== verification/Discovery.thy ===== *)
theory Discovery
  imports Client
begin

text \<open>
  Service registration and discovery, \<^verbatim>\<open>src/client/naming.go\<close> and \<^verbatim>\<open>src/client/service_discovery.go\<close>, over the
  interface \<^verbatim>\<open>KVStore\<close> of \<^verbatim>\<open>src/client/interface.go\<close>: a record of the operations these files call. What they rely
  on is the locale \<open>registry_store\<close>; it is interpreted on the storage and the lease manager of a server.
  JSON is a pair of codecs.
\<close>

section \<open>Definitions\<close>

subsection \<open>The interface\<close>

text \<open>
  The operations of \<^verbatim>\<open>KVStore\<close>, on a state that stands for the store behind them.
  \<^verbatim>\<open>AutoKeepAlive\<close> returns the function that ends it; its ticker panics on an interval that is not positive.
\<close>

record 's kvstore =
  ks_Put :: "'s \<Rightarrow> string \<Rightarrow> bytes \<Rightarrow> int \<Rightarrow> client_error option \<times> 's"
  ks_Get :: "'s \<Rightarrow> string \<Rightarrow> (client_error + bytes) \<times> 's"
  ks_Append :: "'s \<Rightarrow> string \<Rightarrow> bytes \<Rightarrow> int \<Rightarrow> client_error option \<times> 's"
  ks_Delete :: "'s \<Rightarrow> string \<Rightarrow> client_error option \<times> 's"
  ks_DeleteWithPrefix :: "'s \<Rightarrow> string \<Rightarrow> client_error option \<times> 's"
  ks_CAS :: "'s \<Rightarrow> string \<Rightarrow> bytes \<Rightarrow> bytes \<Rightarrow> int \<Rightarrow> (client_error + bool) \<times> 's"
  ks_GetWithPrefix :: "'s \<Rightarrow> string \<Rightarrow> (client_error + bytes list) \<times> 's"
  ks_LeaseGrant :: "'s \<Rightarrow> int \<Rightarrow> (client_error + int) \<times> 's"
  ks_LeaseRevoke :: "'s \<Rightarrow> int \<Rightarrow> client_error option \<times> 's"
  ks_LeaseTimeToLive :: "'s \<Rightarrow> int \<Rightarrow> bool \<Rightarrow> (client_error + int \<times> string list) \<times> 's"
  ks_AutoKeepAlive :: "'s \<Rightarrow> int \<Rightarrow> int \<Rightarrow> (('s \<Rightarrow> 's) \<times> 's) res"

text \<open>The errors these files wrap with \<^verbatim>\<open>fmt.Errorf\<close>.\<close>

datatype registry_error = GrantFailed client_error | RegisterFailed client_error | ServiceNotFound client_error
  | BadServiceInfo | DeregisterFailed client_error | GetFailed client_error | NoInstances string | StoreFailed client_error

subsection \<open>Nodes\<close>

record Node =
  ndName :: string
  ndAppId :: string
  ndPort :: string
  ndIPs :: "string list"
  ndLocation :: string
  ndConnect :: "32 word"
  ndWeight :: "32 word"
  ndEnv :: string
  ndMetaDate :: "(string, string) fmap"

definition node_Marshal :: "Node codec \<Rightarrow> Node \<Rightarrow> bytes" where
  "node_Marshal J n = enc J n"

definition node_Unmarshal :: "Node codec \<Rightarrow> bytes \<Rightarrow> Node res" where
  "node_Unmarshal J data = (case dec J data of None \<Rightarrow> Inl LoggerFatal | Some n \<Rightarrow> Inr n)"

definition node_Key :: "Node \<Rightarrow> string" where
  "node_Key n = ''/'' @ ndEnv n @ ''/'' @ ndAppId n @ ''/'' @ ndName n @ '':'' @ ndPort n"

definition SetNode :: "'s kvstore \<Rightarrow> Node codec \<Rightarrow> Node \<Rightarrow> int \<Rightarrow> 's \<Rightarrow> registry_error option \<times> 's" where
  "SetNode S J n ttl s =
     (let (err, s1) = ks_Put S s (node_Key n) (node_Marshal J n) ttl in (map_option RegisterFailed err, s1))"

text \<open>The function \<^verbatim>\<open>SetNodeWithLease\<close> returns: end the keep-alive, then revoke the lease.\<close>

definition end_registration :: "'s kvstore \<Rightarrow> int \<Rightarrow> ('s \<Rightarrow> 's) \<Rightarrow> 's \<Rightarrow> 's" where
  "end_registration S leaseID cancel s = snd (ks_LeaseRevoke S (cancel s) leaseID)"

definition SetNodeWithLease ::
  "'s kvstore \<Rightarrow> Node codec \<Rightarrow> Node \<Rightarrow> int \<Rightarrow> 's \<Rightarrow> ((registry_error + int \<times> ('s \<Rightarrow> 's)) \<times> 's) res" where
  "SetNodeWithLease S J n ttl s =
     (case ks_LeaseGrant S s ttl of
        (Inl e, s1) \<Rightarrow> Inr (Inl (GrantFailed e), s1)
      | (Inr leaseID, s1) \<Rightarrow>
          (case ks_Put S s1 (node_Key n) (node_Marshal J n) 0 of
             (Some e, s2) \<Rightarrow> Inr (Inl (RegisterFailed e), snd (ks_LeaseRevoke S s2 leaseID))
           | (None, s2) \<Rightarrow>
               res_bind (ks_AutoKeepAlive S s2 leaseID (go_quot ttl 3)) (\<lambda>(cancel, s3).
                 Inr (Inr (leaseID, end_registration S leaseID cancel), s3))))"

definition SetNodeWithLeaseID :: "'s kvstore \<Rightarrow> Node codec \<Rightarrow> Node \<Rightarrow> int \<Rightarrow> 's \<Rightarrow> registry_error option \<times> 's" where
  "SetNodeWithLeaseID S J n leaseID s =
     (let (err, s1) = ks_Put S s (node_Key n) (node_Marshal J n) 0 in (map_option RegisterFailed err, s1))"

definition node_prefix :: "string \<Rightarrow> string \<Rightarrow> string" where
  "node_prefix env appName = ''/'' @ env @ ''/'' @ appName @ ''/''"

text \<open>The loop of \<^verbatim>\<open>GetNode\<close> keeps the values that decode.\<close>

definition GetNode :: "'s kvstore \<Rightarrow> Node codec \<Rightarrow> string \<Rightarrow> string \<Rightarrow> 's \<Rightarrow> (registry_error + Node list) \<times> 's" where
  "GetNode S J appName env s =
     (case ks_GetWithPrefix S s (node_prefix env appName) of
        (Inl e, s1) \<Rightarrow> (Inl (StoreFailed e), s1)
      | (Inr datas, s1) \<Rightarrow> (Inr (List.map_filter (dec J) datas), s1))"

record NodeWithLease =
  nlNode :: Node
  nlLeaseID :: int
  nlTTL :: int

definition GetNodeWithLease where
  "GetNodeWithLease S J appName env s =
     (case GetNode S J appName env s of
        (Inl e, s1) \<Rightarrow> (Inl e, s1)
      | (Inr nodes, s1) \<Rightarrow> (Inr (map (\<lambda>n. \<lparr>nlNode = n, nlLeaseID = 0, nlTTL = 0\<rparr>) nodes), s1))"

subsection \<open>ServiceRegistry and ServiceDiscovery\<close>

text \<open>Both hold a \<^verbatim>\<open>KVStore\<close> and nothing else; it is the argument \<open>S\<close> with its state.\<close>

definition registry_node :: "string \<Rightarrow> string \<Rightarrow> string \<Rightarrow> (string, string) fmap \<Rightarrow> Node" where
  "registry_node serviceName serviceID endpoint metadata =
     \<lparr>ndName = serviceID, ndAppId = serviceName, ndPort = endpoint, ndIPs = [''localhost''], ndLocation = ''default'',
      ndConnect = 0, ndWeight = 1, ndEnv = ''default'', ndMetaDate = metadata\<rparr>"

definition registry_Register where
  "registry_Register S J serviceName serviceID endpoint ttl metadata s =
     SetNodeWithLease S J (registry_node serviceName serviceID endpoint metadata) ttl s"

definition registry_Deregister :: "'s kvstore \<Rightarrow> string \<Rightarrow> string \<Rightarrow> 's \<Rightarrow> registry_error option \<times> 's" where
  "registry_Deregister S serviceName serviceID s =
     (let key = ''/default/'' @ serviceName @ ''/'' @ serviceID in
      case ks_Get S s key of
        (Inl e, s1) \<Rightarrow> (Some (ServiceNotFound e), s1)
      | (Inr _, s1) \<Rightarrow> let (err, s2) = ks_Put S s1 key [] 0 in (map_option DeregisterFailed err, s2))"

definition GetService where "GetService S J serviceName s = GetNode S J serviceName ''default'' s"

definition Discover where "Discover S J serviceName s = GetNode S J serviceName ''default'' s"

text \<open>\<^verbatim>\<open>Watch\<close> of both discoverers: the request they hand to the \<^verbatim>\<open>Watcher\<close>.\<close>

definition discovery_Watch :: "string \<Rightarrow> watch_req" where
  "discovery_Watch serviceName = client_Watch (node_prefix ''default'' serviceName) [WithPrefix]"

subsection \<open>ServiceRegistryV3\<close>

record ServiceInfo =
  svcID :: string
  svcName :: string
  svcEndpoint :: string
  svcVersion :: string
  svcMetadata :: "(string, string) fmap"
  svcTTL :: int
  svcLeaseID :: int

definition service_key :: "string \<Rightarrow> string \<Rightarrow> string" where
  "service_key serviceName serviceID = ''/services/'' @ serviceName @ ''/'' @ serviceID"

definition service_prefix :: "string \<Rightarrow> string" where
  "service_prefix serviceName = ''/services/'' @ serviceName @ ''/''"

text \<open>\<^verbatim>\<open>metadata["version"]\<close> of a missing key is the empty string.\<close>

definition service_info :: "string \<Rightarrow> string \<Rightarrow> string \<Rightarrow> (string, string) fmap \<Rightarrow> int \<Rightarrow> int \<Rightarrow> ServiceInfo" where
  "service_info serviceName serviceID endpoint metadata ttlMs leaseID =
     \<lparr>svcID = serviceID, svcName = serviceName, svcEndpoint = endpoint,
      svcVersion = (case fmlookup metadata ''version'' of None \<Rightarrow> [] | Some v \<Rightarrow> v), svcMetadata = metadata,
      svcTTL = ttlMs, svcLeaseID = leaseID\<rparr>"

definition v3_Register ::
  "'s kvstore \<Rightarrow> ServiceInfo codec \<Rightarrow> string \<Rightarrow> string \<Rightarrow> string \<Rightarrow> int \<Rightarrow> (string, string) fmap \<Rightarrow> 's \<Rightarrow>
   (registry_error + int) \<times> 's" where
  "v3_Register S J serviceName serviceID endpoint ttl metadata s =
     (case ks_LeaseGrant S s ttl of
        (Inl e, s1) \<Rightarrow> (Inl (GrantFailed e), s1)
      | (Inr leaseID, s1) \<Rightarrow>
          let info = service_info serviceName serviceID endpoint metadata (go_quot ttl Millisecond) leaseID in
          (case ks_Put S s1 (service_key serviceName serviceID) (enc J info) 0 of
             (Some e, s2) \<Rightarrow> (Inl (RegisterFailed e), snd (ks_LeaseRevoke S s2 leaseID))
           | (None, s2) \<Rightarrow> (Inr leaseID, s2)))"

definition v3_RegisterWithLease ::
  "'s kvstore \<Rightarrow> ServiceInfo codec \<Rightarrow> string \<Rightarrow> string \<Rightarrow> string \<Rightarrow> int \<Rightarrow> (string, string) fmap \<Rightarrow> 's \<Rightarrow>
   client_error option \<times> 's" where
  "v3_RegisterWithLease S J serviceName serviceID endpoint leaseID metadata s =
     ks_Put S s (service_key serviceName serviceID) (enc J (service_info serviceName serviceID endpoint metadata 0 leaseID)) 0"

definition v3_Deregister ::
  "'s kvstore \<Rightarrow> ServiceInfo codec \<Rightarrow> string \<Rightarrow> string \<Rightarrow> 's \<Rightarrow> registry_error option \<times> 's" where
  "v3_Deregister S J serviceName serviceID s =
     (let key = service_key serviceName serviceID in
      case ks_Get S s key of
        (Inl e, s1) \<Rightarrow> (Some (ServiceNotFound e), s1)
      | (Inr data, s1) \<Rightarrow>
          (case dec J data of
             None \<Rightarrow> (Some BadServiceInfo, s1)
           | Some info \<Rightarrow>
               (case ks_Put S s1 key [] 0 of
                  (Some e, s2) \<Rightarrow> (Some (DeregisterFailed e), s2)
                | (None, s2) \<Rightarrow> (None, if svcLeaseID info > 0 then snd (ks_LeaseRevoke S s2 (svcLeaseID info)) else s2))))"

definition v3_KeepAlive :: "'s kvstore \<Rightarrow> int \<Rightarrow> 's \<Rightarrow> (registry_error option \<times> 's) res" where
  "v3_KeepAlive S leaseID s =
     res_bind (ks_AutoKeepAlive S s leaseID (30 * Second)) (\<lambda>(_, s1). Inr (None, s1))"

subsection \<open>ServiceDiscoveryV3 and LoadBalancer\<close>

text \<open>The loop of \<^verbatim>\<open>Get\<close>: values that are empty or do not decode are skipped, the time to live is brought up to date.\<close>

fun v3_infos :: "'s kvstore \<Rightarrow> ServiceInfo codec \<Rightarrow> bytes list \<Rightarrow> 's \<Rightarrow> ServiceInfo list \<times> 's" where
  "v3_infos S J [] s = ([], s)"
| "v3_infos S J (data # datas) s =
     (if data = [] then v3_infos S J datas s
      else case dec J data of
        None \<Rightarrow> v3_infos S J datas s
      | Some info \<Rightarrow>
          let (info1, s1) =
                (if svcLeaseID info > 0 then
                   (case ks_LeaseTimeToLive S s (svcLeaseID info) False of
                      (Inr (ttl, _), s1) \<Rightarrow> (info\<lparr>svcTTL := ttl\<rparr>, s1)
                    | (Inl _, s1) \<Rightarrow> (info, s1))
                 else (info, s));
              (rest, s2) = v3_infos S J datas s1
          in (info1 # rest, s2))"

definition v3_Get :: "'s kvstore \<Rightarrow> ServiceInfo codec \<Rightarrow> string \<Rightarrow> 's \<Rightarrow> (registry_error + ServiceInfo list) \<times> 's" where
  "v3_Get S J serviceName s =
     (case ks_GetWithPrefix S s (service_prefix serviceName) of
        (Inl e, s1) \<Rightarrow> (Inl (GetFailed e), s1)
      | (Inr datas, s1) \<Rightarrow> let (infos, s2) = v3_infos S J datas s1 in (Inr infos, s2))"

definition v3_Watch :: "string \<Rightarrow> watch_req" where
  "v3_Watch serviceName = client_Watch (service_prefix serviceName) [WithPrefix]"

definition v3_WatchPrefix :: "string \<Rightarrow> watch_req" where
  "v3_WatchPrefix p = client_Watch p [WithPrefix]"

fun health_loop :: "'s kvstore \<Rightarrow> ServiceInfo list \<Rightarrow> (string, bool) fmap \<Rightarrow> 's \<Rightarrow> (string, bool) fmap \<times> 's" where
  "health_loop S [] health s = (health, s)"
| "health_loop S (service # services) health s =
     (if svcLeaseID service > 0 then
        (case ks_LeaseTimeToLive S s (svcLeaseID service) False of
           (r, s1) \<Rightarrow> health_loop S services
             (fmupd (svcID service) (case r of Inl _ \<Rightarrow> False | Inr (ttl, _) \<Rightarrow> ttl > 0) health) s1)
      else health_loop S services (fmupd (svcID service) False health) s)"

definition v3_HealthCheck ::
  "'s kvstore \<Rightarrow> ServiceInfo codec \<Rightarrow> string \<Rightarrow> 's \<Rightarrow> (registry_error + (string, bool) fmap) \<times> 's" where
  "v3_HealthCheck S J serviceName s =
     (case v3_Get S J serviceName s of
        (Inl e, s1) \<Rightarrow> (Inl e, s1)
      | (Inr services, s1) \<Rightarrow> let (health, s2) = health_loop S services fmempty s1 in (Inr health, s2))"

text \<open>\<^verbatim>\<open>time.Now().UnixNano() % len\<close>, with the sign of the dividend.\<close>

definition go_rem :: "int \<Rightarrow> int \<Rightarrow> int" where
  "go_rem a b = a - b * go_quot a b"

definition GetInstance ::
  "'s kvstore \<Rightarrow> ServiceInfo codec \<Rightarrow> int \<Rightarrow> string \<Rightarrow> 's \<Rightarrow> ((registry_error + ServiceInfo) \<times> 's) res" where
  "GetInstance S J now serviceName s =
     (case v3_Get S J serviceName s of
        (Inl e, s1) \<Rightarrow> Inr (Inl e, s1)
      | (Inr services, s1) \<Rightarrow>
          if services = [] then Inr (Inl (NoInstances serviceName), s1)
          else res_bind (go_nth services (go_rem now (int (length services)))) (\<lambda>i. Inr (Inr i, s1)))"

definition GetAllInstances where "GetAllInstances S J serviceName s = v3_Get S J serviceName s"

subsection \<open>The store of a server as a provider\<close>

text \<open>
  The operations on the storage and the lease manager of one server, at the time \<open>now\<close>: what the interface
  means when the request is applied and answered there.
\<close>

definition deadline_of :: "int \<Rightarrow> int \<Rightarrow> int" where
  "deadline_of now ttl = (if ttl = 0 then 0 else dead_time now ttl)"

definition server_store :: "'d db_ops \<Rightarrow> int \<Rightarrow> ('d \<times> lease_mgr) kvstore" where
  "server_store D now =
     \<lparr>ks_Put = (\<lambda>(d, lm) k v ttl.
        let (err, d') = op_PutEntry D d k \<lparr>Value = v, DeadTime = deadline_of now ttl\<rparr>
        in (map_option (\<lambda>_. RpcError) err, (d', lm))),
      ks_Get = (\<lambda>(d, lm) k. (case op_GetEntry D d k of Inl _ \<Rightarrow> Inl ErrNil | Inr e \<Rightarrow> Inr (Value e), (d, lm))),
      ks_Append = (\<lambda>(d, lm) k v ttl.
        let (err, d') = op_PutEntry D d k \<lparr>Value = Value (entry_or_zero (op_GetEntry D d k)) @ v, DeadTime = deadline_of now ttl\<rparr>
        in (map_option (\<lambda>_. RpcError) err, (d', lm))),
      ks_Delete = (\<lambda>(d, lm) k. let (err, d') = op_Del D d k in (map_option (\<lambda>_. RpcError) err, (d', lm))),
      ks_DeleteWithPrefix = (\<lambda>(d, lm) p.
        case op_DelWithPrefix D d p of
          None \<Rightarrow> (Some RpcError, (d, lm)) | Some (err, d') \<Rightarrow> (map_option (\<lambda>_. RpcError) err, (d', lm))),
      ks_CAS = (\<lambda>(d, lm) k origin dest ttl.
        if Value (entry_or_zero (op_GetEntry D d k)) \<noteq> origin then (Inr False, (d, lm))
        else let (err, d') = (if dest = [] then op_Del D d k else op_PutEntry D d k \<lparr>Value = dest, DeadTime = deadline_of now ttl\<rparr>)
          in (case err of None \<Rightarrow> Inr True | Some _ \<Rightarrow> Inl RpcError, (d', lm))),
      ks_GetWithPrefix = (\<lambda>(d, lm) p.
        (case op_GetPairsWithPrefix D d p of
           Some (Inr ps) \<Rightarrow> if ps = [] then Inl ErrNil else Inr (map (\<lambda>q. Value (PairEntry q)) ps)
         | _ \<Rightarrow> Inl RpcError, (d, lm))),
      ks_LeaseGrant = (\<lambda>(d, lm) ttl.
        case LeaseGrant now (go_quot ttl Millisecond) lm of
          Inl _ \<Rightarrow> (Inl RpcError, (d, lm)) | Inr (r, lm') \<Rightarrow> (Inr (lrID r), (d, lm'))),
      ks_LeaseRevoke = (\<lambda>(d, lm) i. case Revoke i lm of Inl _ \<Rightarrow> (Some RpcError, (d, lm)) | Inr lm' \<Rightarrow> (None, (d, lm'))),
      ks_LeaseTimeToLive = (\<lambda>(d, lm) i w.
        (case LeaseTimeToLive now i w lm of Inl _ \<Rightarrow> Inl RpcError | Inr r \<Rightarrow> Inr (lrTTLMs r, lrKeys r), (d, lm))),
      ks_AutoKeepAlive = (\<lambda>s i interval. res_bind (AutoKeepAlive interval) (\<lambda>_. Inr (id, s)))\<rparr>"

subsection \<open>Notions the lemmas use\<close>

text \<open>The service a stored value stands for, the invariant of the keys under \<^verbatim>\<open>/services/\<close>, and the instances of a service.\<close>

definition live :: "ServiceInfo codec \<Rightarrow> bytes \<Rightarrow> ServiceInfo option" where
  "live J data = (if data = [] then None else dec J data)"

definition registry_inv :: "ServiceInfo codec \<Rightarrow> (string \<Rightarrow> bytes option) \<Rightarrow> bool" where
  "registry_inv J m \<longleftrightarrow> (\<forall>k v info. m k = Some v \<longrightarrow> prefix ''/services/'' k \<longrightarrow> live J v = Some info \<longrightarrow>
     k = service_key (svcName info) (svcID info) \<and> CHR ''/'' \<notin> set (svcName info))"

definition instances :: "ServiceInfo codec \<Rightarrow> (string \<Rightarrow> bytes option) \<Rightarrow> string \<Rightarrow> string set" where
  "instances J m n = {i. \<exists>v. m (service_key n i) = Some v \<and> live J v \<noteq> None}"

text \<open>What a discovered service is, apart from the time to live, which is the lease's.\<close>

definition identity :: "ServiceInfo \<Rightarrow> string \<times> string \<times> string \<times> int" where
  "identity x = (svcName x, svcID x, svcEndpoint x, svcLeaseID x)"

text \<open>The values of a storage, and a server whose lease manager works.\<close>

definition stored_values :: "(string \<Rightarrow> entry option) \<Rightarrow> string \<Rightarrow> bytes option" where
  "stored_values m k = map_option Value (m k)"

text \<open>A new database, and JSON for one value: what the examples use.\<close>

definition one_value :: "'a \<Rightarrow> 'a codec" where
  "one_value x = \<lparr>enc = (\<lambda>_. ''{}''), dec = (\<lambda>b. if b = ''{}'' then Some x else None)\<rparr>"

definition demo_service :: ServiceInfo where
  "demo_service = service_info ''users'' ''u1'' ''host:80'' fmempty 30000 1"

definition demo_node :: Node where
  "demo_node = registry_node ''users'' ''u1'' ''80'' fmempty"

definition demo_store where
  "demo_store = server_store (bolt_ops fm_bolt (pin_codec [\<lparr>Value = ''{}'', DeadTime = 0\<rparr>]) ''p'') 0"

section \<open>Lemmas\<close>

subsection \<open>Keys\<close>

lemma identity_ttl [simp]: "identity (x\<lparr>svcTTL := t\<rparr>) = identity x"
  by (simp add: identity_def)

lemma set_map_filter_iff: "y \<in> set (List.map_filter f xs) \<longleftrightarrow> (\<exists>x \<in> set xs. f x = Some y)"
  by (induction xs) (auto simp: map_filter_simps split: option.splits)

lemma split_first:
  "xs @ c # ys = xs' @ c # ys' \<Longrightarrow> c \<notin> set xs \<Longrightarrow> c \<notin> set xs' \<Longrightarrow> xs = xs' \<and> ys = ys'"
proof (induction xs arbitrary: xs')
  case Nil
  then show ?case by (cases xs') auto
next
  case (Cons x xs)
  then show ?case by (cases xs') auto
qed

lemma service_key_inj:
  assumes "CHR ''/'' \<notin> set n" "CHR ''/'' \<notin> set n'"
  shows "service_key n i = service_key n' i' \<longleftrightarrow> n = n' \<and> i = i'"
  using assms split_first [of n "CHR ''/''" i n' i'] by (auto simp: service_key_def)

lemma service_prefix_key:
  assumes "CHR ''/'' \<notin> set n" "CHR ''/'' \<notin> set n'"
  shows "prefix (service_prefix n) (service_key n' i) \<longleftrightarrow> n = n'"
proof
  assume "prefix (service_prefix n) (service_key n' i)"
  then obtain zs where "n @ CHR ''/'' # zs = n' @ CHR ''/'' # i" by (auto simp: service_prefix_def service_key_def prefix_def)
  with assms show "n = n'" using split_first by metis
qed (simp add: service_prefix_def service_key_def)

lemma services_prefix [simp]: "prefix ''/services/'' (service_key n i)" "prefix (service_prefix n) k \<Longrightarrow> prefix ''/services/'' k"
  by (auto simp: service_key_def service_prefix_def prefix_def)

lemma registry_inv_put:
  assumes "registry_inv J m" "CHR ''/'' \<notin> set n" "live J v = None \<or> (\<exists>x. live J v = Some x \<and> svcName x = n \<and> svcID x = i)"
  shows "registry_inv J (m(service_key n i \<mapsto> v))"
  using assms by (auto simp: registry_inv_def)

lemma instances_put:
  assumes "CHR ''/'' \<notin> set n" "CHR ''/'' \<notin> set n'"
  shows "instances J (m(service_key n i \<mapsto> v)) n' =
    (if n' = n then (if live J v = None then instances J m n - {i} else insert i (instances J m n)) else instances J m n')"
  using assms by (auto simp: instances_def service_key_inj)

text \<open>Under the invariant the services found below the prefix of a name are the instances of that name.\<close>

lemma found_instances:
  assumes "registry_inv J m" "CHR ''/'' \<notin> set n" "set keys = {k. prefix (service_prefix n) k \<and> m k \<noteq> None}"
    "map identity xs = map identity (List.map_filter (live J) (map (\<lambda>k. the (m k)) keys))"
  shows "svcID ` set xs = instances J m n \<and>
    (\<forall>x \<in> set xs. svcName x = n \<and> (\<exists>v y. m (service_key n (svcID x)) = Some v \<and> live J v = Some y \<and> identity y = identity x))"
proof -
  let ?ys = "List.map_filter (live J) (map (\<lambda>k. the (m k)) keys)"
  have id: "identity ` set xs = identity ` set ?ys" using assms(4) by (metis set_map)
  have ys: "y \<in> set ?ys \<longleftrightarrow> (\<exists>k v. prefix (service_prefix n) k \<and> m k = Some v \<and> live J v = Some y)" for y
    using assms(3) by (force simp: set_map_filter_iff)
  have y: "svcName y = n \<and> (\<exists>v. m (service_key n (svcID y)) = Some v \<and> live J v = Some y)" if "y \<in> set ?ys" for y
  proof -
    from that ys obtain k v where k: "prefix (service_prefix n) k" "m k = Some v" "live J v = Some y" by blast
    with assms(1) have e: "k = service_key (svcName y) (svcID y)" "CHR ''/'' \<notin> set (svcName y)" by (auto simp: registry_inv_def)
    with k(1) assms(2) have "svcName y = n" by (simp add: service_prefix_key)
    with k e show ?thesis by auto
  qed
  have "svcID ` A = (\<lambda>q. fst (snd q)) ` identity ` A" for A by (simp add: image_image identity_def)
  with id have "svcID ` set xs = svcID ` set ?ys" by simp
  moreover have "svcID ` set ?ys = instances J m n"
  proof (intro set_eqI iffI)
    fix i assume "i \<in> instances J m n"
    then obtain v z where v: "m (service_key n i) = Some v" "live J v = Some z" by (auto simp: instances_def)
    with assms(1,2) have "z \<in> set ?ys" unfolding ys using service_prefix_key [OF assms(2,2)] by blast
    moreover have "service_key n i = service_key (svcName z) (svcID z)"
      using assms(1) v services_prefix(1) [of n i] unfolding registry_inv_def by blast
    then have "svcID z = i" using y [OF calculation] service_key_inj [OF assms(2,2), of i "svcID z"] by simp
    ultimately show "i \<in> svcID ` set ?ys" by blast
  next
    fix i assume "i \<in> svcID ` set ?ys"
    with y show "i \<in> instances J m n" by (fastforce simp: instances_def)
  qed
  ultimately have 1: "svcID ` set xs = instances J m n" by simp
  have "svcName x = n \<and> (\<exists>v y. m (service_key n (svcID x)) = Some v \<and> live J v = Some y \<and> identity y = identity x)"
    if "x \<in> set xs" for x
  proof -
    from that have "identity x \<in> identity ` set ?ys" unfolding id [symmetric] by (rule imageI)
    then obtain z where z: "z \<in> set ?ys" "identity z = identity x" by auto
    with y [OF z(1)] show ?thesis by (auto simp: identity_def)
  qed
  with 1 show ?thesis by blast
qed

section \<open>The interface of a registry's store\<close>

locale registry_store =
  fixes S :: "'s kvstore"
    and view :: "'s \<Rightarrow> string \<Rightarrow> bytes option"
    and ok :: "'s \<Rightarrow> bool"
    and fits :: "string \<Rightarrow> bytes \<Rightarrow> bool"
  assumes put: "ok s \<Longrightarrow> fits k v \<Longrightarrow> \<exists>s'. ks_Put S s k v 0 = (None, s') \<and> ok s' \<and> view s' = (view s)(k \<mapsto> v)"
    and get: "ok s \<Longrightarrow> ks_Get S s k = (case view s k of None \<Rightarrow> Inl ErrNil | Some v \<Rightarrow> Inr v, s)"
    and get_prefix: "ok s \<Longrightarrow> \<exists>keys. distinct keys \<and> set keys = {k. prefix p k \<and> view s k \<noteq> None} \<and>
      ks_GetWithPrefix S s p = (if keys = [] then Inl ErrNil else Inr (map (\<lambda>k. the (view s k)) keys), s)"
    and grant: "ok s \<Longrightarrow> \<exists>l s'. ks_LeaseGrant S s ttl = (Inr l, s') \<and> ok s' \<and> view s' = view s"
    and revoke: "ok s \<Longrightarrow> ok (snd (ks_LeaseRevoke S s l)) \<and> view (snd (ks_LeaseRevoke S s l)) = view s"
    and time_to_live: "ok s \<Longrightarrow> snd (ks_LeaseTimeToLive S s l w) = s"
begin

lemma infos:
  "ok s \<Longrightarrow> \<exists>xs. v3_infos S J ds s = (xs, s) \<and> map identity xs = map identity (List.map_filter (live J) ds)"
proof (induction ds)
  case (Cons d ds)
  then obtain xs where xs: "v3_infos S J ds s = (xs, s)" "map identity xs = map identity (List.map_filter (live J) ds)" by blast
  show ?case
  proof (cases "live J d")
    case None
    then have "d = [] \<or> dec J d = None" by (auto simp: live_def split: if_splits)
    with None xs show ?thesis by (auto simp: map_filter_simps)
  next
    case (Some x)
    then have d: "d \<noteq> []" "dec J d = Some x" by (auto simp: live_def split: if_splits)
    obtain r where "ks_LeaseTimeToLive S s (svcLeaseID x) False = (r, s)"
      using time_to_live [OF Cons.prems, of "svcLeaseID x" False] by (metis prod.collapse)
    with d xs Some show ?thesis by (cases r) (auto simp: map_filter_simps)
  qed
qed (simp add: map_filter_simps)

lemma discover:
  assumes "ok s"
  shows "\<exists>keys. set keys = {k. prefix (service_prefix n) k \<and> view s k \<noteq> None} \<and>
    (keys \<noteq> [] \<longrightarrow> (\<exists>xs. v3_Get S J n s = (Inr xs, s) \<and>
       map identity xs = map identity (List.map_filter (live J) (map (\<lambda>k. the (view s k)) keys))))"
proof -
  from get_prefix [OF assms, of "service_prefix n"] obtain keys where k: "set keys = {k. prefix (service_prefix n) k \<and> view s k \<noteq> None}"
    "ks_GetWithPrefix S s (service_prefix n) = (if keys = [] then Inl ErrNil else Inr (map (\<lambda>k. the (view s k)) keys), s)" by blast
  obtain xs where xs: "v3_infos S J (map (\<lambda>k. the (view s k)) keys) s = (xs, s)"
    "map identity xs = map identity (List.map_filter (live J) (map (\<lambda>k. the (view s k)) keys))" using infos [OF assms] by blast
  from k xs show ?thesis by (intro exI [of _ keys]) (simp add: v3_Get_def)
qed

text \<open>\<^verbatim>\<open>Get\<close> finds exactly the instances of the service.\<close>

lemma discover_instances:
  assumes "ok s" "registry_inv J (view s)" "CHR ''/'' \<notin> set n" "instances J (view s) n \<noteq> {}"
  shows "\<exists>xs. v3_Get S J n s = (Inr xs, s) \<and> svcID ` set xs = instances J (view s) n \<and>
    (\<forall>x \<in> set xs. svcName x = n \<and> (\<exists>v y. view s (service_key n (svcID x)) = Some v \<and> live J v = Some y \<and> identity y = identity x))"
proof -
  obtain keys where keys: "set keys = {k. prefix (service_prefix n) k \<and> view s k \<noteq> None}"
    "keys \<noteq> [] \<Longrightarrow> \<exists>xs. v3_Get S J n s = (Inr xs, s) \<and>
       map identity xs = map identity (List.map_filter (live J) (map (\<lambda>k. the (view s k)) keys))"
    using discover [OF assms(1), of n J] by blast
  from assms(4) obtain i where "view s (service_key n i) \<noteq> None" by (auto simp: instances_def)
  then have "service_key n i \<in> set keys" using keys(1) service_prefix_key [OF assms(3,3)] by simp
  then have "keys \<noteq> []" by auto
  with keys(2) obtain xs where "v3_Get S J n s = (Inr xs, s)"
    "map identity xs = map identity (List.map_filter (live J) (map (\<lambda>k. the (view s k)) keys))" by blast
  with found_instances [OF assms(2,3) keys(1)] show ?thesis by blast
qed

lemma register:
  assumes "ok s" "ks_LeaseGrant S s ttl = (Inr l, s0)"
    "fits (service_key n i) (enc J (service_info n i e md (go_quot ttl Millisecond) l))"
  shows "\<exists>s1. v3_Register S J n i e ttl md s = (Inr l, s1) \<and> ok s1 \<and>
    view s1 = (view s)(service_key n i \<mapsto> enc J (service_info n i e md (go_quot ttl Millisecond) l))"
proof -
  from grant [OF assms(1), of ttl] assms(2) have "ok s0" "view s0 = view s" by auto
  with put [OF _ assms(3), of s0] assms(2) show ?thesis by (auto simp: v3_Register_def)
qed

lemma deregister:
  assumes "ok s" "view s (service_key n i) = Some v" "dec J v = Some x" "fits (service_key n i) []"
  shows "\<exists>s1. v3_Deregister S J n i s = (None, s1) \<and> ok s1 \<and> view s1 = (view s)(service_key n i \<mapsto> [])"
proof -
  from put [OF assms(1,4)] obtain s' where s': "ks_Put S s (service_key n i) [] 0 = (None, s')" "ok s'"
    "view s' = (view s)(service_key n i \<mapsto> [])" by blast
  with get [OF assms(1)] revoke [OF s'(2)] assms(2,3) show ?thesis by (simp add: v3_Deregister_def)
qed

text \<open>Registering a service and removing it again with \<^verbatim>\<open>ServiceRegistry\<close>.\<close>

lemma registry_deregister_missing:
  "ok s \<Longrightarrow> view s (''/default/'' @ n @ ''/'' @ i) = None \<Longrightarrow> registry_Deregister S n i s = (Some (ServiceNotFound ErrNil), s)"
  by (simp add: registry_Deregister_def get)

lemma set_node:
  assumes "ok s" "fits (node_Key nd) (enc J nd)"
  shows "\<exists>s1. SetNodeWithLeaseID S J nd l s = (None, s1) \<and> ok s1 \<and> view s1 = (view s)(node_Key nd \<mapsto> enc J nd)"
  using put [OF assms] by (auto simp: SetNodeWithLeaseID_def node_Marshal_def)

lemma get_node:
  assumes "ok s" "view s (node_Key nd) = Some (enc J nd)" "dec J (enc J nd) = Some nd"
  shows "\<exists>nds. GetNode S J (ndAppId nd) (ndEnv nd) s = (Inr nds, s) \<and> nd \<in> set nds"
proof -
  from get_prefix [OF assms(1), of "node_prefix (ndEnv nd) (ndAppId nd)"] obtain keys where
    k: "set keys = {k. prefix (node_prefix (ndEnv nd) (ndAppId nd)) k \<and> view s k \<noteq> None}"
    "ks_GetWithPrefix S s (node_prefix (ndEnv nd) (ndAppId nd)) = (if keys = [] then Inl ErrNil else Inr (map (\<lambda>k. the (view s k)) keys), s)" by blast
  have "prefix (node_prefix (ndEnv nd) (ndAppId nd)) (node_Key nd)" by (simp add: node_prefix_def node_Key_def)
  with k(1) assms(2) have m: "node_Key nd \<in> set keys" by simp
  then have "nd \<in> set (List.map_filter (dec J) (map (\<lambda>k. the (view s k)) keys))"
    using assms(2,3) by (force simp: set_map_filter_iff)
  with k(2) m show ?thesis by (auto simp: GetNode_def)
qed

end

section \<open>A server's store provides the interface\<close>

interpretation reg: registry_store "server_store (bolt_ops B G path) now" "\<lambda>s. stored_values (db_map cnt G (fst s))"
    "\<lambda>s. db_ok B G cnt at (fst s) \<and> \<not> stuck (snd s) \<and> \<not> stopped (snd s)" "\<lambda>k v. entry_fits G k \<lparr>Value = v, DeadTime = 0\<rparr>"
  for B :: "('b, 'c) bolt" and G path now cnt at
proof
  fix s :: "'b boltdb \<times> lease_mgr" and k v
  assume ok: "db_ok B G cnt at (fst s) \<and> \<not> stuck (snd s) \<and> \<not> stopped (snd s)" and f: "entry_fits G k \<lparr>Value = v, DeadTime = 0\<rparr>"
  from bdb.put [OF conjunct1 [OF ok] f, of path] obtain d' where d': "op_PutEntry (bolt_ops B G path) (fst s) k \<lparr>Value = v, DeadTime = 0\<rparr> = (None, d')"
    "db_ok B G cnt at d'" "db_map cnt G d' = (db_map cnt G (fst s))(k \<mapsto> \<lparr>Value = v, DeadTime = 0\<rparr>)" by blast
  then show "\<exists>s'. ks_Put (server_store (bolt_ops B G path) now) s k v 0 = (None, s') \<and>
      (db_ok B G cnt at (fst s') \<and> \<not> stuck (snd s') \<and> \<not> stopped (snd s')) \<and>
      stored_values (db_map cnt G (fst s')) = (stored_values (db_map cnt G (fst s)))(k \<mapsto> v)"
    using ok by (cases s) (auto simp: server_store_def stored_values_def deadline_of_def fun_eq_iff)
next
  fix s :: "'b boltdb \<times> lease_mgr" and k
  assume ok: "db_ok B G cnt at (fst s) \<and> \<not> stuck (snd s) \<and> \<not> stopped (snd s)"
  then show "ks_Get (server_store (bolt_ops B G path) now) s k =
      (case stored_values (db_map cnt G (fst s)) k of None \<Rightarrow> Inl ErrNil | Some v \<Rightarrow> Inr v, s)"
    using bdb.get [OF conjunct1 [OF ok], of path k] by (cases s) (auto simp: server_store_def stored_values_def split: option.splits)
next
  fix s :: "'b boltdb \<times> lease_mgr" and p
  assume ok: "db_ok B G cnt at (fst s) \<and> \<not> stuck (snd s) \<and> \<not> stopped (snd s)"
  from bdb.pairs [OF conjunct1 [OF ok], of path p] obtain ps where
    ps: "op_GetPairsWithPrefix (bolt_ops B G path) (fst s) p = Some (Inr ps)" "distinct (map PairKey ps)"
    "\<And>k e. \<lparr>PairKey = k, PairEntry = e\<rparr> \<in> set ps \<longleftrightarrow> prefix p k \<and> db_map cnt G (fst s) k = Some e" by blast
  have mem: "prefix p (PairKey q) \<and> db_map cnt G (fst s) (PairKey q) = Some (PairEntry q)" if "q \<in> set ps" for q
  proof -
    obtain k e where "q = \<lparr>PairKey = k, PairEntry = e\<rparr>" by (rule pair.cases)
    with that ps(3) show ?thesis by simp
  qed
  have "set (map PairKey ps) = {k. prefix p k \<and> stored_values (db_map cnt G (fst s)) k \<noteq> None}"
    using mem ps(3) by (force simp: stored_values_def image_iff)
  moreover have "map (\<lambda>k. the (stored_values (db_map cnt G (fst s)) k)) (map PairKey ps) = map (\<lambda>q. Value (PairEntry q)) ps"
    using mem by (simp add: stored_values_def)
  ultimately show "\<exists>keys. distinct keys \<and> set keys = {k. prefix p k \<and> stored_values (db_map cnt G (fst s)) k \<noteq> None} \<and>
      ks_GetWithPrefix (server_store (bolt_ops B G path) now) s p =
        (if keys = [] then Inl ErrNil else Inr (map (\<lambda>k. the (stored_values (db_map cnt G (fst s)) k)) keys), s)"
    using ps(1,2) by (intro exI [of _ "map PairKey ps"]) (cases s; simp add: server_store_def)
qed (auto simp: server_store_def LeaseGrant_def Grant_def with_lock_def Let_def Revoke_def revokeLease_def
    LeaseTimeToLive_def GetLease_def split: prod.splits option.splits sum.splits)

lemma registered_discovered:
  assumes "S = server_store (bolt_ops B G path) now" "db_ok B G cnt at d" "\<not> stuck lm" "\<not> stopped lm" "registry_inv J (stored_values (db_map cnt G d))"
    and "CHR ''/'' \<notin> set n" "info = service_info n i e md (go_quot ttl Millisecond) (nextLeaseID lm)"
    and "dec J (enc J info) = Some info" "enc J info \<noteq> []" "entry_fits G (service_key n i) \<lparr>Value = enc J info, DeadTime = 0\<rparr>"
  shows "\<exists>s1 xs. v3_Register S J n i e ttl md (d, lm) = (Inr (nextLeaseID lm), s1) \<and>
    registry_inv J (stored_values (db_map cnt G (fst s1))) \<and>
    v3_Get S J n s1 = (Inr xs, s1) \<and> svcID ` set xs = insert i (instances J (stored_values (db_map cnt G d)) n) \<and>
    (\<forall>x \<in> set xs. svcName x = n \<and> (svcID x = i \<longrightarrow> svcEndpoint x = e \<and> svcLeaseID x = nextLeaseID lm)) \<and>
    (\<forall>n'. CHR ''/'' \<notin> set n' \<and> n' \<noteq> n \<longrightarrow>
       instances J (stored_values (db_map cnt G (fst s1))) n' = instances J (stored_values (db_map cnt G d)) n')"
proof -
  let ?m = "stored_values (db_map cnt G d)"
  have l: "live J (enc J info) = Some info" using assms(8,9) by (simp add: live_def)
  have g: "fst (ks_LeaseGrant S (d, lm) ttl) = Inr (nextLeaseID lm)" using assms(3)
    by (simp add: assms(1) server_store_def LeaseGrant_def Grant_def with_lock_def Let_def)
  then obtain s0 where "ks_LeaseGrant S (d, lm) ttl = (Inr (nextLeaseID lm), s0)" by (metis prod.collapse)
  from reg.register [OF _ this [unfolded assms(1)]] assms(2-4,7,10)
  obtain s1 where s1: "v3_Register S J n i e ttl md (d, lm) = (Inr (nextLeaseID lm), s1)"
    "db_ok B G cnt at (fst s1) \<and> \<not> stuck (snd s1) \<and> \<not> stopped (snd s1)"
    "stored_values (db_map cnt G (fst s1)) = ?m(service_key n i \<mapsto> enc J info)" unfolding assms(1) by fastforce
  have inv: "registry_inv J (stored_values (db_map cnt G (fst s1)))" unfolding s1(3)
    by (rule registry_inv_put [OF assms(5,6)]) (simp add: l, simp add: assms(7) service_info_def)
  have ins: "CHR ''/'' \<notin> set n' \<Longrightarrow> instances J (stored_values (db_map cnt G (fst s1))) n' = (if n' = n then insert i (instances J ?m n) else instances J ?m n')" for n'
    unfolding s1(3) using instances_put [OF assms(6)] l by simp
  then have "instances J (stored_values (db_map cnt G (fst s1))) n \<noteq> {}" using assms(6) by simp
  from reg.discover_instances [OF s1(2) inv assms(6) this, of path now, folded assms(1)]
  obtain xs where xs: "v3_Get S J n s1 = (Inr xs, s1)" "svcID ` set xs = instances J (stored_values (db_map cnt G (fst s1))) n"
    "\<forall>x \<in> set xs. svcName x = n \<and> (\<exists>v y. stored_values (db_map cnt G (fst s1)) (service_key n (svcID x)) = Some v \<and>
       live J v = Some y \<and> identity y = identity x)" by blast
  have "svcEndpoint x = e \<and> svcLeaseID x = nextLeaseID lm" if "x \<in> set xs" "svcID x = i" for x
  proof -
    from xs(3) that obtain v y where y: "stored_values (db_map cnt G (fst s1)) (service_key n i) = Some v" "live J v = Some y" "identity y = identity x"
      by blast
    with l have "y = info" by (simp add: s1(3))
    with y(3) show ?thesis by (simp add: identity_def assms(7) service_info_def)
  qed
  with s1(1) inv xs ins assms(6) show ?thesis by (intro exI [of _ s1] exI [of _ xs]) auto
qed

section \<open>Properties\<close>


lemma new_db_empty: "stored_values (db_map sorted_list_of_fmap G (NewDB fm_bolt path)) = Map.empty"
  by (auto simp: stored_values_def fun_eq_iff db_map_def NewDB_def fm_bolt_def sorted_list_of_fmap_def sorted_list_of_fset.rep_eq)

lemma demo_fits: "k \<noteq> [] \<Longrightarrow> length k < 100 \<Longrightarrow> entry_fits (pin_codec [\<lparr>Value = ''{}'', DeadTime = 0\<rparr>]) k \<lparr>Value = ''{}'', DeadTime = 0\<rparr>"
  by (simp add: entry_fits_def fits_bolt_def pin_codec_def)


text \<open>
  \<^verbatim>\<open>Deregister\<close> of \<^verbatim>\<open>ServiceRegistry\<close> never finds what \<^verbatim>\<open>Register\<close> has registered: the key it looks up lacks
  the endpoint. It reports that there is no such service, and the service is still discovered.
\<close>

theorem registry_deregister_misses:
  assumes "S = server_store (bolt_ops B G path) now" "db_ok B G cnt at d" "\<not> stuck lm" "\<not> stopped lm"
    and "nd = registry_node n i endpoint md" "dec J (enc J nd) = Some nd"
    and "entry_fits G (node_Key nd) \<lparr>Value = enc J nd, DeadTime = 0\<rparr>" "0 < go_quot ttl 3"
    and "stored_values (db_map cnt G d) (''/default/'' @ n @ ''/'' @ i) = None"
  shows "\<exists>l cancel s1 nds. registry_Register S J n i endpoint ttl md (d, lm) = Inr (Inr (l, cancel), s1) \<and>
    registry_Deregister S n i s1 = (Some (ServiceNotFound ErrNil), s1) \<and> GetService S J n s1 = (Inr nds, s1) \<and> nd \<in> set nds"
proof -
  let ?ok = "\<lambda>s. db_ok B G cnt at (fst s) \<and> \<not> stuck (snd s) \<and> \<not> stopped (snd s)" and ?v = "\<lambda>s. stored_values (db_map cnt G (fst s))"
  have ok: "?ok (d, lm)" using assms(2-4) by simp
  from reg.grant [OF ok, of path now ttl] obtain l s0 where g: "ks_LeaseGrant S (d, lm) ttl = (Inr l, s0)" "?ok s0" "?v s0 = ?v (d, lm)"
    unfolding assms(1) by blast
  from reg.put [OF g(2) assms(7), of path now] obtain s1 where s1: "ks_Put S s0 (node_Key nd) (enc J nd) 0 = (None, s1)" "?ok s1"
    "?v s1 = (?v s0)(node_Key nd \<mapsto> enc J nd)" unfolding assms(1) by blast
  have "ks_AutoKeepAlive S s1 l (go_quot ttl 3) = Inr (id, s1)"
    using assms(8) by (simp add: assms(1) server_store_def AutoKeepAlive_def)
  with g(1) s1(1) have r: "registry_Register S J n i endpoint ttl md (d, lm) = Inr (Inr (l, end_registration S l id), s1)"
    by (simp add: registry_Register_def SetNodeWithLease_def node_Marshal_def assms(5))
  have "node_Key nd \<noteq> ''/default/'' @ n @ ''/'' @ i" by (simp add: assms(5) node_Key_def registry_node_def)
  with s1(3) g(3) assms(9) have n: "?v s1 (''/default/'' @ n @ ''/'' @ i) = None" by simp
  have "?v s1 (node_Key nd) = Some (enc J nd)" using s1(3) by simp
  from reg.get_node [OF s1(2) this assms(6), of path now] obtain nds where
    "GetNode S J (ndAppId nd) (ndEnv nd) s1 = (Inr nds, s1)" "nd \<in> set nds" unfolding assms(1) by blast
  then have "GetService S J n s1 = (Inr nds, s1)" by (simp add: GetService_def assms(5) registry_node_def)
  with r \<open>nd \<in> set nds\<close> reg.registry_deregister_missing [OF s1(2) n, of path now] show ?thesis unfolding assms(1) by blast
qed

theorem registry_deregister_misses_witness:
  "\<exists>l cancel s1 nds. registry_Register demo_store (one_value demo_node) ''users'' ''u1'' ''80'' (30 * Second) fmempty
       (NewDB fm_bolt ''p'', NewLeaseManager 1) = Inr (Inr (l, cancel), s1) \<and>
     registry_Deregister demo_store ''users'' ''u1'' s1 = (Some (ServiceNotFound ErrNil), s1) \<and>
     GetService demo_store (one_value demo_node) ''users'' s1 = (Inr nds, s1) \<and> demo_node \<in> set nds"
proof -
  have ok: "db_ok fm_bolt (pin_codec [\<lparr>Value = ''{}'', DeadTime = 0\<rparr>]) sorted_list_of_fmap (\<lambda>b c xs. c = xs) (NewDB fm_bolt ''p'')"
    by (rule fm_new_ok) simp
  have "0 < go_quot (30 * Second) 3" by (simp add: go_quot_def Second_def)
  then show ?thesis
    using registry_deregister_misses [OF demo_store_def ok _ _ demo_node_def, of "NewLeaseManager 1" "one_value demo_node" "30 * Second"]
    by (simp add: NewLeaseManager_def one_value_def demo_fits node_Key_def demo_node_def registry_node_def new_db_empty)
qed

end
