(* ===== verification/Interfaces.thy ===== *)
theory Interfaces
  imports Discovery
begin

text \<open>
  The interfaces of \<^verbatim>\<open>src/client/interface.go\<close> and the client behind them. \<^verbatim>\<open>KVStore\<close> is a record of theory \<open>Discovery\<close>; the others
  are here, each with the record of the client's own methods, which is what the declarations \<^verbatim>\<open>var _ KVStore =
  (*Client)(nil)\<close> assert. The servers and the network are a world: what they answer to a call, and how the call leaves
  them. A panic of a method ends the program; the state is then the panic.

  The registry and the discovery of the package are clients of \<^verbatim>\<open>KVStore\<close>. The locale \<open>blind_store\<close> has what they do on a
  store whose reads fail, which the client's is.
\<close>

section \<open>Definitions\<close>

text \<open>
  What a world in a state answers to the calls of a method that starts in it, and the state the method leaves: writing, reading,
  the calls on leases, the three calls of \<^verbatim>\<open>Lock\<close> and \<^verbatim>\<open>Unlock\<close>, and the leases of a batch with the clock they are counted from.
\<close>

record 'w world =
  w_now :: "'w \<Rightarrow> int"
  w_write :: "'w \<Rightarrow> nat \<Rightarrow> write_turn"
  w_wrote :: "'w \<Rightarrow> (int \<times> put_args) list \<Rightarrow> 'w"
  w_read :: "'w \<Rightarrow> nat \<Rightarrow> read_turn"
  w_was_read :: "'w \<Rightarrow> (int \<times> get_args) list \<Rightarrow> 'w"
  w_grant :: "'w \<Rightarrow> int \<Rightarrow> int lease_turn"
  w_granted :: "'w \<Rightarrow> int \<Rightarrow> 'w"
  w_revoke :: "'w \<Rightarrow> int \<Rightarrow> unit lease_turn"
  w_revoked :: "'w \<Rightarrow> int \<Rightarrow> 'w"
  w_ttl :: "'w \<Rightarrow> int \<Rightarrow> bool \<Rightarrow> (int \<times> string list) lease_turn"
  w_lock :: "'w \<Rightarrow> (int \<Rightarrow> int lease_turn) \<times> (nat \<Rightarrow> write_turn) \<times> (int \<Rightarrow> unit lease_turn)"
  w_locked :: "'w \<Rightarrow> (int \<times> put_args) list \<Rightarrow> 'w"
  w_batch :: "'w \<Rightarrow> nat \<Rightarrow> nat \<Rightarrow> write_turn"
  w_clock :: "'w \<Rightarrow> nat \<Rightarrow> int"

type_synonym 'w session = "('w \<times> client) res"

text \<open>A method on a session: nothing happens any more after a panic, and \<open>r\<close> is never looked at.\<close>

definition on_session :: "'r \<Rightarrow> ('w \<times> client \<Rightarrow> ('r \<times> 'w \<times> client) res) \<Rightarrow> 'w session \<Rightarrow> 'r \<times> 'w session" where
  "on_session r f s =
     (case s of
        Inl p \<Rightarrow> (r, Inl p)
      | Inr x \<Rightarrow> (case f x of Inl p \<Rightarrow> (r, Inl p) | Inr (a, y) \<Rightarrow> (a, Inr y)))"

text \<open>The methods that write, and those that read.\<close>

definition session_write ::
  "'w world \<Rightarrow> ((nat \<Rightarrow> write_turn) \<Rightarrow> int \<Rightarrow> client \<Rightarrow> ('r \<times> (int \<times> put_args) list \<times> client) res) \<Rightarrow> 'w \<times> client \<Rightarrow> ('r \<times> 'w \<times> client) res" where
  "session_write W f = (\<lambda>(w, ck). res_bind (f (w_write W w) (w_now W w) ck) (\<lambda>(r, sent, ck'). Inr (r, w_wrote W w sent, ck')))"

definition session_read ::
  "'w world \<Rightarrow> ((nat \<Rightarrow> read_turn) \<Rightarrow> client \<Rightarrow> ('r \<times> (int \<times> get_args) list \<times> client) res) \<Rightarrow> 'w \<times> client \<Rightarrow> ('r \<times> 'w \<times> client) res" where
  "session_read W f = (\<lambda>(w, ck). res_bind (f (w_read W w) ck) (\<lambda>(r, sent, ck'). Inr (r, w_was_read W w sent, ck')))"

definition session_grant :: "'w world \<Rightarrow> int \<Rightarrow> 'w session \<Rightarrow> (client_error + int) \<times> 'w session" where
  "session_grant W ttl = on_session (Inl RpcError) (\<lambda>(w, ck).
     res_bind (client_LeaseGrant (w_grant W w) ttl ck) (\<lambda>(r, ck'). Inr (r, w_granted W w (go_quot ttl Millisecond), ck')))"

definition session_revoke :: "'w world \<Rightarrow> int \<Rightarrow> 'w session \<Rightarrow> client_error option \<times> 'w session" where
  "session_revoke W i = on_session (Some RpcError) (\<lambda>(w, ck).
     res_bind (client_LeaseRevoke (w_revoke W w) i ck) (\<lambda>(r, ck'). Inr (r, w_revoked W w i, ck')))"

definition session_ttl :: "'w world \<Rightarrow> int \<Rightarrow> bool \<Rightarrow> 'w session \<Rightarrow> (client_error + int \<times> string list) \<times> 'w session" where
  "session_ttl W i withKeys = on_session (Inl RpcError) (\<lambda>(w, ck).
     res_bind (client_LeaseTimeToLive (w_ttl W w) i withKeys ck) (\<lambda>(r, ck'). Inr (r, w, ck')))"

definition session_keep :: "'w session \<Rightarrow> int \<Rightarrow> int \<Rightarrow> (('w session \<Rightarrow> 'w session) \<times> 'w session) res" where
  "session_keep s i interval = res_bind (AutoKeepAlive interval) (\<lambda>_. Inr (id, s))"

definition cas_result :: "bool \<times> client_error option \<Rightarrow> client_error + bool" where
  "cas_result r = (case snd r of None \<Rightarrow> Inr (fst r) | Some e \<Rightarrow> Inl e)"

definition client_store :: "'w world \<Rightarrow> 'w session kvstore" where
  "client_store W =
     \<lparr>ks_Put = (\<lambda>s k v ttl. on_session (Some RpcError) (session_write W (\<lambda>env now. client_Put env now k v ttl)) s),
      ks_Get = (\<lambda>s k. on_session (Inl RpcError) (session_read W (\<lambda>env. client_Get env k)) s),
      ks_Append = (\<lambda>s k v ttl. on_session (Some RpcError) (session_write W (\<lambda>env now. client_Append env now k v ttl)) s),
      ks_Delete = (\<lambda>s k. on_session (Some RpcError) (session_write W (\<lambda>env now. client_Delete env now k)) s),
      ks_DeleteWithPrefix = (\<lambda>s p. on_session (Some RpcError) (session_write W (\<lambda>env now. client_DeleteWithPrefix env now p)) s),
      ks_CAS = (\<lambda>s k origin dest ttl. map_prod cas_result id
        (on_session (False, Some RpcError) (session_write W (\<lambda>env now. client_CAS env now k origin dest ttl)) s)),
      ks_GetWithPrefix = (\<lambda>s p. on_session (Inl RpcError) (session_read W (\<lambda>env. client_GetWithPrefix env p)) s),
      ks_LeaseGrant = (\<lambda>s ttl. session_grant W ttl s),
      ks_LeaseRevoke = (\<lambda>s i. session_revoke W i s),
      ks_LeaseTimeToLive = (\<lambda>s i w. session_ttl W i w s),
      ks_AutoKeepAlive = session_keep\<rparr>"

text \<open>\<^verbatim>\<open>Locker\<close>, \<^verbatim>\<open>Querier\<close>, \<^verbatim>\<open>Pipeliner\<close>, \<^verbatim>\<open>BatchWriter\<close> and \<^verbatim>\<open>Watcher\<close>. The channel that \<^verbatim>\<open>Watch\<close> returns has the events of a request, or is closed.\<close>

record 's locker =
  lk_Lock :: "'s \<Rightarrow> string \<Rightarrow> int \<Rightarrow> (client_error + string) \<times> 's"
  lk_Unlock :: "'s \<Rightarrow> string \<Rightarrow> string \<Rightarrow> (client_error + bool) \<times> 's"
  lk_LockWithKeepAlive :: "'s \<Rightarrow> string \<Rightarrow> int \<Rightarrow> (client_error + string \<times> ('s \<Rightarrow> 's) option) \<times> 's"
  lk_LeaseGrant :: "'s \<Rightarrow> int \<Rightarrow> (client_error + int) \<times> 's"
  lk_LeaseRevoke :: "'s \<Rightarrow> int \<Rightarrow> client_error option \<times> 's"
  lk_LeaseTimeToLive :: "'s \<Rightarrow> int \<Rightarrow> bool \<Rightarrow> (client_error + int \<times> string list) \<times> 's"
  lk_AutoKeepAlive :: "'s \<Rightarrow> int \<Rightarrow> int \<Rightarrow> (('s \<Rightarrow> 's) \<times> 's) res"

record 's querier =
  q_Keys :: "'s \<Rightarrow> (client_error + pair list) \<times> 's"
  q_KVs :: "'s \<Rightarrow> (client_error + pair list) \<times> 's"
  q_KeysWithPage :: "'s \<Rightarrow> int \<Rightarrow> int \<Rightarrow> (client_error + pair list) \<times> 's"
  q_KVsWithPage :: "'s \<Rightarrow> int \<Rightarrow> int \<Rightarrow> (client_error + pair list) \<times> 's"

record 's pipeliner =
  pl_Pipeline :: "'s \<Rightarrow> pipe \<times> 's"

record 's batch_writer =
  bw_BatchWrite :: "'s \<Rightarrow> pipe \<Rightarrow> client_error option \<times> 's"

datatype watch_chan = Subscribed watch_req | ClosedChan

record watcher_if =
  wa_Watch :: "string \<Rightarrow> (watch_req \<Rightarrow> watch_req) list \<Rightarrow> watch_chan"

definition session_lock ::
  "'w world \<Rightarrow> ((int \<Rightarrow> int lease_turn) \<Rightarrow> (nat \<Rightarrow> write_turn) \<Rightarrow> (int \<Rightarrow> unit lease_turn) \<Rightarrow> int \<Rightarrow> client \<Rightarrow>
     ((client_error + 'r) \<times> (int \<times> put_args) list \<times> client) res) \<Rightarrow> 'w session \<Rightarrow> (client_error + 'r) \<times> 'w session" where
  "session_lock W f = on_session (Inl RpcError) (\<lambda>(w, ck).
     case w_lock W w of (ge, env, re) \<Rightarrow>
       res_bind (f ge env re (w_now W w) ck) (\<lambda>(r, sent, ck'). Inr (r, w_locked W w sent, ck')))"

definition session_unlock :: "'w world \<Rightarrow> string \<Rightarrow> string \<Rightarrow> 'w session \<Rightarrow> (client_error + bool) \<times> 'w session" where
  "session_unlock W key lid = session_lock W (\<lambda>ge env re now. Unlock env re now key lid)"

text \<open>The function that \<^verbatim>\<open>LockWithKeepAlive\<close> returns unlocks; a lock that was not got has none.\<close>

definition client_locker :: "'w world \<Rightarrow> 'w session locker" where
  "client_locker W =
     \<lparr>lk_Lock = (\<lambda>s key ttl. session_lock W (\<lambda>ge env re now. Lock ge env re now key ttl) s),
      lk_Unlock = (\<lambda>s key lid. session_unlock W key lid s),
      lk_LockWithKeepAlive = (\<lambda>s key ttl. map_prod (map_sum id (\<lambda>lid. (lid, if lid = [] then None else Some (\<lambda>s. snd (session_unlock W key lid s))))) id
        (session_lock W (\<lambda>ge env re now. LockWithKeepAlive ge env re now key ttl) s)),
      lk_LeaseGrant = (\<lambda>s ttl. session_grant W ttl s),
      lk_LeaseRevoke = (\<lambda>s i. session_revoke W i s),
      lk_LeaseTimeToLive = (\<lambda>s i w. session_ttl W i w s),
      lk_AutoKeepAlive = session_keep\<rparr>"

definition client_querier :: "pair codec \<Rightarrow> 'w world \<Rightarrow> 'w session querier" where
  "client_querier pc W =
     \<lparr>q_Keys = on_session (Inl RpcError) (session_read W (client_Keys pc)),
      q_KVs = on_session (Inl RpcError) (session_read W (client_KVs pc)),
      q_KeysWithPage = (\<lambda>s pageSize pageIndex. on_session (Inl RpcError) (session_read W (\<lambda>env. KeysWithPage pc env pageSize pageIndex)) s),
      q_KVsWithPage = (\<lambda>s pageSize pageIndex. on_session (Inl RpcError) (session_read W (\<lambda>env. KVsWithPage pc env pageSize pageIndex)) s)\<rparr>"

definition client_pipeliner :: "'w session pipeliner" where
  "client_pipeliner = \<lparr>pl_Pipeline = (\<lambda>s. (case s of Inl p \<Rightarrow> NewPipe | Inr (w, ck) \<Rightarrow> client_Pipeline ck, s))\<rparr>"

definition client_batch_writer :: "op list codec \<Rightarrow> 'w world \<Rightarrow> 'w session batch_writer" where
  "client_batch_writer bc W =
     \<lparr>bw_BatchWrite = (\<lambda>s p. on_session (Some RpcError) (\<lambda>(w, ck).
        res_bind (BatchWrite bc (w_batch W w) (w_clock W w) (w_write W w) (w_now W w) p ck) (\<lambda>(r, sent, ck').
          Inr (r, w_wrote W w sent, ck'))) s)\<rparr>"

definition client_watcher :: watcher_if where
  "client_watcher = \<lparr>wa_Watch = (\<lambda>key opts. Subscribed (client_Watch key opts))\<rparr>"

text \<open>The reads of the world are answered by servers.\<close>

definition reads_served :: "'d db_ops \<Rightarrow> kv_codecs \<Rightarrow> 'w world \<Rightarrow> 'w session \<Rightarrow> bool" where
  "reads_served D K W s \<longleftrightarrow> (\<exists>w ck. s = Inr (w, ck) \<and> client_inv ck \<and> (\<forall>w. served_reads D K (length (servers ck)) (w_read W w)))"

text \<open>
  A world with a stable leader: it acknowledges every write that reaches it, the other servers name it or nobody, and every server
  grants leases. The session of a client whose notes are right, with reads that are answered by servers.
\<close>

definition stable_world :: "'w world \<Rightarrow> nat \<Rightarrow> (int \<Rightarrow> int) \<Rightarrow> int \<Rightarrow> bool" where
  "stable_world W n names lead \<longleftrightarrow>
     (\<forall>w. stable_cluster n names lead (w_write W w) \<and> write_env n (w_write W w) \<and>
        (\<forall>ms i. 0 \<le> i \<and> i < int n \<longrightarrow> (\<exists>l. lease_granted l i n (w_grant W w ms))) \<and>
        (\<forall>t i a r. rtReply (w_read W w t) i a = Some r \<longrightarrow> grServerId r = names i))"

definition stable_session :: "'d db_ops \<Rightarrow> kv_codecs \<Rightarrow> 'w world \<Rightarrow> (int \<Rightarrow> int) \<Rightarrow> int \<Rightarrow> 'w session \<Rightarrow> bool" where
  "stable_session D K W names lead s \<longleftrightarrow> reads_served D K W s \<and>
     (\<forall>w ck. s = Inr (w, ck) \<longrightarrow> knows names ck \<and> stable_world W (length (servers ck)) names lead)"

text \<open>A world of three servers that never changes, whose third server is the leader.\<close>

definition demo_world :: "unit world" where
  "demo_world =
     \<lparr>w_now = (\<lambda>_. 0), w_write = (\<lambda>_ _. demo_turn), w_wrote = (\<lambda>w _. w),
      w_read = (\<lambda>_ _. \<lparr>rtServers = replicate 3 up_conn, rtReply = (\<lambda>i a. if 0 \<le> i \<and> i < 3 then
        (case kv_Get (bolt_ops fm_bolt count_codec ''p'') demo_K a (demo_kv\<lparr>kv_me := i\<rparr>) of Inl p \<Rightarrow> None | Inr (r, kv') \<Rightarrow> Some r) else None)\<rparr>),
      w_was_read = (\<lambda>w _. w), w_grant = (\<lambda>_ _. \<lparr>ltServers = replicate 3 up_conn, ltAnswer = (\<lambda>_. Inr 1)\<rparr>), w_granted = (\<lambda>w _. w),
      w_revoke = (\<lambda>_ _. \<lparr>ltServers = replicate 3 up_conn, ltAnswer = (\<lambda>_. Inr ())\<rparr>), w_revoked = (\<lambda>w _. w),
      w_ttl = (\<lambda>_ _ _. \<lparr>ltServers = replicate 3 up_conn, ltAnswer = (\<lambda>_. Inr (0, []))\<rparr>),
      w_lock = (\<lambda>_. (\<lambda>_. \<lparr>ltServers = replicate 3 up_conn, ltAnswer = (\<lambda>_. Inr 1)\<rparr>, \<lambda>_. demo_turn,
        \<lambda>_. \<lparr>ltServers = replicate 3 up_conn, ltAnswer = (\<lambda>_. Inr ())\<rparr>)),
      w_locked = (\<lambda>w _. w), w_batch = (\<lambda>_ _ _. demo_turn), w_clock = (\<lambda>_ _. 0)\<rparr>"

section \<open>A store whose reads fail\<close>

locale blind_store =
  fixes S :: "'s kvstore"
    and ok :: "'s \<Rightarrow> bool"
    and e :: client_error
  assumes get: "ok s \<Longrightarrow> \<exists>s'. ks_Get S s k = (Inl e, s') \<and> ok s'"
    and get_prefix: "ok s \<Longrightarrow> \<exists>s'. ks_GetWithPrefix S s p = (Inl e, s') \<and> ok s'"
begin

lemma nothing_discovered:
  assumes "ok s"
  shows "\<exists>s'. v3_Get S J n s = (Inl (GetFailed e), s') \<and> ok s'" "\<exists>s'. GetAllInstances S J n s = (Inl (GetFailed e), s') \<and> ok s'"
    "\<exists>s'. v3_HealthCheck S J n s = (Inl (GetFailed e), s') \<and> ok s'" "\<exists>s'. GetInstance S J now n s = Inr (Inl (GetFailed e), s') \<and> ok s'"
    "\<exists>s'. GetNode S N n env s = (Inl (StoreFailed e), s') \<and> ok s'"
proof -
  obtain s1 s2 where 1: "ks_GetWithPrefix S s (service_prefix n) = (Inl e, s1)" "ok s1"
    and 2: "ks_GetWithPrefix S s (node_prefix env n) = (Inl e, s2)" "ok s2" using get_prefix [OF assms] by blast
  show "\<exists>s'. v3_Get S J n s = (Inl (GetFailed e), s') \<and> ok s'" "\<exists>s'. GetAllInstances S J n s = (Inl (GetFailed e), s') \<and> ok s'"
    "\<exists>s'. v3_HealthCheck S J n s = (Inl (GetFailed e), s') \<and> ok s'" "\<exists>s'. GetInstance S J now n s = Inr (Inl (GetFailed e), s') \<and> ok s'"
    using 1 by (simp_all add: v3_Get_def GetAllInstances_def v3_HealthCheck_def GetInstance_def)
  show "\<exists>s'. GetNode S N n env s = (Inl (StoreFailed e), s') \<and> ok s'" using 2 by (simp add: GetNode_def)
qed

lemma nothing_deregistered:
  assumes "ok s"
  shows "\<exists>s'. v3_Deregister S J n i s = (Some (ServiceNotFound e), s') \<and> ok s'"
    "\<exists>s'. registry_Deregister S n i s = (Some (ServiceNotFound e), s') \<and> ok s'"
proof -
  obtain s1 s2 where "ks_Get S s (service_key n i) = (Inl e, s1)" "ok s1" "ks_Get S s (''/default/'' @ n @ ''/'' @ i) = (Inl e, s2)" "ok s2"
    using get [OF assms] by blast
  then show "\<exists>s'. v3_Deregister S J n i s = (Some (ServiceNotFound e), s') \<and> ok s'"
    "\<exists>s'. registry_Deregister S n i s = (Some (ServiceNotFound e), s') \<and> ok s'"
    by (simp_all add: v3_Deregister_def registry_Deregister_def Let_def)
qed

end

text \<open>A store that takes writes but whose reads fail.\<close>

locale write_only_store = blind_store +
  assumes put: "ok s \<Longrightarrow> \<exists>s'. ks_Put S s k v 0 = (None, s') \<and> ok s'"
    and grant: "ok s \<Longrightarrow> \<exists>l s'. ks_LeaseGrant S s ttl = (Inr l, s') \<and> ok s'"
begin

lemma registered:
  assumes "ok s"
  shows "\<exists>l s'. v3_Register S J n i endpoint ttl metadata s = (Inr l, s') \<and> ok s'"
proof -
  obtain l s1 where 1: "ks_LeaseGrant S s ttl = (Inr l, s1)" "ok s1" using grant [OF assms] by blast
  obtain s2 where "ks_Put S s1 (service_key n i) (enc J (service_info n i endpoint metadata (go_quot ttl Millisecond) l)) 0 = (None, s2)" "ok s2"
    using put [OF 1(2)] by blast
  with 1(1) show ?thesis by (simp add: v3_Register_def)
qed

text \<open>A service that is registered is not found and cannot be taken back.\<close>

lemma registered_not_found:
  assumes "ok s"
  shows "\<exists>l s'. v3_Register S J n i endpoint ttl metadata s = (Inr l, s') \<and> ok s' \<and>
    fst (v3_Get S J n s') = Inl (GetFailed e) \<and> fst (v3_HealthCheck S J n s') = Inl (GetFailed e) \<and>
    fst (v3_Deregister S J n i s') = Some (ServiceNotFound e)"
proof -
  obtain l s' where r: "v3_Register S J n i endpoint ttl metadata s = (Inr l, s')" "ok s'" using registered [OF assms] by blast
  then show ?thesis using nothing_discovered [OF r(2)] nothing_deregistered [OF r(2)] by (metis fst_conv)
qed

end

section \<open>The client as a store\<close>

lemma value_refused:
  assumes "client_inv ck" "served_reads D K (length (servers ck)) env"
  shows "\<exists>sent ck'. doGetValue env k b ck = Inr (Inl ErrFaild, sent, ck') \<and> same_session ck ck' \<and>
    ((\<forall>t i a r. rtReply (env t) i a = Some r \<longrightarrow> grServerId r = names i) \<longrightarrow> knows names ck \<longrightarrow> knows names ck')"
  using client_read_refused [OF assms] read_loop_knows [of names ck env] unfolding doGetValue_def client_read_def by metis

lemma store_reads:
  assumes "doGetValue (w_read W w) k False ck = Inr (Inl ErrFaild, sent, ck')"
  shows "ks_Get (client_store W) (Inr (w, ck)) k = (Inl ErrFaild, Inr (w_was_read W w sent, ck'))"
  using assms by (simp add: client_store_def on_session_def session_read_def client_Get_def)

lemma store_prefix_reads:
  assumes "doGetValue (w_read W w) k True ck = Inr (Inl ErrFaild, sent, ck')"
  shows "ks_GetWithPrefix (client_store W) (Inr (w, ck)) k = (Inl ErrFaild, Inr (w_was_read W w sent, ck'))"
  using assms by (simp add: client_store_def on_session_def session_read_def client_GetWithPrefix_def)

lemma reads_refused:
  assumes "reads_served D K W s"
  shows "\<exists>s'. ks_Get (client_store W) s k = (Inl ErrFaild, s') \<and> reads_served D K W s'"
    and "\<exists>s'. ks_GetWithPrefix (client_store W) s k = (Inl ErrFaild, s') \<and> reads_served D K W s'"
proof -
  obtain w ck where s: "s = Inr (w, ck)" "client_inv ck" "\<forall>w. served_reads D K (length (servers ck)) (w_read W w)"
    using assms by (auto simp: reads_served_def)
  note r = value_refused [OF s(2), of D K "w_read W w" k]
  have k: "reads_served D K W (Inr (w', ck'))" if "same_session ck ck'" for w' ck'
    using that s(3) by (auto simp: reads_served_def same_session_def)
  show "\<exists>s'. ks_Get (client_store W) s k = (Inl ErrFaild, s') \<and> reads_served D K W s'"
    using r [of False] s(3) k store_reads [of W w k ck] unfolding s(1) by metis
  show "\<exists>s'. ks_GetWithPrefix (client_store W) s k = (Inl ErrFaild, s') \<and> reads_served D K W s'"
    using r [of True] s(3) k store_prefix_reads [of W w k ck] unfolding s(1) by metis
qed

interpretation refused: blind_store "client_store W" "reads_served D K W" ErrFaild
  for D :: "'d db_ops" and K :: kv_codecs and W :: "'w world"
  by unfold_locales (rule reads_refused, assumption)+

lemma session_kept:
  assumes "stable_session D K W names lead (Inr (w, ck))" "client_inv ck'" "length (servers ck') = length (servers ck)" "knows names ck'"
  shows "stable_session D K W names lead (Inr (w', ck'))"
  using assms by (auto simp: stable_session_def reads_served_def)

lemma stable_put:
  assumes "stable_session D K W names lead s"
  shows "\<exists>s'. ks_Put (client_store W) s k v ttl = (None, s') \<and> stable_session D K W names lead s'"
proof -
  obtain w ck where s: "s = Inr (w, ck)" "client_inv ck" "knows names ck" "stable_world W (length (servers ck)) names lead"
    using assms by (auto simp: stable_session_def reads_served_def)
  obtain sent ck' where r: "client_Put (w_write W w) (w_now W w) k v ttl ck = Inr (None, sent, ck')" "knows names ck'"
    using client_write_stable [OF _ s(2,3), of lead "w_write W w" "w_now W w" k v "[]" ttl PutT] s(4)
    unfolding client_Put_def stable_world_def by auto
  have "write_env (length (servers ck)) (w_write W w)" using s(4) by (simp add: stable_world_def)
  from client_write_ran [OF s(2) this, of ttl "w_now W w" k v "[]" PutT] r(1)
  have "client_inv ck'" "length (servers ck') = length (servers ck)" unfolding client_Put_def by (auto simp: write_ran_def)
  with r session_kept [OF assms [unfolded s(1)]] show ?thesis
    by (simp add: s(1) client_store_def on_session_def session_write_def)
qed

lemma stable_grant:
  assumes "stable_session D K W names lead s"
  shows "\<exists>l s'. ks_LeaseGrant (client_store W) s ttl = (Inr l, s') \<and> stable_session D K W names lead s'"
proof -
  let ?ms = "go_quot ttl Millisecond"
  obtain w ck where s: "s = Inr (w, ck)" "client_inv ck" "knows names ck" "stable_world W (length (servers ck)) names lead"
    using assms by (auto simp: stable_session_def reads_served_def)
  then obtain l where l: "lease_granted l (nextSendLocalId ck) (length (servers ck)) (w_grant W w ?ms)"
    by (fastforce simp: stable_world_def client_inv_def)
  have "client_inv (ck\<lparr>servers := ltServers (w_grant W w ?ms)\<rparr>)" "length (ltServers (w_grant W w ?ms)) = length (servers ck)"
    using s(2) l by (simp_all add: client_inv_def lease_granted_def table_ok_def)
  moreover have "knows names (ck\<lparr>servers := ltServers (w_grant W w ?ms)\<rparr>)" using s(3) by (simp add: knows_def)
  ultimately show ?thesis
    using LeaseGrant_granted [where e = "w_grant W w" and ttl = ttl, OF s(2) l] session_kept [OF assms [unfolded s(1)]]
    by (simp add: s(1) client_store_def session_grant_def on_session_def)
qed

lemma stable_read:
  assumes "stable_session D K W names lead s"
  shows "\<exists>s'. ks_Get (client_store W) s k = (Inl ErrFaild, s') \<and> stable_session D K W names lead s'"
    and "\<exists>s'. ks_GetWithPrefix (client_store W) s k = (Inl ErrFaild, s') \<and> stable_session D K W names lead s'"
proof -
  obtain w ck where s: "s = Inr (w, ck)" "client_inv ck" "knows names ck" "stable_world W (length (servers ck)) names lead"
    "\<forall>w. served_reads D K (length (servers ck)) (w_read W w)"
    using assms by (auto simp: stable_session_def reads_served_def)
  have n: "\<forall>t i a r. rtReply (w_read W w t) i a = Some r \<longrightarrow> grServerId r = names i" using s(4) by (simp add: stable_world_def)
  have r: "\<exists>sent ck'. doGetValue (w_read W w) k b ck = Inr (Inl ErrFaild, sent, ck') \<and> (\<forall>w'. stable_session D K W names lead (Inr (w', ck')))" for b
    using value_refused [OF s(2), of D K "w_read W w" k b names] s(3,5) n session_kept [OF assms [unfolded s(1)]]
    by (auto simp: same_session_def)
  show "\<exists>s'. ks_Get (client_store W) s k = (Inl ErrFaild, s') \<and> stable_session D K W names lead s'"
    using r [of False] store_reads [of W w k ck] unfolding s(1) by blast
  show "\<exists>s'. ks_GetWithPrefix (client_store W) s k = (Inl ErrFaild, s') \<and> stable_session D K W names lead s'"
    using r [of True] store_prefix_reads [of W w k ck] unfolding s(1) by blast
qed

interpretation clerk: write_only_store "client_store W" "stable_session D K W names lead" ErrFaild
  for D :: "'d db_ops" and K :: kv_codecs and W :: "'w world" and names lead
  by unfold_locales (rule stable_read stable_put stable_grant, assumption)+

section \<open>Properties\<close>

text \<open>
  C34: A service that is registered through the client is not found. In a world with a stable leader whose servers answer reads with their
  handler \<^verbatim>\<open>Get\<close>, \<^verbatim>\<open>Register\<close> of \<^verbatim>\<open>ServiceRegistryV3\<close> over the client succeeds, and from then on discovery and the health check of the
  service fail, and so does taking it back; the session goes on without a panic.
\<close>

theorem registered_never_found:
  assumes "stable_session D K W names lead s"
  shows "\<exists>l s'. v3_Register (client_store W) J n i endpoint ttl metadata s = (Inr l, s') \<and> stable_session D K W names lead s' \<and>
    fst (v3_Get (client_store W) J n s') = Inl (GetFailed ErrFaild) \<and>
    fst (v3_HealthCheck (client_store W) J n s') = Inl (GetFailed ErrFaild) \<and>
    fst (v3_Deregister (client_store W) J n i s') = Some (ServiceNotFound ErrFaild)"
  by (rule clerk.registered_not_found [OF assms])

lemma demo_session: "stable_session (bolt_ops fm_bolt count_codec ''p'') demo_K demo_world (\<lambda>i. i) 2 (Inr ((), demo_ck))"
proof -
  have n: "length (servers demo_ck) = 3" "client_inv demo_ck" "knows (\<lambda>i. i) demo_ck"
    by (simp_all add: client_inv_def table_ok_def local_ids_def demo_ck_def no_conn_def knows_def)
  let ?D = "bolt_ops fm_bolt count_codec ''p''"
  have w: "stable_cluster 3 (\<lambda>i. i) 2 (w_write demo_world w)" "write_env 3 (w_write demo_world w)" for w
    by (simp_all add: demo_world_def stable_cluster_def write_env_def table_ok_def demo_turn_def up_conn_def)
  have g: "\<exists>l. lease_granted l i 3 (w_grant demo_world w ms)" if "0 \<le> i \<and> i < 3" for i w ms
    using that by (auto simp: demo_world_def lease_granted_def table_ok_def up_conn_def)
  have r: "(\<exists>kv'. kv_Get ?D demo_K a (demo_kv\<lparr>kv_me := i\<rparr>) = Inr (r, kv')) \<and> 0 \<le> i \<and> i < 3"
      if "rtReply (w_read demo_world w t) i a = Some r" for w t i a r
    using that by (auto simp: demo_world_def split: if_splits sum.splits)
  have me: "grServerId r = i" if "rtReply (w_read demo_world w t) i a = Some r" for w t i a r
    using r [OF that] kv_Get_refuses [of ?D demo_K a "demo_kv\<lparr>kv_me := i\<rparr>" r] by auto
  have l: "GetleaderId (kv_rf (demo_kv\<lparr>kv_me := i\<rparr>)) = -1" for i by (simp add: GetleaderId_def demo_kv_def zero_raft_def)
  have "served_reads ?D demo_K 3 (w_read demo_world w)" for w
    unfolding served_reads_def
  proof (intro allI conjI impI)
    show "table_ok 3 (rtServers (w_read demo_world w t))" for t by (simp add: demo_world_def table_ok_def up_conn_def)
    fix t i a r assume "rtReply (w_read demo_world w t) i a = Some r"
    from r [OF this] obtain kv' where "kv_Get ?D demo_K a (demo_kv\<lparr>kv_me := i\<rparr>) = Inr (r, kv')" "0 \<le> i" "i < 3" by blast
    with l [of i] show "\<exists>kv kv'. kv_Get ?D demo_K a kv = Inr (r, kv') \<and> 0 \<le> kv_me kv \<and> kv_me kv < int 3 \<and>
        -1 \<le> GetleaderId (kv_rf kv) \<and> GetleaderId (kv_rf kv) < int 3"
      by (intro exI [of _ "demo_kv\<lparr>kv_me := i\<rparr>"] exI [of _ kv']) simp
  qed
  moreover have "stable_world demo_world 3 (\<lambda>i. i) 2" using w g me by (simp add: stable_world_def)
  ultimately show ?thesis using n by (auto simp: stable_session_def reads_served_def)
qed

theorem registered_never_found_witness:
  "\<exists>l s'. v3_Register (client_store demo_world) (one_value demo_service) ''user'' ''1'' ''localhost:80'' Second fmempty (Inr ((), demo_ck)) = (Inr l, s') \<and>
     fst (v3_Get (client_store demo_world) (one_value demo_service) ''user'' s') = Inl (GetFailed ErrFaild)"
  using registered_never_found [OF demo_session, of "one_value demo_service" "''user''" "''1''" "''localhost:80''" Second fmempty] by blast

end
