(* ===== verification/Gateway.thy ===== *)
theory Gateway
  imports Interfaces
begin

text \<open>
  The HTTP gateway, \<^verbatim>\<open>src/gateway\<close>: the handlers over the client library (\<^verbatim>\<open>handlers.go\<close>) and those over the service
  registry (\<^verbatim>\<open>service_discovery.go\<close>), the answers they write (\<^verbatim>\<open>tool.go\<close>) and the routes (\<^verbatim>\<open>gateway.go\<close>). A handler is a
  function of the request, of the environment of the client calls it makes and of the client. What is written
  to the client is data; turning it into JSON is library code.
\<close>

section \<open>Definitions\<close>

subsection \<open>Requests and answers\<close>

text \<open>
  A request with its decoded query (\<^verbatim>\<open>Get\<close> of a missing parameter is the empty string) and its body. A response
  has the headers set so far and, from the first \<^verbatim>\<open>WriteHeader\<close> on, the status and the headers that were sent with it.
\<close>

record http_request =
  rqMethod :: string
  rqPath :: string
  rqQuery :: "string \<Rightarrow> string"
  rqBody :: bytes

text \<open>\<^verbatim>\<open>Pair\<close> and \<^verbatim>\<open>PairCAS\<close> of \<^verbatim>\<open>handlers.go\<close>.\<close>

record gw_pair =
  gpKey :: string
  gpValue :: string
  gpDeadTime :: int

record gw_pair_cas = gw_pair +
  gpOriValue :: string

text \<open>The errors a handler reports, and the data it writes.\<close>

datatype gw_error = ClientErr client_error | RegistryErr registry_error | ParamRequired string | BadBody | StreamingUnsupported

record register_response =
  rrSuccess :: bool
  rrLeaseID :: int
  rrMessage :: string
  rrError :: "gw_error option"

record list_response =
  lsSuccess :: bool
  lsServices :: "ServiceInfo list"
  lsError :: "gw_error option"

record health_response =
  hrSuccess :: bool
  hrHealth :: "(string, bool) fmap"
  hrError :: "gw_error option"

datatype payload = ErrorMsg gw_error | Msg string | Success bool | ValueOf string | ValuesOf "bytes list" | PairsOf "gw_pair list"
  | RegisterReply register_response | ListReply list_response | HealthReply health_response | PlainText string | Respond int payload

record response =
  rsHeader :: "(string, string) fmap"
  rsStatus :: "(int \<times> (string, string) fmap) option"
  rsBody :: "payload list"

definition new_response :: response where
  "new_response = \<lparr>rsHeader = fmempty, rsStatus = None, rsBody = []\<rparr>"

text \<open>The operations of \<^verbatim>\<open>http.ResponseWriter\<close>: a header set after the first \<^verbatim>\<open>WriteHeader\<close> is not sent, and only the first counts.\<close>

definition set_header :: "string \<Rightarrow> string \<Rightarrow> response \<Rightarrow> response" where
  "set_header k v w = w\<lparr>rsHeader := fmupd k v (rsHeader w)\<rparr>"

definition write_header :: "int \<Rightarrow> response \<Rightarrow> response" where
  "write_header status w = (case rsStatus w of None \<Rightarrow> w\<lparr>rsStatus := Some (status, rsHeader w)\<rparr> | Some _ \<Rightarrow> w)"

definition write_body :: "payload \<Rightarrow> response \<Rightarrow> response" where
  "write_body p w = (write_header 200 w)\<lparr>rsBody := rsBody w @ [p]\<rparr>"

definition http_Error :: "string \<Rightarrow> int \<Rightarrow> response \<Rightarrow> response" where
  "http_Error msg status w = write_body (PlainText msg) (write_header status (set_header ''Content-Type'' ''text/plain; charset=utf-8'' w))"

definition writeJSON :: "int \<Rightarrow> payload \<Rightarrow> response \<Rightarrow> response" where
  "writeJSON status data w =
     write_body (Respond status data) (write_header status (set_header ''Content-Type'' ''application/json'' w))"

definition writeError :: "int \<Rightarrow> gw_error \<Rightarrow> response \<Rightarrow> response" where
  "writeError status err w = writeJSON status (ErrorMsg err) w"

subsection \<open>Reading\<close>

definition gw_keys :: "pair codec \<Rightarrow> (nat \<Rightarrow> read_turn) \<Rightarrow> client \<Rightarrow> response \<Rightarrow> (response \<times> client) res" where
  "gw_keys pc env ck w =
     res_bind (client_Keys pc env ck) (\<lambda>(r, _, ck').
       Inr (case r of
          Inl e \<Rightarrow> writeError 500 (ClientErr e) w
        | Inr ps \<Rightarrow> writeJSON 200 (PairsOf (map (\<lambda>p. \<lparr>gpKey = PairKey p, gpValue = [], gpDeadTime = DeadTime (PairEntry p)\<rparr>) ps)) w, ck'))"

definition gw_kvs :: "pair codec \<Rightarrow> (nat \<Rightarrow> read_turn) \<Rightarrow> client \<Rightarrow> response \<Rightarrow> (response \<times> client) res" where
  "gw_kvs pc env ck w =
     res_bind (client_KVs pc env ck) (\<lambda>(r, _, ck').
       Inr (case r of
          Inl e \<Rightarrow> writeError 500 (ClientErr e) w
        | Inr ps \<Rightarrow> writeJSON 200 (PairsOf (map (\<lambda>p. \<lparr>gpKey = PairKey p, gpValue = BytesToString (Value (PairEntry p)),
            gpDeadTime = DeadTime (PairEntry p)\<rparr>) ps)) w, ck'))"

text \<open>The value of a successful \<^verbatim>\<open>Get\<close> comes out of a decoded message and is never nil.\<close>

definition gw_get :: "(nat \<Rightarrow> read_turn) \<Rightarrow> http_request \<Rightarrow> client \<Rightarrow> response \<Rightarrow> (response \<times> client) res" where
  "gw_get env r ck w =
     (let key = rqQuery r ''key'' in
      if key = [] then Inr (writeError 400 (ParamRequired ''key'') w, ck)
      else res_bind (client_Get env key ck) (\<lambda>(v, _, ck').
        Inr (case v of
           Inl e \<Rightarrow> writeError 500 (ClientErr e) w
         | Inr x \<Rightarrow> writeJSON 200 (ValueOf x) w, ck')))"

definition gw_getWithPrefix :: "(nat \<Rightarrow> read_turn) \<Rightarrow> http_request \<Rightarrow> client \<Rightarrow> response \<Rightarrow> (response \<times> client) res" where
  "gw_getWithPrefix env r ck w =
     (let p = rqQuery r ''prefix'' in
      if p = [] then Inr (writeError 400 (ParamRequired ''prefix'') w, ck)
      else res_bind (client_GetWithPrefix env p ck) (\<lambda>(v, _, ck').
        Inr (case v of
           Inl e \<Rightarrow> writeError 500 (ClientErr e) w
         | Inr xs \<Rightarrow> writeJSON 200 (ValuesOf xs) w, ck')))"

subsection \<open>Writing\<close>

text \<open>
  \<^verbatim>\<open>time.Until(time.UnixMilli(d))\<close> at the time \<open>now\<close> (nanoseconds), which saturates at the ends of \<^verbatim>\<open>int64\<close>.
\<close>

definition until :: "int \<Rightarrow> int \<Rightarrow> int" where
  "until now deadline = max (- (2 ^ 63)) (min (2 ^ 63 - 1) (deadline * Millisecond - now))"

text \<open>
  The loop of \<^verbatim>\<open>put\<close>; the code reads the clock up to three times for a pair: whether the deadline has passed, how
  much is left, and in \<^verbatim>\<open>Pipe.Put\<close>. The error of \<^verbatim>\<open>Pipe.Put\<close> is not looked at.
\<close>

fun put_pairs :: "(nat \<Rightarrow> int \<times> int \<times> int) \<Rightarrow> nat \<Rightarrow> gw_pair list \<Rightarrow> pipe \<Rightarrow> pipe" where
  "put_pairs clk i [] p = p"
| "put_pairs clk i (x # xs) p =
     (case clk i of (t1, t2, t3) \<Rightarrow>
        if gpDeadTime x = 0 then put_pairs clk (Suc i) xs (snd (pipe_Put t3 (gpKey x) (StringToBytes (gpValue x)) 0 p))
        else if t1 > gpDeadTime x * Millisecond then put_pairs clk (Suc i) xs p
        else put_pairs clk (Suc i) xs (snd (pipe_Put t3 (gpKey x) (StringToBytes (gpValue x)) (until t2 (gpDeadTime x)) p)))"

text \<open>\<^verbatim>\<open>batch\<close> is \<^verbatim>\<open>BatchWrite\<close> of the client in its environment.\<close>

definition gw_put ::
  "gw_pair list codec \<Rightarrow> (nat \<Rightarrow> int \<times> int \<times> int) \<Rightarrow> (pipe \<Rightarrow> client \<Rightarrow> (client_error option \<times> (int \<times> put_args) list \<times> client) res) \<Rightarrow>
   http_request \<Rightarrow> client \<Rightarrow> response \<Rightarrow> (response \<times> client) res" where
  "gw_put J clk batch r ck w =
     (case dec J (rqBody r) of
        None \<Rightarrow> Inr (writeError 400 BadBody w, ck)
      | Some pairs \<Rightarrow>
          res_bind (pipe_Exec (\<lambda>p. batch p ck) (Inr (None, [], ck)) (put_pairs clk 0 pairs (client_Pipeline ck))) (\<lambda>(e, _, ck').
            Inr (case e of
               Some err \<Rightarrow> writeError 500 (ClientErr err) w
             | None \<Rightarrow> writeJSON 200 (Msg ''ok'') w, ck')))"

definition gw_putCAS ::
  "gw_pair_cas codec \<Rightarrow> (nat \<Rightarrow> write_turn) \<Rightarrow> int \<times> int \<times> int \<Rightarrow> http_request \<Rightarrow> client \<Rightarrow> response \<Rightarrow> (response \<times> client) res" where
  "gw_putCAS J env clk r ck w =
     (case dec J (rqBody r) of
        None \<Rightarrow> Inr (writeError 400 BadBody w, ck)
      | Some p \<Rightarrow>
          (case clk of (t1, t2, t3) \<Rightarrow>
             if gpDeadTime p \<noteq> 0 \<and> t1 > gpDeadTime p * Millisecond then Inr (writeJSON 200 (Msg ''ok(ignore)'') w, ck)
             else
               let ttl = (if gpDeadTime p \<noteq> 0 then until t2 (gpDeadTime p) else 0) in
               res_bind (client_CAS env t3 (gpKey p) (StringToBytes (gpOriValue p)) (StringToBytes (gpValue p)) ttl ck)
                 (\<lambda>((ok, e), _, ck').
                   Inr (case e of
                      Some err \<Rightarrow> writeError 500 (ClientErr err) w
                    | None \<Rightarrow> writeJSON 200 (Success ok) w, ck'))))"

definition gw_del :: "(nat \<Rightarrow> write_turn) \<Rightarrow> int \<Rightarrow> http_request \<Rightarrow> client \<Rightarrow> response \<Rightarrow> (response \<times> client) res" where
  "gw_del env now r ck w =
     (let key = rqQuery r ''key'' in
      if key = [] then Inr (writeError 400 (ParamRequired ''key'') w, ck)
      else res_bind (client_Delete env now key ck) (\<lambda>(e, _, ck').
        Inr (case e of
           Some err \<Rightarrow> writeError 500 (ClientErr err) w
         | None \<Rightarrow> writeJSON 200 (Msg ''ok'') w, ck')))"

definition gw_delWithPrefix :: "(nat \<Rightarrow> write_turn) \<Rightarrow> int \<Rightarrow> http_request \<Rightarrow> client \<Rightarrow> response \<Rightarrow> (response \<times> client) res" where
  "gw_delWithPrefix env now r ck w =
     (let p = rqQuery r ''prefix'' in
      if p = [] then Inr (writeError 400 (ParamRequired ''prefix'') w, ck)
      else res_bind (client_DeleteWithPrefix env now p ck) (\<lambda>(e, _, ck').
        Inr (case e of
           Some err \<Rightarrow> writeError 500 (ClientErr err) w
         | None \<Rightarrow> writeJSON 200 (Msg ''ok'') w, ck')))"

subsection \<open>Watching\<close>

definition ParseBool :: "string \<Rightarrow> bool" where
  "ParseBool v \<longleftrightarrow> v \<in> {''1'', ''t'', ''T'', ''TRUE'', ''true'', ''True''}"

text \<open>
  What the \<^verbatim>\<open>select\<close> of the streaming loop gets: the HTTP client has gone, the channel of \<^verbatim>\<open>Client.Watch\<close> is closed, an
  event, or nothing for thirty seconds; for what is written, whether that succeeds.
\<close>

datatype stream_input = ClientGone | ChannelClosed | StreamEvent watch_event bool | StreamIdle bool

text \<open>The loop over the inputs: what is written, and whether the handler has returned.\<close>

fun sse_loop :: "watch_event codec \<Rightarrow> stream_input list \<Rightarrow> response \<Rightarrow> response \<times> bool" where
  "sse_loop J [] w = (w, False)"
| "sse_loop J (x # xs) w =
     (case x of
        ClientGone \<Rightarrow> (w, True)
      | ChannelClosed \<Rightarrow>
          (write_body (PlainText (''event: stream_end'' @ [CHR 0x0A] @ ''data: {'' @ [CHR 0x22] @ ''message'' @ [CHR 0x22] @ '': '' @ [CHR 0x22] @
             ''Watch stream ended from backend'' @ [CHR 0x22] @ ''}'' @ [CHR 0x0A, CHR 0x0A])) w, True)
      | StreamEvent ev sent \<Rightarrow>
          if sent then sse_loop J xs (write_body (PlainText (''data: '' @ enc J ev @ [CHR 0x0A, CHR 0x0A])) w) else (w, True)
      | StreamIdle sent \<Rightarrow>
          if sent then sse_loop J xs (write_body (PlainText ('': keep-alive'' @ [CHR 0x0A, CHR 0x0A])) w) else (w, True))"

text \<open>
  The handler up to the loop: the request of the watch it starts, or \<open>None\<close> when it has answered. \<^verbatim>\<open>Client.Watch\<close> does
  not fail. \<open>flusher\<close> says whether the writer can stream; the first \<^verbatim>\<open>Flush\<close> sends the headers.
\<close>

definition gw_watch :: "bool \<Rightarrow> http_request \<Rightarrow> response \<Rightarrow> watch_req option \<times> response" where
  "gw_watch flusher r w =
     (let key = rqQuery r ''key''; isPrefix = ParseBool (rqQuery r ''isPrefix'');
          sendInitialState = ParseBool (rqQuery r ''sendInitialState'') in
      if key = [] then (None, writeError 400 (ParamRequired ''key'') w)
      else
        let w1 = set_header ''X-Accel-Buffering'' ''no'' (set_header ''Connection'' ''keep-alive''
                   (set_header ''Cache-Control'' ''no-cache'' (set_header ''Content-Type'' ''text/event-stream'' w))) in
        if \<not> flusher then (None, writeError 500 StreamingUnsupported w1)
        else (Some (client_Watch key ([WithSendInitialState sendInitialState] @ (if isPrefix then [WithPrefix] else []))), write_header 200 w1))"

subsection \<open>The routes\<close>

datatype route = RKeys | RGet | RGetWithPrefix | RKvs | RWatch | RPut | RPutCAS | RDel | RDelWithPrefix

definition gateway_routes :: "string \<Rightarrow> (string \<times> string \<times> route) list" where
  "gateway_routes base =
     [(''GET'', base @ ''/keys'', RKeys), (''GET'', base @ ''/key'', RGet), (''GET'', base @ ''/keysWithPrefix'', RGetWithPrefix),
      (''GET'', base @ ''/kvs'', RKvs), (''GET'', base @ ''/watch'', RWatch), (''POST'', base @ ''/put'', RPut),
      (''POST'', base @ ''/putCAS'', RPutCAS), (''DELETE'', base @ ''/key'', RDel),
      (''DELETE'', base @ ''/keysWithPrefix'', RDelWithPrefix)]"

text \<open>
  \<^verbatim>\<open>http.ServeMux\<close> on patterns that are a method and a path: \<open>Inr\<close> the route, or \<open>Inl\<close> the status it answers itself. A pattern for
  \<^verbatim>\<open>GET\<close> serves \<^verbatim>\<open>HEAD\<close> too.
\<close>

definition mux_route :: "(string \<times> string \<times> 'r) list \<Rightarrow> http_request \<Rightarrow> int + 'r" where
  "mux_route rs r =
     (case filter (\<lambda>(m, p, _). p = rqPath r \<and> (m = rqMethod r \<or> m = ''GET'' \<and> rqMethod r = ''HEAD'')) rs of
        (_, _, x) # _ \<Rightarrow> Inr x
      | [] \<Rightarrow> Inl (if \<exists>(m, p, _) \<in> set rs. p = rqPath r then 405 else 404))"

subsection \<open>Service discovery\<close>

text \<open>
  \<^verbatim>\<open>NewServiceDiscoveryHandler\<close> takes the store for the watcher too if it is one (\<open>w\<close>), and otherwise a watcher whose channels are closed
  at once.
\<close>

definition noopWatcher :: watcher_if where
  "noopWatcher = \<lparr>wa_Watch = (\<lambda>key opts. ClosedChan)\<rparr>"

record 's ServiceDiscoveryHandler =
  shRegistry :: "'s kvstore"
  shDiscovery :: "'s kvstore \<times> watcher_if"

definition NewServiceDiscoveryHandler :: "'s kvstore \<Rightarrow> watcher_if option \<Rightarrow> 's ServiceDiscoveryHandler" where
  "NewServiceDiscoveryHandler S w =
     (let watcher = (case w of Some x \<Rightarrow> x | None \<Rightarrow> noopWatcher) in \<lparr>shRegistry = S, shDiscovery = (S, watcher)\<rparr>)"

text \<open>
  \<^verbatim>\<open>ServiceDiscoveryHandler\<close> holds a registry and a discoverer over one \<^verbatim>\<open>KVStore\<close>. The end that all handlers share: the
  status, and only then the content type.
\<close>

definition reply_json :: "int \<Rightarrow> payload \<Rightarrow> response \<Rightarrow> response" where
  "reply_json status p w = write_body p (set_header ''Content-Type'' ''application/json'' (write_header status w))"

record RegisterServiceRequest =
  rsrServiceName :: string
  rsrServiceID :: string
  rsrEndpoint :: string
  rsrTTL :: int
  rsrMetadata :: "(string, string) fmap"

text \<open>\<^verbatim>\<open>time.Duration(ttl) * time.Second\<close> wraps at 64 bits.\<close>

definition duration_s :: "int \<Rightarrow> int" where
  "duration_s s = sint (of_int (s * Second) :: 64 word)"

definition method_not_allowed :: "response \<Rightarrow> response" where
  "method_not_allowed w = http_Error ''Method not allowed'' 405 w"

definition RegisterService ::
  "'s kvstore \<Rightarrow> RegisterServiceRequest codec \<Rightarrow> ServiceInfo codec \<Rightarrow> http_request \<Rightarrow> 's \<Rightarrow> response \<Rightarrow> response \<times> 's" where
  "RegisterService S RJ J r s w =
     (if rqMethod r \<noteq> ''POST'' then (method_not_allowed w, s)
      else case dec RJ (rqBody r) of
        None \<Rightarrow> (http_Error ''Invalid request body'' 400 w, s)
      | Some req \<Rightarrow>
          if rsrServiceName req = [] \<or> rsrServiceID req = [] \<or> rsrEndpoint req = [] then (http_Error ''Missing required fields'' 400 w, s)
          else
            let ttl = (if rsrTTL req \<le> 0 then 30 else rsrTTL req) in
            (case v3_Register S J (rsrServiceName req) (rsrServiceID req) (rsrEndpoint req) (duration_s ttl) (rsrMetadata req) s of
               (Inl e, s1) \<Rightarrow> (reply_json 500 (RegisterReply \<lparr>rrSuccess = False, rrLeaseID = 0, rrMessage = [], rrError = Some (RegistryErr e)\<rparr>) w, s1)
             | (Inr l, s1) \<Rightarrow> (reply_json 200 (RegisterReply \<lparr>rrSuccess = True, rrLeaseID = l,
                 rrMessage = ''Service registered successfully'', rrError = None\<rparr>) w, s1)))"

definition DeregisterService :: "'s kvstore \<Rightarrow> ServiceInfo codec \<Rightarrow> http_request \<Rightarrow> 's \<Rightarrow> response \<Rightarrow> response \<times> 's" where
  "DeregisterService S J r s w =
     (if rqMethod r \<noteq> ''DELETE'' then (method_not_allowed w, s)
      else
        let n = rqQuery r ''service_name''; i = rqQuery r ''service_id'' in
        if n = [] \<or> i = [] then (http_Error ''Missing service_name or service_id'' 400 w, s)
        else case v3_Deregister S J n i s of
          (Some e, s1) \<Rightarrow> (reply_json 500 (RegisterReply \<lparr>rrSuccess = False, rrLeaseID = 0, rrMessage = [], rrError = Some (RegistryErr e)\<rparr>) w, s1)
        | (None, s1) \<Rightarrow> (reply_json 200 (RegisterReply \<lparr>rrSuccess = True, rrLeaseID = 0,
            rrMessage = ''Service deregistered successfully'', rrError = None\<rparr>) w, s1))"

definition GetServices :: "'s kvstore \<Rightarrow> ServiceInfo codec \<Rightarrow> http_request \<Rightarrow> 's \<Rightarrow> response \<Rightarrow> response \<times> 's" where
  "GetServices S J r s w =
     (if rqMethod r \<noteq> ''GET'' then (method_not_allowed w, s)
      else
        let n = rqQuery r ''service_name'' in
        if n = [] then (http_Error ''Missing service_name'' 400 w, s)
        else case v3_Get S J n s of
          (Inl e, s1) \<Rightarrow> (reply_json 500 (ListReply \<lparr>lsSuccess = False, lsServices = [], lsError = Some (RegistryErr e)\<rparr>) w, s1)
        | (Inr xs, s1) \<Rightarrow> (reply_json 200 (ListReply \<lparr>lsSuccess = True, lsServices = xs, lsError = None\<rparr>) w, s1))"

definition HealthCheck :: "'s kvstore \<Rightarrow> ServiceInfo codec \<Rightarrow> http_request \<Rightarrow> 's \<Rightarrow> response \<Rightarrow> response \<times> 's" where
  "HealthCheck S J r s w =
     (if rqMethod r \<noteq> ''GET'' then (method_not_allowed w, s)
      else
        let n = rqQuery r ''service_name'' in
        if n = [] then (http_Error ''Missing service_name'' 400 w, s)
        else case v3_HealthCheck S J n s of
          (Inl e, s1) \<Rightarrow> (reply_json 500 (HealthReply \<lparr>hrSuccess = False, hrHealth = fmempty, hrError = Some (RegistryErr e)\<rparr>) w, s1)
        | (Inr h, s1) \<Rightarrow> (reply_json 200 (HealthReply \<lparr>hrSuccess = True, hrHealth = h, hrError = None\<rparr>) w, s1))"

definition gw_LoadBalancer :: "'s kvstore \<Rightarrow> ServiceInfo codec \<Rightarrow> int \<Rightarrow> http_request \<Rightarrow> 's \<Rightarrow> response \<Rightarrow> (response \<times> 's) res" where
  "gw_LoadBalancer S J now r s w =
     (if rqMethod r \<noteq> ''GET'' then Inr (method_not_allowed w, s)
      else
        let n = rqQuery r ''service_name'' in
        if n = [] then Inr (http_Error ''Missing service_name'' 400 w, s)
        else res_bind (GetInstance S J now n s) (\<lambda>(x, s1).
          Inr (case x of
             Inl e \<Rightarrow> reply_json 500 (ListReply \<lparr>lsSuccess = False, lsServices = [], lsError = Some (RegistryErr e)\<rparr>) w
           | Inr y \<Rightarrow> reply_json 200 (ListReply \<lparr>lsSuccess = True, lsServices = [y], lsError = None\<rparr>) w, s1)))"

text \<open>\<open>ParseInt\<close> with its error.\<close>

definition gw_KeepAlive :: "'s kvstore \<Rightarrow> http_request \<Rightarrow> 's \<Rightarrow> response \<Rightarrow> (response \<times> 's) res" where
  "gw_KeepAlive S r s w =
     (if rqMethod r \<noteq> ''POST'' then Inr (method_not_allowed w, s)
      else
        let v = rqQuery r ''lease_id'' in
        if v = [] then Inr (http_Error ''Missing lease_id'' 400 w, s)
        else if \<not> snd (ParseInt v) then Inr (http_Error ''Invalid lease_id'' 400 w, s)
        else res_bind (v3_KeepAlive S (fst (ParseInt v)) s) (\<lambda>(e, s1).
          Inr (case e of
             Some err \<Rightarrow> reply_json 500 (RegisterReply \<lparr>rrSuccess = False, rrLeaseID = 0, rrMessage = [], rrError = Some (RegistryErr err)\<rparr>) w
           | None \<Rightarrow> reply_json 200 (RegisterReply \<lparr>rrSuccess = True, rrLeaseID = 0, rrMessage = ''Keep alive successful'', rrError = None\<rparr>) w, s1)))"

datatype service_route = RRegister | RDeregister | RServices | RHealth | RBalance | RKeepAlive

definition RegisterRoutes :: "string \<Rightarrow> (string \<times> string \<times> service_route) list" where
  "RegisterRoutes base =
     [(''POST'', base @ ''/services/register'', RRegister), (''DELETE'', base @ ''/services/deregister'', RDeregister),
      (''GET'', base @ ''/services'', RServices), (''GET'', base @ ''/services/health'', RHealth),
      (''GET'', base @ ''/services/loadbalancer'', RBalance), (''POST'', base @ ''/services/keepalive'', RKeepAlive)]"

subsection \<open>Notions the lemmas use\<close>

text \<open>The status of a response and the content type sent with it.\<close>

definition status_of :: "response \<Rightarrow> int option" where
  "status_of w = map_option fst (rsStatus w)"

definition content_type :: "response \<Rightarrow> string option" where
  "content_type w = Option.bind (rsStatus w) (\<lambda>s. fmlookup (snd s) ''Content-Type'')"

text \<open>
  The pairs of a \<^verbatim>\<open>put\<close> that have not expired, each with the three readings of the clock, and the operation such
  a pair becomes.
\<close>

definition unexpired :: "(nat \<Rightarrow> int \<times> int \<times> int) \<Rightarrow> gw_pair list \<Rightarrow> (gw_pair \<times> int \<times> int \<times> int) list" where
  "unexpired clk xs = filter (\<lambda>(x, t1, _). gpDeadTime x = 0 \<or> t1 \<le> gpDeadTime x * Millisecond) (zip xs (map clk [0..<length xs]))"

definition pair_op :: "gw_pair \<times> int \<times> int \<times> int \<Rightarrow> op" where
  "pair_op = (\<lambda>(x, t1, t2, t3). pipe_op PutT (gpKey x) (gpValue x)
     (if gpDeadTime x = 0 \<or> t2 = gpDeadTime x * Millisecond then 0 else gpDeadTime x + (t3 - t2) div Millisecond))"

definition deadline_in_range :: "gw_pair \<Rightarrow> int \<Rightarrow> bool" where
  "deadline_in_range x t \<longleftrightarrow> - (2 ^ 63) \<le> gpDeadTime x * Millisecond - t \<and> gpDeadTime x * Millisecond - t < 2 ^ 63"

definition demo_gw_put :: "gw_pair list" where
  "demo_gw_put = [\<lparr>gpKey = ''a'', gpValue = ''1'', gpDeadTime = 0\<rparr>, \<lparr>gpKey = ''b'', gpValue = ''2'', gpDeadTime = 3\<rparr>,
     \<lparr>gpKey = ''c'', gpValue = ''3'', gpDeadTime = 9\<rparr>]"

section \<open>Lemmas\<close>

lemmas response_defs = writeError_def writeJSON_def write_body_def write_header_def set_header_def new_response_def status_of_def
  content_type_def

lemma writeError_status [simp]:
  "rsStatus w = None \<Longrightarrow> status_of (writeError st e w) = Some st \<and> content_type (writeError st e w) = Some ''application/json'' \<and>
     rsBody (writeError st e w) = rsBody w @ [Respond st (ErrorMsg e)]"
  by (simp add: response_defs)

lemma zip_Suc: "zip (x # xs) (map clk [i..<i + length (x # xs)]) = (x, clk i) # zip xs (map clk [Suc i..<Suc i + length xs])"
proof -
  have "[i..<i + length (x # xs)] = i # [Suc i..<Suc i + length xs]" by (simp add: upt_conv_Cons del: upt_Suc)
  then show ?thesis by simp
qed

lemma until_add: "deadline_in_range x t2 \<Longrightarrow> dead_time t3 (until t2 (gpDeadTime x)) = gpDeadTime x + (t3 - t2) div Millisecond"
proof -
  assume "deadline_in_range x t2"
  then have "t3 + until t2 (gpDeadTime x) = (t3 - t2) + gpDeadTime x * Millisecond" by (simp add: until_def deadline_in_range_def)
  then show ?thesis unfolding dead_time_def by (simp only:) (simp add: Millisecond_def)
qed

lemma until_0: "deadline_in_range x t2 \<Longrightarrow> until t2 (gpDeadTime x) = 0 \<longleftrightarrow> t2 = gpDeadTime x * Millisecond"
  by (auto simp: until_def deadline_in_range_def)

lemma put_pairs_ops:
  assumes "\<And>j. j < length xs \<Longrightarrow> deadline_in_range (xs ! j) (fst (snd (clk (i + j))))"
  shows "Ops (put_pairs clk i xs p) = Ops p @
    map pair_op (filter (\<lambda>(x, t1, _). gpDeadTime x = 0 \<or> t1 \<le> gpDeadTime x * Millisecond) (zip xs (map clk [i..<i + length xs])))"
  using assms
proof (induction xs arbitrary: i p)
  case (Cons x xs)
  obtain t1 t2 t3 where t: "clk i = (t1, t2, t3)" by (rule prod_cases3)
  have r: "deadline_in_range x t2" using Cons.prems [of 0] t by simp
  have ih: "Ops (put_pairs clk (Suc i) xs q) = Ops q @ map pair_op
    (filter (\<lambda>(x, t1, _). gpDeadTime x = 0 \<or> t1 \<le> gpDeadTime x * Millisecond) (zip xs (map clk [Suc i..<Suc i + length xs])))" for q
    by (rule Cons.IH) (use Cons.prems [of "Suc j" for j] in auto)
  show ?case
    unfolding zip_Suc using t ih until_add [OF r] until_0 [OF r]
    by (auto simp: pipe_Put_def pipe_append_def Let_def pair_op_def StringToBytes_def)
qed simp

subsection \<open>The service handlers over a store whose reads fail\<close>

context blind_store
begin

lemma services_unavailable:
  assumes "ok s" "rqQuery r ''service_name'' \<noteq> []"
  shows "rqMethod r = ''GET'' \<Longrightarrow> status_of (fst (GetServices S J r s new_response)) = Some 500"
    and "rqMethod r = ''GET'' \<Longrightarrow> status_of (fst (HealthCheck S J r s new_response)) = Some 500"
    and "rqMethod r = ''DELETE'' \<Longrightarrow> rqQuery r ''service_id'' \<noteq> [] \<Longrightarrow> status_of (fst (DeregisterService S J r s new_response)) = Some 500"
proof -
  obtain s1 s2 s3 where "v3_Get S J (rqQuery r ''service_name'') s = (Inl (GetFailed e), s1)"
    "v3_HealthCheck S J (rqQuery r ''service_name'') s = (Inl (GetFailed e), s2)"
    "v3_Deregister S J (rqQuery r ''service_name'') (rqQuery r ''service_id'') s = (Some (ServiceNotFound e), s3)"
    using nothing_discovered(1,3) [OF assms(1)] nothing_deregistered(1) [OF assms(1)] by blast
  then show "rqMethod r = ''GET'' \<Longrightarrow> status_of (fst (GetServices S J r s new_response)) = Some 500"
    "rqMethod r = ''GET'' \<Longrightarrow> status_of (fst (HealthCheck S J r s new_response)) = Some 500"
    "rqMethod r = ''DELETE'' \<Longrightarrow> rqQuery r ''service_id'' \<noteq> [] \<Longrightarrow> status_of (fst (DeregisterService S J r s new_response)) = Some 500"
    using assms(2)
    by (simp_all add: GetServices_def HealthCheck_def DeregisterService_def reply_json_def status_of_def write_header_def write_body_def
        set_header_def new_response_def)
qed

end

text \<open>The gateway makes its handler with the client as the store: it registers services and then answers 500 to every question about them.\<close>

theorem gateway_services_unavailable:
  assumes "reads_served D K W s" "h = NewServiceDiscoveryHandler (client_store W) (Some client_watcher)"
    "rqMethod r = ''GET''" "rqQuery r ''service_name'' \<noteq> []"
  shows "status_of (fst (GetServices (fst (shDiscovery h)) J r s new_response)) = Some 500"
  using refused.services_unavailable(1) [OF assms(1,4,3)] by (simp add: assms(2) NewServiceDiscoveryHandler_def)

section \<open>Properties\<close>

text \<open>
  The gateway cannot read: whatever the state of the servers, as long as their answers are those of \<^verbatim>\<open>Get\<close>, each of the
  four handlers that read answers with status 500 and the error \<^verbatim>\<open>ErrFaild\<close> of the client, once and as JSON, and
  leaves the session of the client as it was.
\<close>

theorem gateway_reads_fail:
  assumes "client_inv ck" "served_reads D K (length (servers ck)) env" "rqQuery r ''key'' \<noteq> []" "rqQuery r ''prefix'' \<noteq> []"
    "h \<in> {gw_get env r, gw_getWithPrefix env r, gw_keys pc env, gw_kvs pc env}"
  shows "\<exists>w ck'. h ck new_response = Inr (w, ck') \<and> status_of w = Some 500 \<and> content_type w = Some ''application/json'' \<and>
    rsBody w = [Respond 500 (ErrorMsg (ClientErr ErrFaild))] \<and> same_session ck ck'"
proof -
  have n: "rsStatus new_response = None" "rsBody new_response = []" by (simp_all add: new_response_def)
  note e = writeError_status [OF n(1), of 500 "ClientErr ErrFaild"]
  note read = client_read_refused [OF assms(1,2)]
  let ?a = "\<lambda>k wp o'. \<lparr>gaKey = k, gaClientId = clientId ck, gaLatestOffset = LatestOffset ck, gaWithPrefix = wp, gaOp = o', gaPageSize = 0, gaPageIndex = 0\<rparr>"
  have p: "to_int32 0 = 0" by (simp add: to_int32_def)
  have "\<exists>ck'. h ck new_response = Inr (writeError 500 (ClientErr ErrFaild) new_response, ck') \<and> same_session ck ck'"
    using assms(5)
  proof (elim insertE emptyE)
    assume "h = gw_get env r"
    then show ?thesis using read [of "?a (rqQuery r ''key'') False GetT"] assms(3) by (auto simp: gw_get_def client_Get_def doGetValue_def)
  next
    assume "h = gw_getWithPrefix env r"
    then show ?thesis using read [of "?a (rqQuery r ''prefix'') True GetT"] assms(4)
      by (auto simp: gw_getWithPrefix_def client_GetWithPrefix_def doGetValue_def)
  next
    assume "h = gw_keys pc env"
    then show ?thesis using read [of "?a [] True GetKeysT"] p by (auto simp: gw_keys_def client_Keys_def doGetKV_def)
  next
    assume "h = gw_kvs pc env"
    then show ?thesis using read [of "?a [] True GetKVsT"] p by (auto simp: gw_kvs_def client_KVs_def doGetKV_def)
  qed
  with e n show ?thesis by auto
qed

text \<open>
  C24: What \<^verbatim>\<open>put\<close> of the gateway writes: one batch with a put for each pair of the request that has not expired, in the order of
  the request and with its value; nothing is sent when all have expired. The deadline of the operation is the one of
  the request, moved by the time that passes between the two readings of the clock, but no deadline at all when the
  pair expires at the very moment of the first of them.
\<close>

theorem gateway_put_batch:
  assumes "dec J (rqBody r) = Some pairs" "\<forall>j < length pairs. deadline_in_range (pairs ! j) (fst (snd (clk j)))"
  shows "\<exists>p. Ops p = map pair_op (unexpired clk pairs) \<and>
    gw_put J clk batch r ck w =
      (if unexpired clk pairs = [] then Inr (writeJSON 200 (Msg ''ok'') w, ck)
       else res_bind (batch p ck) (\<lambda>(e, _, ck').
         Inr (case e of Some err \<Rightarrow> writeError 500 (ClientErr err) w | None \<Rightarrow> writeJSON 200 (Msg ''ok'') w, ck')))"
proof (intro exI conjI)
  let ?p = "put_pairs clk 0 pairs (client_Pipeline ck)"
  show o: "Ops ?p = map pair_op (unexpired clk pairs)"
    using put_pairs_ops [of pairs clk 0 "client_Pipeline ck"] assms(2) by (simp add: unexpired_def client_Pipeline_def NewPipe_def)
  show "gw_put J clk batch r ck w =
      (if unexpired clk pairs = [] then Inr (writeJSON 200 (Msg ''ok'') w, ck)
       else res_bind (batch ?p ck) (\<lambda>(e, _, ck').
         Inr (case e of Some err \<Rightarrow> writeError 500 (ClientErr err) w | None \<Rightarrow> writeJSON 200 (Msg ''ok'') w, ck')))"
    using assms(1) o by (simp add: gw_put_def pipe_Exec_def)
qed

theorem gateway_reads_fail_witness:
  "\<exists>w ck'. gw_get (\<lambda>t. \<lparr>rtServers = replicate 3 up_conn, rtReply = (\<lambda>i a.
       case kv_Get (bolt_ops fm_bolt count_codec ''p'') demo_K a demo_kv of Inl p \<Rightarrow> None | Inr (r, kv') \<Rightarrow> Some r)\<rparr>)
     \<lparr>rqMethod = ''GET'', rqPath = ''/key'', rqQuery = (\<lambda>_. ''k''), rqBody = []\<rparr> demo_ck new_response = Inr (w, ck') \<and> status_of w = Some 500"
proof -
  let ?D = "bolt_ops fm_bolt count_codec ''p''"
  let ?env = "\<lambda>t :: nat. \<lparr>rtServers = replicate 3 up_conn, rtReply = (\<lambda>(i :: int) a.
       case kv_Get ?D demo_K a demo_kv of Inl p \<Rightarrow> None | Inr (r, kv') \<Rightarrow> Some r)\<rparr>"
  have "served_reads ?D demo_K 3 ?env"
    unfolding served_reads_def by (auto simp: table_ok_def up_conn_def demo_kv_def zero_raft_def GetleaderId_def split: sum.splits)
  moreover have "client_inv demo_ck" "length (servers demo_ck) = 3"
    by (simp_all add: client_inv_def table_ok_def local_ids_def demo_ck_def no_conn_def)
  ultimately show ?thesis
    using gateway_reads_fail [of demo_ck ?D demo_K ?env "\<lparr>rqMethod = ''GET'', rqPath = ''/key'', rqQuery = (\<lambda>_. ''k''), rqBody = []\<rparr>"
        "gw_get ?env \<lparr>rqMethod = ''GET'', rqPath = ''/key'', rqQuery = (\<lambda>_. ''k''), rqBody = []\<rparr>"] by fastforce
qed

theorem gateway_put_batch_witness:
  "\<exists>p :: pipe. Ops p = [pipe_op PutT ''a'' ''1'' 0, pipe_op PutT ''c'' ''3'' 9] \<and>
    gw_put (one_value demo_gw_put) (\<lambda>_. (5000000, 5000100, 5000200)) (\<lambda>p ck. Inr (None, [], ck))
      \<lparr>rqMethod = ''POST'', rqPath = ''/put'', rqQuery = (\<lambda>_. []), rqBody = ''{}''\<rparr> demo_ck new_response
      = Inr (writeJSON 200 (Msg ''ok'') new_response, demo_ck)"
proof -
  let ?clk = "\<lambda>_ :: nat. (5000000, 5000100, 5000200) :: int \<times> int \<times> int"
  have u: "unexpired ?clk demo_gw_put = [(demo_gw_put ! 0, ?clk 0), (demo_gw_put ! 2, ?clk 2)]"
    by (simp add: unexpired_def demo_gw_put_def Millisecond_def numeral_3_eq_3)
  have r: "\<forall>j < length demo_gw_put. deadline_in_range (demo_gw_put ! j) (fst (snd (?clk j)))"
    by (auto simp: demo_gw_put_def deadline_in_range_def Millisecond_def less_Suc_eq)
  have d: "dec (one_value demo_gw_put) (rqBody \<lparr>rqMethod = ''POST'', rqPath = ''/put'', rqQuery = (\<lambda>_. []), rqBody = ''{}''\<rparr>) = Some demo_gw_put"
    by (simp add: one_value_def)
  obtain p :: pipe where p: "Ops p = map pair_op (unexpired ?clk demo_gw_put)" "gw_put (one_value demo_gw_put) ?clk (\<lambda>p ck. Inr (None, [], ck))
      \<lparr>rqMethod = ''POST'', rqPath = ''/put'', rqQuery = (\<lambda>_. []), rqBody = ''{}''\<rparr> demo_ck new_response
      = Inr (writeJSON 200 (Msg ''ok'') new_response, demo_ck)"
    using gateway_put_batch [OF d r, of "\<lambda>p ck. Inr (None, [], ck)" demo_ck new_response] by (auto simp: u)
  have "map pair_op (unexpired ?clk demo_gw_put) = [pipe_op PutT ''a'' ''1'' 0, pipe_op PutT ''c'' ''3'' 9]"
    unfolding u by (simp add: demo_gw_put_def pair_op_def Millisecond_def)
  with p show ?thesis by (intro exI [of _ p]) simp
qed

end
