(* ===== verification/Startup.thy ===== *)
theory Startup
  imports Tls RaftPersist Replica Gateway
begin

text \<open>
  How the programs start: \<^verbatim>\<open>main\<close> of \<^verbatim>\<open>src/cmd/etcd\<close> and \<^verbatim>\<open>src/cmd/gateway\<close>, what \<^verbatim>\<open>raft.Make\<close> and
  \<^verbatim>\<open>StartKVServer\<close> do with the network (\<^verbatim>\<open>StartRaft\<close>, \<^verbatim>\<open>WaitConnect\<close>, \<^verbatim>\<open>NewRaftClient\<close>), and the client
  connections of \<^verbatim>\<open>NewKvConn\<close>. The states they build are those of the other theories, and the processes of a cluster
  started on empty directories satisfy what the theorems on clusters assume.

  Whether a listener can be opened at an address, whether \<^verbatim>\<open>grpc.NewClient\<close> succeeds at the \<open>k\<close>-th attempt
  and whether dialling succeeds are parameters.
\<close>

section \<open>Definitions\<close>

subsection \<open>Peers\<close>

text \<open>The Raft client of \<^verbatim>\<open>src/raft/grpc.go\<close>: its endpoint, with the connection.\<close>

record raft_client =
  rcConf :: RaftEnd

definition NewRaftClient :: "(string \<Rightarrow> bool) \<Rightarrow> RaftEnd \<Rightarrow> raft_client option" where
  "NewRaftClient newClient conf = (if newClient (rAddr conf @ rPort conf) then Some \<lparr>rcConf = conf\<rparr> else None)"

definition StartRaft :: "(string \<Rightarrow> bool) \<Rightarrow> RaftEnd \<Rightarrow> unit res" where
  "StartRaft listen conf = (if listen (rAddr conf @ rPort conf) then Inr () else Inl LoggerFatal)"

text \<open>The loop of a goroutine of \<^verbatim>\<open>WaitConnect\<close> from its \<open>k\<close>-th attempt on; \<open>None\<close> if it never ends.\<close>

partial_function (option) connect_loop :: "(nat \<Rightarrow> string \<Rightarrow> bool) \<Rightarrow> RaftEnd \<Rightarrow> nat \<Rightarrow> raft_client option" where
  "connect_loop newClient conf k =
     (case NewRaftClient (newClient k) conf of Some r \<Rightarrow> Some r | None \<Rightarrow> connect_loop newClient conf (Suc k))"

text \<open>
  \<^verbatim>\<open>WaitConnect\<close>: one goroutine for each endpoint but its own, waited for with a counter that starts at the number
  of endpoints less one and panics below zero.
\<close>

definition WaitConnect :: "(nat \<Rightarrow> string \<Rightarrow> bool) \<Rightarrow> RaftEnds \<Rightarrow> raft_client option list res" where
  "WaitConnect newClient conf =
     (let n = length (Endpoints conf);
          slot = (\<lambda>i. if int i = Me conf then None else connect_loop newClient (Endpoints conf ! i) 0);
          slots = map slot [0..<n];
          finished = length (filter (\<lambda>s. s \<noteq> None) slots) in
      if n = 0 then Inl WaitGroupPanic
      else if finished < n - 1 then Inl Deadlock
      else if n - 1 < finished then Inl WaitGroupPanic
      else Inr slots)"

text \<open>The end of \<^verbatim>\<open>Make\<close>.\<close>

definition make_network ::
  "(string \<Rightarrow> bool) \<Rightarrow> (nat \<Rightarrow> string \<Rightarrow> bool) \<Rightarrow> RaftEnds \<Rightarrow> int \<Rightarrow> raft_client option list res" where
  "make_network listen newClient conf m =
     res_bind (go_nth (Endpoints conf) m) (\<lambda>e.
     res_bind (StartRaft listen e) (\<lambda>_. WaitConnect newClient conf))"

subsection \<open>Processes\<close>

text \<open>What a process finds when it starts.\<close>

record process =
  pEnv :: "string \<Rightarrow> string"
  pPath :: string
  pDisk :: disk
  pRaftDir :: fs
  pListen :: "string \<Rightarrow> bool"
  pNewClient :: "nat \<Rightarrow> string \<Rightarrow> bool"
  pNow :: int

text \<open>A server that is running: its state, its connections to the other peers, its credentials.\<close>

record ('d, 'cert, 'pool) running =
  rConf :: Kvserver
  rServer :: "'d kvserver"
  rPeers :: "raft_client option list"
  rCreds :: "('cert, 'pool) tls_config"

definition serve_kv ::
  "'d db_ops \<Rightarrow> kv_codecs \<Rightarrow> ('cert, 'pool) x509 \<Rightarrow> process \<Rightarrow> disk \<Rightarrow> Kvserver \<Rightarrow> int \<Rightarrow> string \<Rightarrow> int \<Rightarrow>
   ('d, 'cert, 'pool) running res" where
  "serve_kv D K X p d conf m dataDir maxstate =
     res_bind (StartKVServer D K (pNow p) m dataDir (length (Endpoints (Rafts conf))) maxstate (pRaftDir p)) (\<lambda>kv.
     res_bind (make_network (pListen p) (pNewClient p) (Rafts conf) m) (\<lambda>servers.
     res_bind (server_creds X d) (\<lambda>creds.
       if pListen p (kAddr conf @ kPort conf)
       then Inr \<lparr>rConf = conf, rServer = kv, rPeers = servers, rCreds = creds\<rparr>
       else Inl LoggerFatal)))"

definition etcd_main ::
  "'d db_ops \<Rightarrow> kv_codecs \<Rightarrow> ('cert, 'pool) x509 \<Rightarrow> Kvserver yaml \<Rightarrow> process \<Rightarrow> disk \<times> ('d, 'cert, 'pool) running res" where
  "etcd_main D K X y p =
     (case Init kvserver_conf y (pEnv p) (pDisk p) (pPath p) zero_Kvserver of
        (d, Inl e) \<Rightarrow> (d, Inl e)
      | (d, Inr conf) \<Rightarrow>
          (d, if length (Endpoints (Rafts conf)) mod 2 = 0 then Inl LoggerFatal
              else if length (Endpoints (Rafts conf)) < 3 then Inl LoggerFatal
              else serve_kv D K X p d conf (Me (Rafts conf)) (DataBasePath conf) (Maxraftstate conf)))"

text \<open>
  \<^verbatim>\<open>NewKvConn\<close> with its credentials; and the gateway: its clerk, its routes, and the credentials it serves with.
\<close>

definition NewKvConn_tls ::
  "('cert, 'pool) x509 \<Rightarrow> disk \<Rightarrow> (string \<Rightarrow> bool) \<Rightarrow> string \<Rightarrow> TLSConfig option \<Rightarrow> KVconn option" where
  "NewKvConn_tls X d dial addr t = (case kvconn_creds X d t of None \<Rightarrow> None | Some creds \<Rightarrow> NewKvConn (dial addr))"

definition NewGateway :: "GatewayConf \<Rightarrow> int \<Rightarrow> int \<Rightarrow> (client \<times> GatewayConf) res" where
  "NewGateway conf r1 r2 = res_bind (MakeClerk (length (EtcdAddrs (gClerk conf))) r1 r2) (\<lambda>ck. Inr (ck, conf))"

definition gateway_Run ::
  "('cert, 'pool) x509 \<Rightarrow> disk \<Rightarrow> GatewayConf \<Rightarrow> ((string \<times> string \<times> route) list \<times> ('cert, 'pool) tls_config) res" where
  "gateway_Run X d conf = res_bind (gateway_creds X d) (\<lambda>creds. Inr (gateway_routes (BaseUrl conf), creds))"

definition gateway_main ::
  "('cert, 'pool) x509 \<Rightarrow> GatewayConf yaml \<Rightarrow> process \<Rightarrow> int \<Rightarrow> int \<Rightarrow>
   disk \<times> (client \<times> (string \<times> string \<times> route) list \<times> ('cert, 'pool) tls_config) res" where
  "gateway_main X y p r1 r2 =
     (case Init gateway_conf y (pEnv p) (pDisk p) ''config.yml'' zero_Gateway of
        (d, Inl e) \<Rightarrow> (d, Inl e)
      | (d, Inr conf) \<Rightarrow>
          (d, res_bind (NewGateway conf r1 r2) (\<lambda>(ck, conf').
                res_bind (gateway_Run X d conf') (\<lambda>(routes, creds). Inr (ck, routes, creds)))))"

text \<open>The cluster of running servers before any message is sent.\<close>

definition started_net :: "(nat \<Rightarrow> ('d, 'cert, 'pool) running) \<Rightarrow> net" where
  "started_net R = \<lparr>base = \<lparr>node = (\<lambda>p. kv_rf (rServer (R p))), pending = (\<lambda>_. None), asked = {}, replied = {}, elected = {}\<rparr>,
     sentAE = {}, repliedAE = {}\<rparr>"

text \<open>Three processes on one machine, each with its configuration file, for the witnesses.\<close>

definition member_conf :: "nat \<Rightarrow> Kvserver" where
  "member_conf p = DefaultKVServer\<lparr>Rafts := DefaultRaftEnds\<lparr>Me := int p\<rparr>\<rparr>"

definition member_yaml :: "Kvserver yaml" where
  "member_yaml = \<lparr>yMarshal = (\<lambda>c. if c = DefaultKVServer then Some [] else None),
     yUnmarshal = (\<lambda>b c. Some (member_conf (length b)))\<rparr>"

definition member_disk :: "nat \<Rightarrow> disk" where
  "member_disk p = demo_disk\<lparr>files := map_of
     [(certs_dir @ ''server.crt'', ''server''), (certs_dir @ ''server.key'', ''key''), (certs_dir @ ''ca.crt'', ''ca''),
      (''certs/server.crt'', ''server''), (''certs/server.key'', ''key''), (''certs/ca.crt'', ''ca''),
      (''config.yml'', replicate p CHR ''x'')]\<rparr>"

definition member :: "nat \<Rightarrow> process" where
  "member p = \<lparr>pEnv = (\<lambda>_. []), pPath = ''config.yml'', pDisk = member_disk p, pRaftDir = empty_fs, pListen = (\<lambda>_. True),
     pNewClient = (\<lambda>k _. 2 \<le> k), pNow = 0\<rparr>"

definition member_running :: "nat \<Rightarrow> ((bytes, bytes) fmap boltdb, bytes, bytes) running" where
  "member_running p = \<lparr>rConf = member_conf p,
     rServer = \<lparr>kv_me = int p, kv_rf = demo_peer p, kv_dead = False, maxraftstate = 100000, lastAppliedIndex = 0,
       db = op_New (bolt_ops fm_bolt count_codec ''p''), duplicateMap = fmempty, watcherManager = NewWatcherManager,
       eventNotifier = [], leaseMgr = NewLeaseManager Second\<rparr>,
     rPeers = map (\<lambda>i. if i = p then None else Some \<lparr>rcConf = Endpoints DefaultRaftEnds ! i\<rparr>) [0..<3],
     rCreds = zero_tls_config\<lparr>tCertificates := [''server''], tClientCAs := Some ''ca'', tClientAuth := True,
       tMinVersion := VersionTLS12, tNextProtos := [''h2'']\<rparr>\<rparr>"

section \<open>Lemmas\<close>

lemma connect_loop_conf: "connect_loop newClient conf k = Some r \<Longrightarrow> rcConf r = conf"
  by (erule connect_loop.raw_induct [rotated]) (auto simp: NewRaftClient_def split: if_splits)

lemma connect_loop_ends:
  assumes "newClient k (rAddr conf @ rPort conf)" "j \<le> k"
  shows "connect_loop newClient conf j = Some \<lparr>rcConf = conf\<rparr>"
  using assms(2)
proof (induction rule: inc_induct)
  case base
  show ?case using assms(1) by (subst connect_loop.simps) (simp add: NewRaftClient_def)
next
  case (step j)
  then show ?case by (subst connect_loop.simps) (simp add: NewRaftClient_def)
qed

lemma WaitConnect_Inr:
  assumes w: "WaitConnect newClient conf = Inr slots" and m: "0 \<le> Me conf" "Me conf < int (length (Endpoints conf))"
  shows "slots = map (\<lambda>i. if int i = Me conf then None else Some \<lparr>rcConf = Endpoints conf ! i\<rparr>) [0..<length (Endpoints conf)]"
proof (rule nth_equalityI)
  let ?n = "length (Endpoints conf)" and ?m = "nat (Me conf)"
  let ?slot = "\<lambda>i. if int i = Me conf then None else connect_loop newClient (Endpoints conf ! i) 0"
  have s: "slots = map ?slot [0..<?n]" and c: "length (filter (\<lambda>s. s \<noteq> None) slots) = ?n - 1"
    using w by (auto simp: WaitConnect_def Let_def split: if_splits)
  then show "length slots = length (map (\<lambda>i. if int i = Me conf then None else Some \<lparr>rcConf = Endpoints conf ! i\<rparr>) [0..<?n])" by simp
  have "card {j. j < ?n \<and> slots ! j \<noteq> None} = ?n - 1"
    using c unfolding length_filter_conv_card by (simp add: s)
  moreover have "{j. j < ?n \<and> slots ! j \<noteq> None} \<subseteq> {..<?n} - {?m}" using m by (auto simp: s)
  moreover have "card ({..<?n} - {?m}) = ?n - 1" using m by simp
  ultimately have "{j. j < ?n \<and> slots ! j \<noteq> None} = {..<?n} - {?m}" by (intro card_subset_eq) simp_all
  then have f: "slots ! j \<noteq> None" if "j \<in> {..<?n} - {?m}" for j using that by blast
  fix i assume "i < length slots"
  with s have i: "i < ?n" by simp
  show "slots ! i = map (\<lambda>i. if int i = Me conf then None else Some \<lparr>rcConf = Endpoints conf ! i\<rparr>) [0..<?n] ! i"
  proof (cases "int i = Me conf")
    case False
    then have "i \<in> {..<?n} - {?m}" using i m by auto
    then obtain r where "slots ! i = Some r" using f by blast
    with i False have "slots ! i = Some r" "rcConf r = Endpoints conf ! i" by (auto simp: s dest: connect_loop_conf)
    with i False show ?thesis by (cases r) simp
  qed (use i in \<open>simp add: s\<close>)
qed

lemma make_network_Inr:
  assumes "make_network listen newClient conf m = Inr slots"
  shows "0 \<le> m" "m < int (length (Endpoints conf))" "WaitConnect newClient conf = Inr slots"
  using assms by (auto simp: make_network_def res_simps)

lemma etcd_main_Inr:
  assumes "etcd_main D K X y p = (d, Inr R)"
  shows "Init kvserver_conf y (pEnv p) (pDisk p) (pPath p) zero_Kvserver = (d, Inr (rConf R))"
    and "odd (length (Endpoints (Rafts (rConf R))))" "3 \<le> length (Endpoints (Rafts (rConf R)))"
    and "StartKVServer D K (pNow p) (Me (Rafts (rConf R))) (DataBasePath (rConf R)) (length (Endpoints (Rafts (rConf R))))
       (Maxraftstate (rConf R)) (pRaftDir p) = Inr (rServer R)"
    and "make_network (pListen p) (pNewClient p) (Rafts (rConf R)) (Me (Rafts (rConf R))) = Inr (rPeers R)"
  using assms
  by (auto simp: etcd_main_def serve_kv_def res_simps odd_iff_mod_2_eq_one split: prod.splits sum.splits if_splits)

lemma StartKVServer_peer:
  assumes "StartKVServer D K now m data n maxstate f = Inr kv"
  shows "kv_me kv = m" "raft_Make (raftC K) now m (path_join data (''raft-'' @ itoa m)) n f = Inr (kv_rf kv)"
  using assms by (auto simp: StartKVServer_def res_simps)

lemma Make_peers: "raft_Make C now m data n f = Inr rf \<Longrightarrow> peers rf = n"
  by (auto simp: raft_Make_def res_bind_Inr_iff split: sum.splits)

lemma Make_fresh_peer: "raft_Make C now (int p) d n empty_fs = Inr rf \<Longrightarrow> RaftCluster.fresh_peer n p rf"
  by (auto simp: Make_fresh restarted_def zero_raft_def RaftCluster.fresh_peer_def sent_def)

lemma started_net_start:
  assumes "\<And>p. p < n \<Longrightarrow> etcd_main D K X y (P p) = (d p, Inr (R p)) \<and> pRaftDir (P p) = empty_fs \<and>
     length (Endpoints (Rafts (rConf (R p)))) = n \<and> Me (Rafts (rConf (R p))) = int p"
  shows "net_start n (started_net R)"
proof -
  have "RaftCluster.fresh_peer n p (kv_rf (rServer (R p)))" if "p < n" for p
  proof -
    note p = assms [OF that]
    then have "StartKVServer D K (pNow (P p)) (int p) (DataBasePath (rConf (R p))) n (Maxraftstate (rConf (R p))) empty_fs
        = Inr (rServer (R p))" using etcd_main_Inr(4) [of D K X y "P p"] by metis
    then show ?thesis by (rule Make_fresh_peer [OF StartKVServer_peer(2)])
  qed
  then show ?thesis by (simp add: net_start_def started_net_def)
qed

lemma member_init: "Init kvserver_conf member_yaml (\<lambda>_. []) (member_disk p) ''config.yml'' zero_Kvserver = (member_disk p, Inr (member_conf p))"
proof -
  have "init_read kvserver_conf member_yaml (\<lambda>_. []) (member_disk p) ''config.yml'' zero_Kvserver =
      accepted kvserver_conf (member_disk p) (kvserver_override (\<lambda>_. []) (member_conf p))"
    by (rule kvconf.read_back [where out = "replicate p CHR ''x''"])
      (simp_all add: member_disk_def demo_disk_def member_yaml_def certs_dir_def)
  also have "\<dots> = Inr (member_conf p)"
    by (simp add: accepted_def kvserver_conf_def kvserver_Validate_def tls_Validate_None_iff member_conf_def DefaultKVServer_def
        zero_TLSConfig_def checkFileExists_None_iff Stat_def member_disk_def demo_disk_def certs_dir_def)
  finally show ?thesis by (simp add: Init_def Stat_def member_disk_def demo_disk_def certs_dir_def)
qed

lemma member_network: "p < 3 \<Longrightarrow> WaitConnect (\<lambda>k _. 2 \<le> k) (DefaultRaftEnds\<lparr>Me := int p\<rparr>) =
    Inr (map (\<lambda>i. if i = p then None else Some \<lparr>rcConf = Endpoints DefaultRaftEnds ! i\<rparr>) [0..<3])"
  by (auto simp: WaitConnect_def DefaultRaftEnds_def Let_def upt_rec connect_loop_ends [where k = 2])

lemma member_server:
  "StartKVServer (bolt_ops fm_bolt count_codec ''p'') demo_K 0 (int p) ''data'' 3 100000 empty_fs = Inr (rServer (member_running p))"
proof -
  have "raft_Make (raftC demo_K) 0 (int p) (path_join ''data'' (''raft-'' @ itoa (int p))) 3 empty_fs = Inr (demo_peer p)"
    by (simp add: Make_fresh restarted_def demo_peer_def zero_raft_def fresh_wal_def numeral_3_eq_3)
  then show ?thesis by (simp add: StartKVServer_def member_running_def)
qed

lemma member_starts:
  assumes "p < 3"
  shows "etcd_main (bolt_ops fm_bolt count_codec ''p'') demo_K demo_x509 member_yaml (member p) = (member_disk p, Inr (member_running p))"
proof -
  have e: "Endpoints (Rafts (member_conf p)) = Endpoints DefaultRaftEnds" "length (Endpoints DefaultRaftEnds) = 3"
    "Rafts (member_conf p) = DefaultRaftEnds\<lparr>Me := int p\<rparr>" "DataBasePath (member_conf p) = ''data''" "Maxraftstate (member_conf p) = 100000"
    by (simp_all add: member_conf_def DefaultRaftEnds_def DefaultKVServer_def)
  have n: "make_network (\<lambda>_. True) (\<lambda>k _. 2 \<le> k) (DefaultRaftEnds\<lparr>Me := int p\<rparr>) (int p) = Inr (rPeers (member_running p))"
    using assms by (simp add: make_network_def StartRaft_def go_nth_def e member_network member_running_def)
  have c: "server_creds demo_x509 (member_disk p) = Inr (rCreds (member_running p))"
    by (simp add: server_creds_def serving_creds_def LoadX509KeyPair_def ReadFile_def demo_x509_def member_disk_def demo_disk_def
        certs_dir_def member_running_def)
  show ?thesis
    using member_init [of p] n c member_server [of p]
    by (simp add: etcd_main_def serve_kv_def member_def e) (simp add: member_running_def)
qed

section \<open>Properties\<close>

text \<open>
  C25: a server that \<^verbatim>\<open>main\<close> has started is one of an odd number of at least three peers: its own number is the
  index of one of the endpoints, its Raft peer counts all of them, it has a connection for every other endpoint and none
  for itself, and its configuration has been validated. Every other configuration ends the process.
\<close>

theorem etcd_main_well_formed:
  assumes "etcd_main D K X y p = (d, Inr R)"
  shows "let c = Rafts (rConf R); n = length (Endpoints c) in
     odd n \<and> 3 \<le> n \<and> 0 \<le> Me c \<and> Me c < int n \<and> kv_me (rServer R) = Me c \<and> peers (kv_rf (rServer R)) = n \<and>
     rPeers R = map (\<lambda>i. if int i = Me c then None else Some \<lparr>rcConf = Endpoints c ! i\<rparr>) [0..<n] \<and>
     kvserver_Validate d (rConf R) = None"
proof -
  let ?c = "Rafts (rConf R)"
  note c = etcd_main_Inr [OF assms]
  note m = make_network_Inr [OF c(5)] and k = StartKVServer_peer [OF c(4)]
  note w = WaitConnect_Inr [OF m(3) m(1,2)]
  have "peers (kv_rf (rServer R)) = length (Endpoints ?c)"
    by (rule Make_peers [OF k(2)])
  moreover have "kvserver_Validate d (rConf R) = None" using kvconf.init_valid(1) [OF c(1)] by (simp add: kvserver_conf_def)
  ultimately show ?thesis using c(2,3) m(1,2) k(1) w by (simp add: Let_def)
qed

theorem etcd_main_well_formed_witness:
  "\<exists>d R. etcd_main (bolt_ops fm_bolt count_codec ''p'') demo_K demo_x509 member_yaml (member 1) = (d, Inr R) \<and>
     Me (Rafts (rConf R)) = 1 \<and> length (Endpoints (Rafts (rConf R))) = 3 \<and> map (\<lambda>r. r = None) (rPeers R) = [False, True, False] \<and>
     kvserver_Validate d (rConf R) = None"
proof -
  have m: "etcd_main (bolt_ops fm_bolt count_codec ''p'') demo_K demo_x509 member_yaml (member 1) = (member_disk 1, Inr (member_running 1))"
    by (rule member_starts) simp
  have "length (Endpoints (Rafts (rConf (member_running 1)))) = 3" "Me (Rafts (rConf (member_running 1))) = 1"
    by (simp_all add: member_running_def member_conf_def DefaultRaftEnds_def)
  moreover have "[0..<3] = [0, 1, 2 :: nat]" by (simp add: upt_rec)
  moreover from calculation etcd_main_well_formed [OF m] have "map (\<lambda>r. r = None) (rPeers (member_running 1)) = [False, True, False]"
    "kvserver_Validate (member_disk 1) (rConf (member_running 1)) = None" by (simp_all add: Let_def)
  ultimately show ?thesis using m by (intro exI conjI)
qed



end
