(* ===== verification/Demo.thy ===== *)
theory Demo
  imports Config Gateway
begin

text \<open>
  The demo of service discovery, \<^verbatim>\<open>src/demo\<close>: the user service, the order service, the API gateway in front of them, and the
  client that finds and calls them. They register in and discover through the registry of \<^verbatim>\<open>Discovery\<close>.

  A service is a function of the request to the answer; \<^verbatim>\<open>http.ServeMux\<close> is modelled with its patterns. The JSON of an answer
  is a value of type \<open>json\<close> that the parameter \<open>demo_json\<close> turns into bytes and back; a \<^verbatim>\<open>float64\<close> is the decimal it is
  written as, and a map is listed in the order of its keys, as \<^verbatim>\<open>encoding/json\<close> writes it. Headers of requests are not
  modelled: no handler reads them. Logging is left out, and time is a parameter.
\<close>

section \<open>Definitions\<close>

subsection \<open>Routing\<close>

text \<open>\<^verbatim>\<open>cleanPath\<close> of \<^verbatim>\<open>net/http\<close>, and patterns of literal and wildcard segments.\<close>

definition cleanPath :: "string \<Rightarrow> string" where
  "cleanPath p =
     (if p = [] then ''/''
      else let q = (if hd p = CHR ''/'' then p else CHR ''/'' # p); np = Clean q in
        if last q = CHR ''/'' \<and> np \<noteq> ''/'' then np @ ''/'' else np)"

datatype pattern_seg = Lit string | Wild

definition seg_matches :: "pattern_seg \<Rightarrow> string \<Rightarrow> bool" where
  "seg_matches q s = (case q of Lit l \<Rightarrow> s = l | Wild \<Rightarrow> s \<noteq> [])"

definition path_matches :: "pattern_seg list \<Rightarrow> string \<Rightarrow> bool" where
  "path_matches qs p \<longleftrightarrow> list_all2 seg_matches qs (tl (split_slash p))"

text \<open>The handler of a request, or the status \<^verbatim>\<open>ServeMux\<close> answers itself: a redirect to the clean path, 405 or 404.\<close>

definition serve_mux :: "(string \<times> pattern_seg list \<times> 'h) list \<Rightarrow> http_request \<Rightarrow> int + 'h" where
  "serve_mux routes r =
     (if cleanPath (rqPath r) \<noteq> rqPath r then Inl 301
      else case filter (\<lambda>(m, qs, _). path_matches qs (rqPath r) \<and> (m = rqMethod r \<or> m = ''GET'' \<and> rqMethod r = ''HEAD'')) routes of
        (_, _, h) # _ \<Rightarrow> Inr h
      | [] \<Rightarrow> Inl (if list_ex (\<lambda>(_, qs, _). path_matches qs (rqPath r)) routes then 405 else 404))"

definition mux_answer :: "int \<Rightarrow> http_request \<Rightarrow> response \<Rightarrow> response" where
  "mux_answer status r w =
     (if status = 301 then write_header 301 (set_header ''Location'' (cleanPath (rqPath r)) w)
      else if status = 405 then http_Error ''Method Not Allowed'' 405 w
      else http_Error ''404 page not found'' 404 w)"

subsection \<open>Data\<close>

datatype json = JString string | JInt int | JBool bool | JFloat string | JList "json list" | JObj "(string \<times> json) list"
  | JService ServiceInfo

record UserInfo =
  uiID :: string
  uiName :: string
  uiEmail :: string

record Order =
  oID :: string
  oUserID :: string
  oProductID :: string
  oQuantity :: int
  oTotalPrice :: string
  oStatus :: string
  oCreateAt :: string
  oUserInfo :: "UserInfo option"

record User =
  uID :: string
  uName :: string
  uEmail :: string
  uAge :: int
  uCreateAt :: string

text \<open>
  \<^verbatim>\<open>encoding/json\<close> at the types of the demo: what \<^verbatim>\<open>Encode\<close> writes, and what \<^verbatim>\<open>Decode\<close> reads into a map, a user, an order,
  and the answer of the user service.
\<close>

record demo_json =
  jEncode :: "json \<Rightarrow> bytes"
  jDecodeMap :: "bytes \<Rightarrow> json option"
  jDecodeUser :: "bytes \<Rightarrow> User option"
  jDecodeOrder :: "bytes \<Rightarrow> Order option"
  jDecodeUserReply :: "bytes \<Rightarrow> (bool \<times> UserInfo) option"

definition userinfo_json :: "UserInfo \<Rightarrow> json" where
  "userinfo_json i = JObj [(''id'', JString (uiID i)), (''name'', JString (uiName i)), (''email'', JString (uiEmail i))]"

definition order_json :: "Order \<Rightarrow> json" where
  "order_json o' = JObj ([(''id'', JString (oID o')), (''user_id'', JString (oUserID o')), (''product_id'', JString (oProductID o')),
     (''quantity'', JInt (oQuantity o')), (''total_price'', JFloat (oTotalPrice o')), (''status'', JString (oStatus o')),
     (''create_at'', JString (oCreateAt o'))]
     @ (case oUserInfo o' of None \<Rightarrow> [] | Some i \<Rightarrow> [(''user_info'', userinfo_json i)]))"

definition user_json :: "User \<Rightarrow> json" where
  "user_json v = JObj [(''id'', JString (uID v)), (''name'', JString (uName v)), (''email'', JString (uEmail v)),
     (''age'', JInt (uAge v)), (''create_at'', JString (uCreateAt v))]"

text \<open>The clock: seconds, the date, date and time, and what \<^verbatim>\<open>time.Since(time.Now())\<close> comes to.\<close>

record demo_clock =
  ckUnix :: int
  ckDate :: string
  ckDateTime :: string
  ckSince :: string

text \<open>A service: its port and instance, and whether its \<^verbatim>\<open>discovery\<close> is not nil.\<close>

record demo_server =
  dsPort :: string
  dsInstance :: string
  dsDiscovery :: bool

definition encode_json :: "demo_json \<Rightarrow> json \<Rightarrow> response \<Rightarrow> response" where
  "encode_json E v w = write_body (PlainText (jEncode E v)) (set_header ''Content-Type'' ''application/json'' w)"

text \<open>\<^verbatim>\<open>s.discovery.Get\<close>.\<close>

definition service_Get ::
  "'s kvstore \<Rightarrow> ServiceInfo codec \<Rightarrow> demo_server \<Rightarrow> string \<Rightarrow> 's \<Rightarrow> ((registry_error + ServiceInfo list) \<times> 's) res" where
  "service_Get S J s name st = (if dsDiscovery s then Inr (v3_Get S J name st) else Inl NilDereference)"

definition count_of :: "registry_error + ServiceInfo list \<Rightarrow> int" where
  "count_of r = (case r of Inl _ \<Rightarrow> 0 | Inr xs \<Rightarrow> int (length xs))"

definition health_json :: "string \<Rightarrow> demo_clock \<Rightarrow> demo_server \<Rightarrow> json" where
  "health_json name k s = JObj [(''instance'', JString (dsInstance s)), (''port'', JString (dsPort s)), (''service'', JString name),
     (''status'', JString ''healthy''), (''timestamp'', JInt (ckUnix k))]"

subsection \<open>The user service\<close>

text \<open>The configuration of the client in \<^verbatim>\<open>NewUserService\<close>, in \<^verbatim>\<open>Start\<close>, and in the other programs.\<close>

definition demo_clerk :: "string \<Rightarrow> Clerk" where
  "demo_clerk certs = \<lparr>EtcdAddrs = [''127.0.0.1:51240'', ''127.0.0.1:51241'', ''127.0.0.1:51242''],
     cTLS = Some (zero_TLSConfig\<lparr>CertFile := certs @ ''client.crt'', KeyFile := certs @ ''client.key'', CAFile := certs @ ''ca.crt''\<rparr>)\<rparr>"

definition demo_certs_dir :: string where
  "demo_certs_dir = ''/home/wanggang/firEtcd/pkg/tls/certs/''"

definition clerk_of :: "Clerk \<Rightarrow> int \<times> int \<Rightarrow> client res" where
  "clerk_of conf rnd = MakeClerk (length (EtcdAddrs conf)) (fst rnd) (snd rnd)"

definition NewUserService :: "int \<times> int \<Rightarrow> demo_clock \<Rightarrow> string \<Rightarrow> demo_server res" where
  "NewUserService rnd k port =
     res_bind (clerk_of (demo_clerk ''../pkg/tls/certs/'') rnd) (\<lambda>ck.
       Inr \<lparr>dsPort = port, dsInstance = ''user-service-'' @ port @ ''-'' @ itoa (ckUnix k), dsDiscovery = False\<rparr>)"

definition demo_metadata :: "demo_server \<Rightarrow> (string, string) fmap" where
  "demo_metadata s = fmap_of_list [(''version'', ''v1.0.0''), (''env'', ''demo''), (''port'', dsPort s)]"

text \<open>
  \<^verbatim>\<open>Start\<close> up to the signal: the state of the store with the error it returns, or the function that ends the renewal of
  the lease. And from the signal on: the service is taken out of the registry and the renewal ends.
\<close>

definition register_demo ::
  "'s kvstore \<Rightarrow> ServiceInfo codec \<Rightarrow> string \<Rightarrow> demo_server \<Rightarrow> 's \<Rightarrow> (registry_error + int) \<times> 's" where
  "register_demo S J name s st =
     v3_Register S J name (dsInstance s) (''localhost:'' @ dsPort s) (30 * Second) (demo_metadata s) st"

definition user_Start ::
  "'s kvstore \<Rightarrow> ServiceInfo codec \<Rightarrow> int \<times> int \<Rightarrow> demo_server \<Rightarrow> 's \<Rightarrow> (registry_error + ('s \<Rightarrow> 's)) res \<times> 's" where
  "user_Start S J rnd s st =
     (case register_demo S J ''user-service'' s st of
        (Inl e, st1) \<Rightarrow> (Inr (Inl e), st1)
      | (Inr leaseID, st1) \<Rightarrow>
          (case res_bind (clerk_of (demo_clerk demo_certs_dir) rnd) (\<lambda>ck. ks_AutoKeepAlive S st1 leaseID (10 * Second)) of
             Inl p \<Rightarrow> (Inl p, st1)
           | Inr (cancel, st2) \<Rightarrow> (Inr (Inr cancel), st2)))"

definition demo_stop ::
  "'s kvstore \<Rightarrow> ServiceInfo codec \<Rightarrow> string \<Rightarrow> demo_server \<Rightarrow> ('s \<Rightarrow> 's) \<Rightarrow> 's \<Rightarrow> registry_error option \<times> 's" where
  "demo_stop S J name s cancel st =
     (case v3_Deregister S J name (dsInstance s) st of (err, st1) \<Rightarrow> (err, cancel st1))"

definition user_list :: "User list" where
  "user_list =
     [\<lparr>uID = ''1'', uName = [CHR 0xE5, CHR 0xBC, CHR 0xA0, CHR 0xE4, CHR 0xB8, CHR 0x89], uEmail = ''zhangsan@example.com'', uAge = 25, uCreateAt = ''2024-01-01''\<rparr>,
      \<lparr>uID = ''2'', uName = [CHR 0xE6, CHR 0x9D, CHR 0x8E, CHR 0xE5, CHR 0x9B, CHR 0x9B], uEmail = ''lisi@example.com'', uAge = 30, uCreateAt = ''2024-01-02''\<rparr>]"

definition users_json :: json where
  "users_json = JObj [(''count'', JInt (int (length user_list))), (''data'', JList (map user_json user_list)), (''success'', JBool True)]"

definition user_of :: "string \<Rightarrow> User" where
  "user_of userID = \<lparr>uID = userID, uName = [CHR 0xE7, CHR 0x94, CHR 0xA8, CHR 0xE6, CHR 0x88, CHR 0xB7] @ userID,
     uEmail = ''user'' @ userID @ ''@example.com'', uAge = 25, uCreateAt = ''2024-01-01''\<rparr>"

definition user_get :: "demo_json \<Rightarrow> http_request \<Rightarrow> response \<Rightarrow> response" where
  "user_get E r w =
     (if length (rqPath r) < 8 then http_Error ''Invalid user ID'' 400 w
      else encode_json E (JObj [(''data'', user_json (user_of (drop 7 (rqPath r)))), (''success'', JBool True)]) w)"

definition user_create :: "demo_json \<Rightarrow> demo_clock \<Rightarrow> http_request \<Rightarrow> response \<Rightarrow> response" where
  "user_create E k r w =
     (case jDecodeUser E (rqBody r) of
        None \<Rightarrow> http_Error ''Invalid request body'' 400 w
      | Some v \<Rightarrow>
          let v' = v\<lparr>uID := itoa (ckUnix k), uCreateAt := ckDate k\<rparr> in
          write_body (PlainText (jEncode E (JObj [(''data'', user_json v'),
              (''message'', JString [CHR 0xE7, CHR 0x94, CHR 0xA8, CHR 0xE6, CHR 0x88, CHR 0xB7, CHR 0xE5, CHR 0x88, CHR 0x9B, CHR 0xE5, CHR 0xBB, CHR 0xBA, CHR 0xE6, CHR 0x88, CHR 0x90, CHR 0xE5, CHR 0x8A, CHR 0x9F]),
              (''success'', JBool True)])))
            (write_header 201 (set_header ''Content-Type'' ''application/json'' w)))"

definition info_json :: "string \<Rightarrow> string \<Rightarrow> demo_clock \<Rightarrow> demo_server \<Rightarrow> int \<Rightarrow> json" where
  "info_json name other k s n = JObj ([(''instance'', JString (dsInstance s))]
     @ (if other = ''order_services'' then [(other, JInt n)] else [])
     @ [(''port'', JString (dsPort s)), (''registered_at'', JString (ckDateTime k)), (''service'', JString name),
        (''status'', JString ''running''), (''uptime'', JString (ckSince k))]
     @ (if other = ''order_services'' then [] else [(other, JInt n)]))"

datatype user_route = UHealth | UList | UGet | UCreate | UInfo

definition user_routes :: "(string \<times> pattern_seg list \<times> user_route) list" where
  "user_routes = [(''GET'', [Lit ''health''], UHealth), (''GET'', [Lit ''users''], UList), (''GET'', [Lit ''users'', Wild], UGet),
     (''POST'', [Lit ''users''], UCreate), (''GET'', [Lit ''info''], UInfo)]"

definition user_serve ::
  "'s kvstore \<Rightarrow> ServiceInfo codec \<Rightarrow> demo_json \<Rightarrow> demo_clock \<Rightarrow> demo_server \<Rightarrow> http_request \<Rightarrow> 's \<Rightarrow> response \<Rightarrow>
   (response \<times> 's) res" where
  "user_serve S J E k s r st w =
     (case serve_mux user_routes r of
        Inl status \<Rightarrow> Inr (mux_answer status r w, st)
      | Inr UHealth \<Rightarrow> Inr (encode_json E (health_json ''user-service'' k s) w, st)
      | Inr UList \<Rightarrow> Inr (encode_json E users_json w, st)
      | Inr UGet \<Rightarrow> Inr (user_get E r w, st)
      | Inr UCreate \<Rightarrow> Inr (user_create E k r w, st)
      | Inr UInfo \<Rightarrow>
          res_bind (service_Get S J s ''order-service'' st) (\<lambda>(services, st1).
            Inr (encode_json E (info_json ''user-service'' ''order_services'' k s (count_of services)) w, st1)))"

subsection \<open>The order service\<close>

definition NewOrderService :: "int \<times> int \<Rightarrow> demo_clock \<Rightarrow> string \<Rightarrow> demo_server res" where
  "NewOrderService rnd k port =
     res_bind (clerk_of (demo_clerk demo_certs_dir) rnd) (\<lambda>ck.
       Inr \<lparr>dsPort = port, dsInstance = ''order-service-'' @ port @ ''-'' @ itoa (ckUnix k), dsDiscovery = False\<rparr>)"

text \<open>Its \<^verbatim>\<open>Start\<close> reads the configuration of its second client from a file.\<close>

definition order_config_path :: string where
  "order_config_path = ''../../cluster_config/node1/config.yml''"

definition order_Start ::
  "'s kvstore \<Rightarrow> ServiceInfo codec \<Rightarrow> Clerk yaml \<Rightarrow> (string \<Rightarrow> string) \<Rightarrow> disk \<Rightarrow> int \<times> int \<Rightarrow> demo_server \<Rightarrow> 's \<Rightarrow>
   (registry_error + ('s \<Rightarrow> 's)) res \<times> 's" where
  "order_Start S J y env d rnd s st =
     (case register_demo S J ''order-service'' s st of
        (Inl e, st1) \<Rightarrow> (Inr (Inl e), st1)
      | (Inr leaseID, st1) \<Rightarrow>
          (case res_bind (snd (Init clerk_conf y env d order_config_path zero_Clerk)) (\<lambda>conf.
                  res_bind (clerk_of conf rnd) (\<lambda>ck. ks_AutoKeepAlive S st1 leaseID (10 * Second))) of
             Inl p \<Rightarrow> (Inl p, st1)
           | Inr (cancel, st2) \<Rightarrow> (Inr (Inr cancel), st2)))"

definition order_list :: "Order list" where
  "order_list =
     [\<lparr>oID = ''1'', oUserID = ''1'', oProductID = ''product-1'', oQuantity = 2, oTotalPrice = ''199.99'', oStatus = ''pending'',
       oCreateAt = ''2024-01-01'', oUserInfo = None\<rparr>,
      \<lparr>oID = ''2'', oUserID = ''2'', oProductID = ''product-2'', oQuantity = 1, oTotalPrice = ''99.99'', oStatus = ''completed'',
       oCreateAt = ''2024-01-02'', oUserInfo = None\<rparr>]"

definition orders_json :: json where
  "orders_json = JObj [(''count'', JInt (int (length order_list))), (''data'', JList (map order_json order_list)), (''success'', JBool True)]"

text \<open>The answer to a \<^verbatim>\<open>GET\<close>: status and body, or none.\<close>

type_synonym http_get = "string \<Rightarrow> (int \<times> bytes) option"

datatype call_error = DiscoverFailed registry_error | NoServices | CallFailed | BadStatus int | BadReply | NoSuccess

definition getUserInfo ::
  "'s kvstore \<Rightarrow> ServiceInfo codec \<Rightarrow> demo_json \<Rightarrow> http_get \<Rightarrow> demo_server \<Rightarrow> string \<Rightarrow> 's \<Rightarrow> ((call_error + UserInfo) \<times> 's) res" where
  "getUserInfo S J E http s userID st =
     res_bind (service_Get S J s ''user-service'' st) (\<lambda>(services, st1).
       Inr (case services of
          Inr (x # _) \<Rightarrow>
            (case http (''http://'' @ svcEndpoint x @ ''/users/'' @ userID) of
               None \<Rightarrow> Inl CallFailed
             | Some (status, body) \<Rightarrow>
                 if status \<noteq> 200 then Inl (BadStatus status)
                 else case jDecodeUserReply E body of
                   None \<Rightarrow> Inl BadReply
                 | Some (ok, i) \<Rightarrow> if \<not> ok then Inl NoSuccess else Inr i)
        | _ \<Rightarrow> Inl NoServices, st1))"

definition order_of :: "string \<Rightarrow> Order" where
  "order_of orderID = \<lparr>oID = orderID, oUserID = ''1'', oProductID = ''product-'' @ orderID, oQuantity = 2, oTotalPrice = ''199.99'',
     oStatus = ''pending'', oCreateAt = ''2024-01-01'', oUserInfo = None\<rparr>"

definition order_get ::
  "'s kvstore \<Rightarrow> ServiceInfo codec \<Rightarrow> demo_json \<Rightarrow> http_get \<Rightarrow> demo_server \<Rightarrow> http_request \<Rightarrow> 's \<Rightarrow> response \<Rightarrow> (response \<times> 's) res" where
  "order_get S J E http s r st w =
     (if length (rqPath r) < 9 then Inr (http_Error ''Invalid order ID'' 400 w, st)
      else
        let ord = order_of (drop 9 (rqPath r)) in
        res_bind (getUserInfo S J E http s (oUserID ord) st) (\<lambda>(i, st1).
          let ord1 = (case i of Inl _ \<Rightarrow> ord | Inr x \<Rightarrow> ord\<lparr>oUserInfo := Some x\<rparr>) in
          Inr (encode_json E (JObj [(''data'', order_json ord1), (''success'', JBool True)]) w, st1)))"

definition order_create :: "demo_json \<Rightarrow> demo_clock \<Rightarrow> http_request \<Rightarrow> response \<Rightarrow> response" where
  "order_create E k r w =
     (case jDecodeOrder E (rqBody r) of
        None \<Rightarrow> http_Error ''Invalid request body'' 400 w
      | Some v \<Rightarrow>
          let v' = v\<lparr>oID := itoa (ckUnix k), oCreateAt := ckDate k, oStatus := ''pending''\<rparr> in
          write_body (PlainText (jEncode E (JObj [(''data'', order_json v'),
              (''message'', JString [CHR 0xE8, CHR 0xAE, CHR 0xA2, CHR 0xE5, CHR 0x8D, CHR 0x95, CHR 0xE5, CHR 0x88, CHR 0x9B, CHR 0xE5, CHR 0xBB, CHR 0xBA, CHR 0xE6, CHR 0x88, CHR 0x90, CHR 0xE5, CHR 0x8A, CHR 0x9F]),
              (''success'', JBool True)])))
            (write_header 201 (set_header ''Content-Type'' ''application/json'' w)))"

definition order_discovery ::
  "'s kvstore \<Rightarrow> ServiceInfo codec \<Rightarrow> demo_json \<Rightarrow> demo_clock \<Rightarrow> demo_server \<Rightarrow> 's \<Rightarrow> response \<Rightarrow> (response \<times> 's) res" where
  "order_discovery S J E k s st w =
     res_bind (service_Get S J s ''user-service'' st) (\<lambda>(us, st1).
       case us of
         Inl _ \<Rightarrow> Inr (http_Error ''Failed to discover user services'' 500 w, st1)
       | Inr users \<Rightarrow>
           res_bind (service_Get S J s ''order-service'' st1) (\<lambda>(os, st2).
             case os of
               Inl _ \<Rightarrow> Inr (http_Error ''Failed to discover order services'' 500 w, st2)
             | Inr orders \<Rightarrow>
                 Inr (encode_json E (JObj [(''order_services'', JList (map JService orders)), (''timestamp'', JInt (ckUnix k)),
                   (''user_services'', JList (map JService users))]) w, st2)))"

datatype order_route = OHealth | OList | OGet | OCreate | OInfo | ODiscovery

definition order_routes :: "(string \<times> pattern_seg list \<times> order_route) list" where
  "order_routes = [(''GET'', [Lit ''health''], OHealth), (''GET'', [Lit ''orders''], OList), (''GET'', [Lit ''orders'', Wild], OGet),
     (''POST'', [Lit ''orders''], OCreate), (''GET'', [Lit ''info''], OInfo), (''GET'', [Lit ''discovery''], ODiscovery)]"

definition order_serve ::
  "'s kvstore \<Rightarrow> ServiceInfo codec \<Rightarrow> demo_json \<Rightarrow> http_get \<Rightarrow> demo_clock \<Rightarrow> demo_server \<Rightarrow> http_request \<Rightarrow> 's \<Rightarrow> response \<Rightarrow>
   (response \<times> 's) res" where
  "order_serve S J E http k s r st w =
     (case serve_mux order_routes r of
        Inl status \<Rightarrow> Inr (mux_answer status r w, st)
      | Inr OHealth \<Rightarrow> Inr (encode_json E (health_json ''order-service'' k s) w, st)
      | Inr OList \<Rightarrow> Inr (encode_json E orders_json w, st)
      | Inr OGet \<Rightarrow> order_get S J E http s r st w
      | Inr OCreate \<Rightarrow> Inr (order_create E k r w, st)
      | Inr OInfo \<Rightarrow>
          res_bind (service_Get S J s ''user-service'' st) (\<lambda>(services, st1).
            Inr (encode_json E (info_json ''order-service'' ''user_services'' k s (count_of services)) w, st1))
      | Inr ODiscovery \<Rightarrow> order_discovery S J E k s st w)"

subsection \<open>The API gateway\<close>

definition NewGatewayService :: "int \<times> int \<Rightarrow> demo_clock \<Rightarrow> string \<Rightarrow> demo_server res" where
  "NewGatewayService rnd k port =
     res_bind (clerk_of (demo_clerk demo_certs_dir) rnd) (\<lambda>ck.
       Inr \<lparr>dsPort = port, dsInstance = ''gateway-service-'' @ port @ ''-'' @ itoa (ckUnix k), dsDiscovery = True\<rparr>)"

definition service_status :: "int \<Rightarrow> json" where
  "service_status n = JObj [(''count'', JInt n), (''status'', JString ''healthy'')]"

definition getServiceStatus ::
  "'s kvstore \<Rightarrow> ServiceInfo codec \<Rightarrow> demo_clock \<Rightarrow> demo_server \<Rightarrow> 's \<Rightarrow> (json \<times> 's) res" where
  "getServiceStatus S J k s st =
     res_bind (service_Get S J s ''user-service'' st) (\<lambda>(us, st1).
     res_bind (service_Get S J s ''order-service'' st1) (\<lambda>(os, st2).
       Inr (JObj [(''gateway'', JObj [(''instance'', JString (dsInstance s)), (''port'', JString (dsPort s)), (''status'', JString ''running'')]),
         (''services'', JObj [(''order_service'', service_status (count_of os)), (''user_service'', service_status (count_of us))]),
         (''timestamp'', JInt (ckUnix k))], st2)))"

text \<open>\<^verbatim>\<open>time.Now().UnixNano()\<close> modulo the number of services.\<close>

definition selectService :: "int \<Rightarrow> ServiceInfo list \<Rightarrow> ServiceInfo option res" where
  "selectService nano services =
     (if services = [] then Inr None
      else res_bind (go_nth services (go_rem nano (int (length services)))) (\<lambda>x. Inr (Some x)))"

text \<open>
  \<^verbatim>\<open>httputil.NewSingleHostReverseProxy\<close>: the request goes to the host of the target, and to the path of the target followed
  by the path of the request.
\<close>

definition singleJoiningSlash :: "string \<Rightarrow> string \<Rightarrow> string" where
  "singleJoiningSlash a b =
     (let aslash = (a \<noteq> [] \<and> last a = CHR ''/''); bslash = (b \<noteq> [] \<and> hd b = CHR ''/'') in
      if aslash \<and> bslash then a @ tl b
      else if \<not> aslash \<and> \<not> bslash then a @ ''/'' @ b
      else a @ b)"

definition copy_answer :: "response \<Rightarrow> response \<Rightarrow> response" where
  "copy_answer a w = w\<lparr>rsStatus := Some (case rsStatus a of None \<Rightarrow> (200, rsHeader a) | Some x \<Rightarrow> x), rsBody := rsBody a\<rparr>"

text \<open>\<open>parse\<close> is \<^verbatim>\<open>url.Parse\<close>, as the host and the path; \<open>send\<close> is what a host answers to a request.\<close>

definition forwardRequest ::
  "(string \<Rightarrow> (string \<times> string) option) \<Rightarrow> (string \<Rightarrow> http_request \<Rightarrow> response option) \<Rightarrow> http_request \<Rightarrow> string \<Rightarrow> response \<Rightarrow> response" where
  "forwardRequest parse send r targetURL w =
     (case parse targetURL of
        None \<Rightarrow> http_Error ''Invalid target URL'' 500 w
      | Some (host, path) \<Rightarrow>
          (case send host (r\<lparr>rqPath := singleJoiningSlash path (rqPath r)\<rparr>) of
             None \<Rightarrow> write_header 502 w
           | Some a \<Rightarrow> copy_answer a w))"

definition handle_service where
  "handle_service S J parse send name msg nano s r st w =
     res_bind (service_Get S J s name st) (\<lambda>(found, st1).
       case found of
         Inr (x # xs) \<Rightarrow>
           res_bind (selectService nano (x # xs)) (\<lambda>sel.
             case sel of
               None \<Rightarrow> Inl NilDereference
             | Some y \<Rightarrow> Inr (forwardRequest parse send r (''http://'' @ svcEndpoint y @ rqPath r) w, st1))
       | _ \<Rightarrow> Inr (http_Error msg 503 w, st1))"

definition handleUserService where
  "handleUserService S J parse send nano s r st w =
     handle_service S J parse send ''user-service'' ''No user services available'' nano s r st w"

definition handleOrderService where
  "handleOrderService S J parse send nano s r st w =
     handle_service S J parse send ''order-service'' ''No order services available'' nano s r st w"

definition found_or_none :: "registry_error + ServiceInfo list \<Rightarrow> ServiceInfo list" where
  "found_or_none r = (case r of Inl _ \<Rightarrow> [] | Inr xs \<Rightarrow> xs)"

definition handleDiscovery ::
  "'s kvstore \<Rightarrow> ServiceInfo codec \<Rightarrow> demo_json \<Rightarrow> demo_clock \<Rightarrow> demo_server \<Rightarrow> 's \<Rightarrow> response \<Rightarrow> (response \<times> 's) res" where
  "handleDiscovery S J E k s st w =
     res_bind (service_Get S J s ''user-service'' st) (\<lambda>(us, st1).
     res_bind (service_Get S J s ''order-service'' st1) (\<lambda>(os, st2).
       Inr (encode_json E (JObj [(''gateway'', JObj [(''instance'', JString (dsInstance s)), (''port'', JString (dsPort s))]),
         (''order_services'', JList (map JService (found_or_none os))), (''timestamp'', JInt (ckUnix k)),
         (''user_services'', JList (map JService (found_or_none us)))]) w, st2)))"

definition demo_healthCheck :: "demo_json \<Rightarrow> demo_server \<Rightarrow> response \<Rightarrow> response" where
  "demo_healthCheck E s w = encode_json E (JObj [(''instance'', JString (dsInstance s)), (''service'', JString ''gateway''),
     (''status'', JString ''healthy'')]) w"

datatype api_route = AHealth | AStatus | AUsers | AOrders | ADiscovery

definition api_routes :: "(string \<times> pattern_seg list \<times> api_route) list" where
  "api_routes = [(''GET'', [Lit ''health''], AHealth), (''GET'', [Lit ''status''], AStatus),
     (''GET'', [Lit ''api'', Lit ''users''], AUsers), (''GET'', [Lit ''api'', Lit ''users'', Wild], AUsers), (''POST'', [Lit ''api'', Lit ''users''], AUsers),
     (''GET'', [Lit ''api'', Lit ''orders''], AOrders), (''GET'', [Lit ''api'', Lit ''orders'', Wild], AOrders), (''POST'', [Lit ''api'', Lit ''orders''], AOrders),
     (''GET'', [Lit ''api'', Lit ''discovery''], ADiscovery)]"

definition api_serve where
  "api_serve S J E parse send k nano s r st w =
     (case serve_mux api_routes r of
        Inl status \<Rightarrow> Inr (mux_answer status r w, st)
      | Inr AHealth \<Rightarrow> Inr (encode_json E (health_json ''gateway-service'' k s) w, st)
      | Inr AStatus \<Rightarrow> res_bind (getServiceStatus S J k s st) (\<lambda>(status, st1). Inr (encode_json E status w, st1))
      | Inr AUsers \<Rightarrow> handleUserService S J parse send nano s r st w
      | Inr AOrders \<Rightarrow> handleOrderService S J parse send nano s r st w
      | Inr ADiscovery \<Rightarrow> handleDiscovery S J E k s st w)"

text \<open>\<^verbatim>\<open>main\<close> of the three services: the port from the environment, with a default.\<close>

definition port_of :: "string \<Rightarrow> (string \<Rightarrow> string) \<Rightarrow> string" where
  "port_of dflt env = (if env ''PORT'' = [] then dflt else env ''PORT'')"

definition user_main where
  "user_main S J rnd rnd' k env st =
     (case NewUserService rnd k (port_of ''8083'' env) of
        Inl p \<Rightarrow> (Inl p, st)
      | Inr s \<Rightarrow> (case user_Start S J rnd' s st of
          (Inr (Inl e), st1) \<Rightarrow> (Inl LoggerFatal, st1)
        | (Inr (Inr cancel), st1) \<Rightarrow> (Inr (s, cancel), st1)
        | (Inl p, st1) \<Rightarrow> (Inl p, st1)))"

definition order_main where
  "order_main S J y d rnd rnd' k env st =
     (case NewOrderService rnd k (port_of ''8084'' env) of
        Inl p \<Rightarrow> (Inl p, st)
      | Inr s \<Rightarrow> (case order_Start S J y env d rnd' s st of
          (Inr (Inl e), st1) \<Rightarrow> (Inl LoggerFatal, st1)
        | (Inr (Inr cancel), st1) \<Rightarrow> (Inr (s, cancel), st1)
        | (Inl p, st1) \<Rightarrow> (Inl p, st1)))"

definition api_main :: "int \<times> int \<Rightarrow> demo_clock \<Rightarrow> (string \<Rightarrow> string) \<Rightarrow> demo_server res" where
  "api_main rnd k env = NewGatewayService rnd k (port_of ''8080'' env)"

subsection \<open>The client\<close>

definition NewServiceClient :: "int \<times> int \<Rightarrow> client res" where
  "NewServiceClient rnd = clerk_of (demo_clerk demo_certs_dir) rnd"

definition call_service :: "demo_json \<Rightarrow> http_get \<Rightarrow> string \<Rightarrow> ServiceInfo \<Rightarrow> call_error option" where
  "call_service E http path x =
     (case http (''http://'' @ svcEndpoint x @ path) of
        None \<Rightarrow> Some CallFailed
      | Some (status, body) \<Rightarrow>
          if status \<noteq> 200 then Some (BadStatus status)
          else if jDecodeMap E body = None then Some BadReply
          else None)"

definition callUserService :: "demo_json \<Rightarrow> http_get \<Rightarrow> ServiceInfo \<Rightarrow> call_error option" where
  "callUserService E http x = call_service E http ''/users'' x"

definition callOrderService :: "demo_json \<Rightarrow> http_get \<Rightarrow> ServiceInfo \<Rightarrow> call_error option" where
  "callOrderService E http x = call_service E http ''/orders'' x"

definition discover_and_call where
  "discover_and_call S J name call st =
     (case v3_Get S J name st of
        (Inl e, st1) \<Rightarrow> (Some (DiscoverFailed e), st1)
      | (Inr [], st1) \<Rightarrow> (Some NoServices, st1)
      | (Inr (x # _), st1) \<Rightarrow> (call x, st1))"

definition DiscoverAndCallUserService where
  "DiscoverAndCallUserService S J E http st = discover_and_call S J ''user-service'' (callUserService E http) st"

definition DiscoverAndCallOrderService where
  "DiscoverAndCallOrderService S J E http st = discover_and_call S J ''order-service'' (callOrderService E http) st"

text \<open>What the watching goroutines print for the number of an event's type, \<^verbatim>\<open>pb.EventType\<close>; a nil event is passed over.\<close>

datatype log_line = Added string | Removed string | Changed int string

definition event_number :: "event_type \<Rightarrow> int" where
  "event_number t = (case t of PutEvent \<Rightarrow> 0 | DeleteEvent \<Rightarrow> 1)"

definition watch_line :: "watch_event \<Rightarrow> log_line" where
  "watch_line e =
     (if event_number (EvType e) = 1 then Added (EvKey e)
      else if event_number (EvType e) = 2 then Removed (EvKey e)
      else Changed (event_number (EvType e)) (EvKey e))"

definition watchUserServices :: "watch_event option list \<Rightarrow> log_line list" where
  "watchUserServices es = map watch_line (List.map_filter id es)"

definition watchOrderServices :: "watch_event option list \<Rightarrow> log_line list" where
  "watchOrderServices es = map watch_line (List.map_filter id es)"

definition MonitorServices :: "watch_req list" where
  "MonitorServices = [v3_Watch ''user-service'', v3_Watch ''order-service'']"

definition client_HealthCheck where
  "client_HealthCheck S J st =
     (case v3_HealthCheck S J ''user-service'' st of
        (Inl e, st1) \<Rightarrow> (Inl e, st1)
      | (Inr uh, st1) \<Rightarrow>
          (case v3_HealthCheck S J ''order-service'' st1 of
             (Inl e, st2) \<Rightarrow> (Inl e, st2)
           | (Inr oh, st2) \<Rightarrow> (Inr (uh, oh), st2)))"

text \<open>The five rounds of \<^verbatim>\<open>LoadBalancingDemo\<close>, with the two times each reads: the instances it chose.\<close>

fun LoadBalancingDemo ::
  "'s kvstore \<Rightarrow> ServiceInfo codec \<Rightarrow> (int \<times> int) list \<Rightarrow> 's \<Rightarrow> (ServiceInfo list \<times> 's) res" where
  "LoadBalancingDemo S J [] st = Inr ([], st)"
| "LoadBalancingDemo S J ((t1, t2) # ts) st =
     res_bind (GetInstance S J t1 ''user-service'' st) (\<lambda>(u, st1).
       case u of
         Inl _ \<Rightarrow> LoadBalancingDemo S J ts st1
       | Inr x \<Rightarrow>
           res_bind (GetInstance S J t2 ''order-service'' st1) (\<lambda>(v, st2).
             res_bind (LoadBalancingDemo S J ts st2) (\<lambda>(xs, st3).
               Inr (case v of Inl _ \<Rightarrow> x # xs | Inr y \<Rightarrow> x # y # xs, st3))))"

text \<open>A registry that always lists one instance, JSON that says nothing, hosts that all run the user service, for the witnesses.\<close>

definition listing :: "bytes \<Rightarrow> unit kvstore" where
  "listing b = \<lparr>ks_Put = (\<lambda>s k v t. (None, s)), ks_Get = (\<lambda>s k. (Inr b, s)), ks_Append = (\<lambda>s k v t. (None, s)), ks_Delete = (\<lambda>s k. (None, s)),
     ks_DeleteWithPrefix = (\<lambda>s p. (None, s)), ks_CAS = (\<lambda>s k u v t. (Inr True, s)), ks_GetWithPrefix = (\<lambda>s p. (Inr [b], s)),
     ks_LeaseGrant = (\<lambda>s t. (Inr 1, s)), ks_LeaseRevoke = (\<lambda>s l. (None, s)), ks_LeaseTimeToLive = (\<lambda>s l k. (Inr (1, []), s)),
     ks_AutoKeepAlive = (\<lambda>s l t. Inr (id, s))\<rparr>"

definition const_json :: demo_json where
  "const_json = \<lparr>jEncode = (\<lambda>_. ''{}''), jDecodeMap = (\<lambda>_. Some (JObj [])), jDecodeUser = (\<lambda>_. None), jDecodeOrder = (\<lambda>_. None),
     jDecodeUserReply = (\<lambda>_. None)\<rparr>"

definition demo_time :: demo_clock where
  "demo_time = \<lparr>ckUnix = 0, ckDate = ''1970-01-01'', ckDateTime = ''1970-01-01 00:00:00'', ckSince = ''0s''\<rparr>"

definition demo_users :: demo_server where
  "demo_users = \<lparr>dsPort = ''8083'', dsInstance = ''user-service-8083-0'', dsDiscovery = False\<rparr>"

definition demo_api :: demo_server where
  "demo_api = \<lparr>dsPort = ''8080'', dsInstance = ''gateway-service-8080-0'', dsDiscovery = True\<rparr>"

definition demo_instance :: ServiceInfo where
  "demo_instance = service_info ''user-service'' ''user-service-8083-0'' ''localhost:8083'' (demo_metadata demo_users) 30000 1"

definition demo_parse :: "string \<Rightarrow> (string \<times> string) option" where
  "demo_parse url = (let rest = drop 7 url; n = length rest - length ''/api/users/1'' in Some (take n rest, drop n rest))"

definition demo_send :: "string \<Rightarrow> http_request \<Rightarrow> response option" where
  "demo_send e q = (case user_serve (listing ''{}'') (one_value demo_instance) const_json demo_time demo_users q () new_response of
     Inl _ \<Rightarrow> None | Inr (a, _) \<Rightarrow> Some a)"

text \<open>A segment that cleaning a path leaves alone.\<close>

definition good_seg :: "string \<Rightarrow> bool" where
  "good_seg s \<longleftrightarrow> s \<noteq> [] \<and> s \<noteq> ''.'' \<and> s \<noteq> ''..''"

text \<open>\<^verbatim>\<open>main\<close>: every step is taken, whatever the others came to; \<open>ts\<close> are the times of the load balancer.\<close>

definition client_main where
  "client_main S J E http rnd ts st =
     res_bind (NewServiceClient rnd) (\<lambda>ck.
       case client_HealthCheck S J st of (health, st1) \<Rightarrow>
       case DiscoverAndCallUserService S J E http st1 of (users, st2) \<Rightarrow>
       case DiscoverAndCallOrderService S J E http st2 of (orders, st3) \<Rightarrow>
       res_bind (LoadBalancingDemo S J (take 5 ts) st3) (\<lambda>(chosen, st4).
         Inr (health, users, orders, chosen, MonitorServices, st4)))"

text \<open>A \<^verbatim>\<open>GET\<close> of a path, and what the caller sees of an answer.\<close>

definition get_request :: "string \<Rightarrow> http_request" where
  "get_request p = \<lparr>rqMethod = ''GET'', rqPath = p, rqQuery = (\<lambda>_. []), rqBody = []\<rparr>"

definition answer_status :: "response \<Rightarrow> int" where
  "answer_status a = (case rsStatus a of None \<Rightarrow> 200 | Some (status, _) \<Rightarrow> status)"

definition answer_body :: "response \<Rightarrow> bytes" where
  "answer_body a = concat (map (\<lambda>p. case p of PlainText b \<Rightarrow> b | _ \<Rightarrow> []) (rsBody a))"

text \<open>What the hosts behind the gateway may answer: nothing, or what one of the two services does.\<close>

definition hosts_demo :: "demo_json \<Rightarrow> (string \<Rightarrow> http_request \<Rightarrow> response option) \<Rightarrow> 's itself \<Rightarrow> bool" where
  "hosts_demo E send t \<longleftrightarrow> (\<forall>e q a. send e q = Some a \<longrightarrow>
     (\<exists>(S :: 's kvstore) J k s st st'. user_serve S J E k s q st new_response = Inr (a, st')) \<or>
     (\<exists>(S :: 's kvstore) J http k s st st'. order_serve S J E http k s q st new_response = Inr (a, st')))"

section \<open>Lemmas\<close>

subsection \<open>Paths\<close>

lemma split_slash_neq [simp]: "split_slash p \<noteq> []"
  by (induction p) (auto split: list.splits)

lemma split_slash_append: "split_slash (a @ CHR ''/'' # b) = split_slash a @ split_slash b"
  by (induction a) (auto split: list.splits)

lemma join_split: "join_slash (split_slash p) = p"
proof (induction p)
  case (Cons c p)
  obtain x xs where x: "split_slash p = x # xs" using split_slash_neq by (cases "split_slash p") auto
  with Cons show ?case by (cases xs) auto
qed simp

lemma split_trailing: "q \<noteq> [] \<Longrightarrow> last q = CHR ''/'' \<Longrightarrow> last (split_slash q) = []"
proof -
  assume q: "q \<noteq> []" "last q = CHR ''/''"
  then have "q = butlast q @ CHR ''/'' # []" by (metis append_butlast_last_id)
  then have "split_slash q = split_slash (butlast q) @ [[]]" by (metis split_slash_append split_slash.simps(1))
  then show ?thesis by simp
qed

lemma good_path:
  assumes "list_all good_seg (split_slash q)"
  shows "q \<noteq> []" "last q \<noteq> CHR ''/''"
proof -
  show "q \<noteq> []" using assms by (auto simp: good_seg_def)
  moreover have "good_seg (last (split_slash q))" using assms by (simp add: list_all_iff)
  ultimately show "last q \<noteq> CHR ''/''" using split_trailing by (auto simp: good_seg_def)
qed

lemma clean_parts_good: "list_all good_seg ps \<Longrightarrow> clean_parts True st ps = rev st @ ps"
  by (induction ps arbitrary: st) (auto simp: good_seg_def)

lemma cleanPath_good:
  assumes "list_all good_seg (split_slash q)"
  shows "cleanPath (CHR ''/'' # q) = CHR ''/'' # q"
proof -
  have "Clean (CHR ''/'' # q) = CHR ''/'' # q"
    using clean_parts_good [OF assms, of "[]"] by (simp add: Clean_def IsAbs_def join_split)
  then show ?thesis using good_path [OF assms] by (simp add: cleanPath_def Let_def)
qed

lemma cleanPath_rooted: "cleanPath p = p \<Longrightarrow> p \<noteq> [] \<and> hd p = CHR ''/''"
proof -
  assume c: "cleanPath p = p"
  then have "p \<noteq> []" by (auto simp: cleanPath_def)
  have "hd (Clean q) = CHR ''/'' \<and> Clean q \<noteq> []" if "hd q = CHR ''/''" "q \<noteq> []" for q
    using that by (simp add: Clean_def IsAbs_def Let_def)
  then have "hd (cleanPath p) = CHR ''/''" using \<open>p \<noteq> []\<close> by (auto simp: cleanPath_def Let_def)
  with c \<open>p \<noteq> []\<close> show ?thesis by simp
qed

text \<open>What the paths of requests for users and orders look like once the gateway has accepted them.\<close>

lemma api_path:
  assumes "cleanPath p = p" "path_matches [Lit ''api'', Lit name] p \<or> path_matches [Lit ''api'', Lit name, Wild] p" "good_seg name"
  obtains q where "p = CHR ''/'' # q" "hd (split_slash q) = ''api''" "list_all good_seg (split_slash q)"
proof -
  from cleanPath_rooted [OF assms(1)] obtain q where q: "p = CHR ''/'' # q" by (cases p) auto
  from assms(2) consider "split_slash q = [''api'', name]" | x where "split_slash q = [''api'', name, x]" "x \<noteq> []"
    by (auto simp: path_matches_def q seg_matches_def list_all2_Cons1)
  then have "hd (split_slash q) = ''api'' \<and> list_all good_seg (split_slash q)"
  proof cases
    case 1
    with assms(3) show ?thesis by (simp add: good_seg_def)
  next
    case (2 x)
    have g: "\<not> (x = ''.'' \<or> x = ''..'')"
    proof
      assume x: "x = ''.'' \<or> x = ''..''"
      have p: "p = ''/api/'' @ name @ ''/'' @ x" using join_split [of q] 2 by (simp add: q)
      have "clean_parts True [] (split_slash p) = (if x = ''.'' then [''api'', name] else [''api''])"
        using x 2 assms(3) by (auto simp: q good_seg_def)
      then have "Clean p = (if x = ''.'' then ''/api/'' @ name else ''/api'')" by (simp add: Clean_def IsAbs_def q)
      moreover have "last p \<noteq> CHR ''/''" using x by (auto simp: p)
      ultimately have "cleanPath p = (if x = ''.'' then ''/api/'' @ name else ''/api'')" by (simp add: cleanPath_def q)
      with assms(1) show False using x by (auto simp: p split: if_splits)
    qed
    with 2 assms(3) show ?thesis by (simp add: good_seg_def)
  qed
  with q that show thesis by blast
qed

lemma proxied_path:
  assumes "p = CHR ''/'' # q" "hd (split_slash q) = ''api''" "list_all good_seg (split_slash q)"
  shows "cleanPath (singleJoiningSlash p p) = singleJoiningSlash p p"
    and "\<exists>ps. tl (split_slash (singleJoiningSlash p p)) = ''api'' # ps"
proof -
  have j: "singleJoiningSlash p p = CHR ''/'' # q @ CHR ''/'' # q" using assms(1) good_path [OF assms(3)] by (simp add: singleJoiningSlash_def)
  have s: "split_slash (q @ CHR ''/'' # q) = split_slash q @ split_slash q" by (rule split_slash_append)
  show "cleanPath (singleJoiningSlash p p) = singleJoiningSlash p p"
    unfolding j by (rule cleanPath_good) (use assms(3) in \<open>simp add: s\<close>)
  show "\<exists>ps. tl (split_slash (singleJoiningSlash p p)) = ''api'' # ps"
    using assms(2) by (cases "split_slash q") (simp_all add: j s)
qed

lemma api_segment_unrouted:
  assumes "cleanPath (rqPath r) = rqPath r" "tl (split_slash (rqPath r)) = ''api'' # ps"
  shows "serve_mux user_routes r = Inl 404" "serve_mux order_routes r = Inl 404"
  using assms by (simp_all add: serve_mux_def user_routes_def order_routes_def path_matches_def seg_matches_def)

lemma good_seg_names: "good_seg ''users''" "good_seg ''orders''"
  by (simp_all add: good_seg_def)

lemma api_route_path:
  assumes "serve_mux api_routes r = Inr h" "h \<in> {AUsers, AOrders}"
  obtains q where "rqPath r = CHR ''/'' # q" "hd (split_slash q) = ''api''" "list_all good_seg (split_slash q)"
proof -
  have c: "cleanPath (rqPath r) = rqPath r" using assms(1) by (auto simp: serve_mux_def split: if_splits)
  have "\<exists>name \<in> {''users'', ''orders''}. path_matches [Lit ''api'', Lit name] (rqPath r) \<or> path_matches [Lit ''api'', Lit name, Wild] (rqPath r)"
    using assms c by (auto simp: serve_mux_def api_routes_def split: if_splits)
  then show thesis using api_path [OF c] that by (metis good_seg_names insert_iff empty_iff)
qed

lemma services_answer_404:
  assumes "cleanPath (rqPath q) = rqPath q" "tl (split_slash (rqPath q)) = ''api'' # ps"
  shows "user_serve S J E k s q st new_response = Inr (a, st') \<Longrightarrow> fst (the (rsStatus a)) = 404 \<and> rsStatus a \<noteq> None"
    and "order_serve S J E http k s q st new_response = Inr (a, st') \<Longrightarrow> fst (the (rsStatus a)) = 404 \<and> rsStatus a \<noteq> None"
  using api_segment_unrouted [OF assms]
  by (auto simp: user_serve_def order_serve_def mux_answer_def http_Error_def write_body_def write_header_def set_header_def new_response_def)

lemma selectService_chooses:
  assumes "services \<noteq> []" "0 \<le> nano"
  shows "\<exists>x \<in> set services. selectService nano services = Inr (Some x)"
proof -
  have "go_rem nano (int (length services)) = nano mod int (length services)"
    using assms(2) by (simp add: go_rem_def go_quot_def minus_mult_div_eq_mod)
  then show ?thesis using assms by (auto simp: selectService_def go_nth_def nat_less_iff intro!: nth_mem)
qed

lemma forwarded_404:
  assumes "serve_mux api_routes r = Inr h" "h \<in> {AUsers, AOrders}" "parse url = Some (e, rqPath r)" "hosts_demo E send TYPE('s)"
  shows "fst (the (rsStatus (forwardRequest parse send r url new_response))) \<in> {404, 502}"
proof -
  obtain q where q: "rqPath r = CHR ''/'' # q" "hd (split_slash q) = ''api''" "list_all good_seg (split_slash q)"
    using api_route_path [OF assms(1,2)] by blast
  let ?r = "r\<lparr>rqPath := singleJoiningSlash (rqPath r) (rqPath r)\<rparr>"
  obtain ps where p: "cleanPath (rqPath ?r) = rqPath ?r" "tl (split_slash (rqPath ?r)) = ''api'' # ps"
    using proxied_path [OF q] by auto
  show ?thesis
  proof (cases "send e ?r")
    case None
    then show ?thesis using assms(3) by (simp add: forwardRequest_def write_header_def new_response_def)
  next
    case (Some a)
    then have "fst (the (rsStatus a)) = 404 \<and> rsStatus a \<noteq> None"
      using assms(4) unfolding hosts_demo_def by (fastforce dest: services_answer_404 [OF p])
    then show ?thesis using Some assms(3) by (auto simp: forwardRequest_def copy_answer_def)
  qed
qed

lemma handled_404:
  assumes "dsDiscovery s" "0 \<le> nano" "serve_mux api_routes r = Inr h" "h \<in> {AUsers, AOrders}"
    and "\<And>e. parse (''http://'' @ e @ rqPath r) = Some (e, rqPath r)" "hosts_demo E send TYPE('t)"
  shows "\<exists>w st'. handle_service S J parse send name msg nano s r st new_response = Inr (w, st') \<and> fst (the (rsStatus w)) \<in> {404, 502, 503}"
proof -
  obtain found st1 where g: "v3_Get S J name st = (found, st1)" by fastforce
  show ?thesis
  proof (cases "\<exists>x xs. found = Inr (x # xs)")
    case True
    then obtain x xs where x: "found = Inr (x # xs)" by blast
    obtain y where y: "selectService nano (x # xs) = Inr (Some y)" using selectService_chooses assms(2) by blast
    let ?w = "forwardRequest parse send r (''http://'' @ svcEndpoint y @ rqPath r) new_response"
    have "handle_service S J parse send name msg nano s r st new_response = Inr (?w, st1)"
      using assms(1) y by (simp add: handle_service_def service_Get_def g x)
    then show ?thesis using forwarded_404 [where parse = parse, OF assms(3,4) assms(5) assms(6)] by auto
  next
    case False
    then have "handle_service S J parse send name msg nano s r st new_response = Inr (http_Error msg 503 new_response, st1)"
      using assms(1) by (auto simp: handle_service_def service_Get_def g split: sum.splits list.splits)
    then show ?thesis by (auto simp: http_Error_def write_body_def write_header_def set_header_def new_response_def)
  qed
qed

section \<open>Properties\<close>



text \<open>
  The demo works end to end for users: a user service that \<^verbatim>\<open>main\<close> starts on the store of a server where no other instance is
  registered is found by the client, which calls it at the endpoint it registered and gets the list of users without an error.
\<close>

theorem user_service_found_and_called:
  assumes "S = server_store (bolt_ops B G path) now" "db_ok B G cnt at d" "\<not> stuck lm" "\<not> stopped lm"
    and "registry_inv J (stored_values (db_map cnt G d))" "instances J (stored_values (db_map cnt G d)) ''user-service'' = {}"
    and "NewUserService rnd k (port_of ''8083'' env) = Inr s"
    and "info = service_info ''user-service'' (dsInstance s) (''localhost:'' @ dsPort s) (demo_metadata s) 30000 (nextLeaseID lm)"
    and "dec J (enc J info) = Some info" "enc J info \<noteq> []"
    and "entry_fits G (service_key ''user-service'' (dsInstance s)) \<lparr>Value = enc J info, DeadTime = 0\<rparr>"
    and "\<And>st. user_serve S J E k s (get_request ''/users'') st new_response = Inr (a, st)"
    and "http (''http://localhost:'' @ dsPort s @ ''/users'') = Some (answer_status a, answer_body a)"
    and "jDecodeMap E (jEncode E users_json) \<noteq> None"
  shows "\<exists>cancel st. user_main S J rnd rnd' k env (d, lm) = (Inr (s, cancel), st) \<and> DiscoverAndCallUserService S J E http st = (None, st)"
proof -
  have t: "go_quot (30 * Second) Millisecond = 30000" by (simp add: go_quot_def Second_def Millisecond_def)
  have n: "CHR ''/'' \<notin> set ''user-service''" by simp
  obtain st xs where r: "v3_Register S J ''user-service'' (dsInstance s) (''localhost:'' @ dsPort s) (30 * Second) (demo_metadata s) (d, lm)
        = (Inr (nextLeaseID lm), st)"
    "v3_Get S J ''user-service'' st = (Inr xs, st)" "svcID ` set xs = {dsInstance s}"
    "\<And>x. x \<in> set xs \<Longrightarrow> svcID x = dsInstance s \<Longrightarrow> svcEndpoint x = ''localhost:'' @ dsPort s"
    using registered_discovered [OF assms(1-5) n, of info "dsInstance s" "''localhost:'' @ dsPort s" "demo_metadata s" "30 * Second"]
      assms(6,8-11) t by auto
  obtain x xs' where x: "xs = x # xs'" using r(3) by (cases xs) auto
  then have e: "svcEndpoint x = ''localhost:'' @ dsPort s" using r(3,4) by auto
  have k: "ks_AutoKeepAlive S st (nextLeaseID lm) (10 * Second) = Inr (id, st)"
    by (simp add: assms(1) server_store_def AutoKeepAlive_def Second_def)
  obtain ck where c: "clerk_of (demo_clerk demo_certs_dir) rnd' = Inr ck" by (auto simp: clerk_of_def demo_clerk_def MakeClerk_def)
  have "user_main S J rnd rnd' k env (d, lm) = (Inr (s, id), st)"
    using assms(7) c k r(1) by (simp add: user_main_def user_Start_def register_demo_def)
  moreover have "serve_mux user_routes (get_request ''/users'') = Inr UList"
    by (simp add: serve_mux_def user_routes_def get_request_def path_matches_def seg_matches_def cleanPath_def Clean_def IsAbs_def Let_def)
  then have "a = encode_json E users_json new_response" using assms(12) [of st] by (simp add: user_serve_def)
  then have "answer_status a = 200" "answer_body a = jEncode E users_json"
    by (simp_all add: encode_json_def answer_status_def answer_body_def write_body_def write_header_def set_header_def new_response_def)
  then have "DiscoverAndCallUserService S J E http st = (None, st)"
    using assms(13,14) e by (simp add: DiscoverAndCallUserService_def discover_and_call_def r(2) x callUserService_def call_service_def)
  ultimately show ?thesis by blast
qed

lemma demo_user: "NewUserService (0, 0) demo_time (port_of ''8083'' (\<lambda>_. [])) = Inr demo_users"
  by (simp add: NewUserService_def clerk_of_def demo_clerk_def MakeClerk_def port_of_def demo_users_def demo_time_def itoa_def nat_string.simps char_of_def bit_0)

theorem user_service_found_and_called_witness:
  "\<exists>cancel st. user_main demo_store (one_value demo_instance) (0, 0) (0, 0) demo_time (\<lambda>_. []) (NewDB fm_bolt ''p'', NewLeaseManager 1)
       = (Inr (demo_users, cancel), st) \<and>
     DiscoverAndCallUserService demo_store (one_value demo_instance) const_json
       (\<lambda>url. if url = ''http://localhost:8083/users'' then Some (200, ''{}'') else None) st = (None, st)"
proof -
  have ok: "db_ok fm_bolt (pin_codec [\<lparr>Value = ''{}'', DeadTime = 0\<rparr>]) sorted_list_of_fmap (\<lambda>b c xs. c = xs) (NewDB fm_bolt ''p'')"
    by (rule fm_new_ok) simp
  have i: "registry_inv J (stored_values (db_map sorted_list_of_fmap G (NewDB fm_bolt ''p'')))"
    "instances J (stored_values (db_map sorted_list_of_fmap G (NewDB fm_bolt ''p''))) n = {}" for J G n
    by (simp_all add: new_db_empty registry_inv_def instances_def)
  let ?a = "encode_json const_json users_json new_response"
  have u: "user_serve demo_store (one_value demo_instance) const_json demo_time demo_users (get_request ''/users'') st new_response = Inr (?a, st)" for st
    by (simp add: user_serve_def serve_mux_def user_routes_def get_request_def path_matches_def seg_matches_def cleanPath_def Clean_def IsAbs_def Let_def)
  have "answer_status ?a = 200" "answer_body ?a = ''{}''"
    by (simp_all add: encode_json_def const_json_def answer_status_def answer_body_def write_body_def write_header_def set_header_def new_response_def)
  then show ?thesis
    using user_service_found_and_called [OF demo_store_def ok, of "NewLeaseManager 1" "one_value demo_instance" "(0, 0)" demo_time "\<lambda>_. []" demo_users
        demo_instance const_json ?a "\<lambda>url. if url = ''http://localhost:8083/users'' then Some (200, ''{}'') else None" "(0, 0)"] i u demo_user
    by (simp add: NewLeaseManager_def demo_instance_def one_value_def service_key_def demo_fits demo_users_def const_json_def)
qed

text \<open>
  The order service does not survive its start: with a configuration of its second client that names no server, as the
  configuration of a server it reads does, \<^verbatim>\<open>main\<close> divides by zero, and the service stays registered. A request for a
  single order would end in a nil dereference, as the service has no discoverer.
\<close>

theorem order_service_fails:
  assumes "NewOrderService rnd k (port_of ''8084'' env) = Inr s" "register_demo S J ''order-service'' s st = (Inr l, st1)"
    and "snd (Init clerk_conf y env d order_config_path zero_Clerk) = Inr conf" "EtcdAddrs conf = []"
  shows "order_main S J y d rnd rnd' k env st = (Inl DivideByZero, st1) \<and>
     (9 \<le> length (rqPath r) \<longrightarrow> order_get S J E http s r st w = Inl NilDereference)"
proof -
  have "\<not> dsDiscovery s" using assms(1) by (auto simp: NewOrderService_def res_simps)
  then have "order_get S J E http s r st w = Inl NilDereference" if "9 \<le> length (rqPath r)"
    using that by (simp add: order_get_def getUserInfo_def service_Get_def)
  moreover have "order_main S J y d rnd rnd' k env st = (Inl DivideByZero, st1)"
    using assms by (simp add: order_main_def order_Start_def clerk_of_def MakeClerk_def)
  ultimately show ?thesis by blast
qed

text \<open>The client reports every deletion as an addition, and no event as a deletion.\<close>

theorem watch_lines_mislabelled:
  "watch_line \<lparr>EvType = DeleteEvent, EvKey = key, EvValue = v\<rparr> = Added key"
  "watch_line \<lparr>EvType = PutEvent, EvKey = key, EvValue = v\<rparr> = Changed 0 key"
  "Removed key \<notin> set (watchUserServices es) \<union> set (watchOrderServices es)"
  by (auto simp: watch_line_def event_number_def watchUserServices_def watchOrderServices_def intro: event_type.exhaust split: event_type.splits)

end
