(* ===== verification/Debugging.thy ===== *)
theory Debugging
  imports Interfaces Demo
begin

text \<open>
  The debugging program \<^verbatim>\<open>src/demo/debug_connection.go\<close>: one call after the other through a client that knows a single address, each with a line on
  what it returned. What it prints in a world with a stable leader, and what happens when that address is not the leader's.
\<close>

section \<open>Definitions\<close>

definition debug_conf :: Clerk where
  "debug_conf = \<lparr>EtcdAddrs = [''127.0.0.1:51240''],
     cTLS = Some (zero_TLSConfig\<lparr>CertFile := demo_certs_dir @ ''client.crt'', KeyFile := demo_certs_dir @ ''client.key'',
       CAFile := demo_certs_dir @ ''ca.crt''\<rparr>)\<rparr>"

text \<open>The lines it prints: for each call its error, or what it prints of the result.\<close>

datatype debug_line = PutLine "client_error option" | GetLine "client_error + bytes" | LeaseLine "client_error + int"
  | RegisterLine "registry_error + int" | DiscoverLine "registry_error + nat"

definition debug_main :: "'w world \<Rightarrow> ServiceInfo codec \<Rightarrow> int \<times> int \<Rightarrow> 'w \<Rightarrow> (debug_line list \<times> 'w \<times> client) res" where
  "debug_main W J rnd w =
     res_bind (clerk_of debug_conf rnd) (\<lambda>ck.
       let S = client_store W;
           (put, s1) = ks_Put S (Inr (w, ck)) ''test-key'' ''test-value'' 0;
           (got, s2) = ks_Get S s1 ''test-key'';
           (lease, s3) = ks_LeaseGrant S s2 (10 * Second);
           (registered, s4) = v3_Register S J ''test-service'' ''test-instance'' ''localhost:8080'' (30 * Second) (fmupd ''test'' ''true'' fmempty) s3;
           (found, s5) = v3_Get S J ''test-service'' s4
       in res_bind s5 (\<lambda>x.
            Inr ([PutLine put, GetLine got, LeaseLine lease, RegisterLine registered, DiscoverLine (map_sum id length found)], x)))"

section \<open>Theorems\<close>

text \<open>
  With a stable leader at its address the program reports that writing, the lease and the registration work, and that reading
  and discovery do not.
\<close>

theorem debug_main_report:
  assumes "stable_world W 1 names 0" "\<forall>w. served_reads D K 1 (w_read W w)"
  shows "\<exists>l l' x. debug_main W J rnd w =
    Inr ([PutLine None, GetLine (Inl ErrFaild), LeaseLine (Inr l), RegisterLine (Inr l'), DiscoverLine (Inl (GetFailed ErrFaild))], x)"
proof -
  let ?S = "client_store W" and ?ok = "stable_session D K W names 0"
  obtain ck where ck: "clerk_of debug_conf rnd = Inr ck" "client_inv ck" "length (servers ck) = 1" "knows names ck"
    by (auto simp: clerk_of_def debug_conf_def MakeClerk_def client_inv_def table_ok_def local_ids_def knows_def no_conn_def)
  then have s0: "?ok (Inr (w, ck))" using assms by (auto simp: stable_session_def reads_served_def)
  obtain s1 where 1: "ks_Put ?S (Inr (w, ck)) ''test-key'' ''test-value'' 0 = (None, s1)" "?ok s1" using clerk.put [OF s0] by blast
  obtain s2 where 2: "ks_Get ?S s1 ''test-key'' = (Inl ErrFaild, s2)" "?ok s2" using clerk.get [OF 1(2)] by blast
  obtain l s3 where 3: "ks_LeaseGrant ?S s2 (10 * Second) = (Inr l, s3)" "?ok s3" using clerk.grant [OF 2(2)] by blast
  obtain l' s4 where 4: "v3_Register ?S J ''test-service'' ''test-instance'' ''localhost:8080'' (30 * Second) (fmupd ''test'' ''true'' fmempty) s3
    = (Inr l', s4)" "?ok s4" using clerk.registered [OF 3(2)] by blast
  obtain s5 where 5: "v3_Get ?S J ''test-service'' s4 = (Inl (GetFailed ErrFaild), s5)" "?ok s5" using clerk.nothing_discovered(1) [OF 4(2)] by blast
  obtain x where "s5 = Inr x" using 5(2) by (auto simp: stable_session_def reads_served_def)
  with ck(1) 1(1) 2(1) 3(1) 4(1) 5(1) show ?thesis by (simp add: debug_main_def)
qed

text \<open>
  The client has room for the notes on one server only, but the servers have three numbers: a server that names a leader with another number than 0
  makes the client index its notes out of range, in the first call of the program.
\<close>

theorem debug_main_panics:
  assumes "\<forall>t. wtServers (w_write W w t) = [up_conn]" "wtReply (w_write W w 0) 0 (write_args (w_now W w) ''test-key'' ''test-value'' [] 0 PutT ck) = Some r"
    "clerk_of debug_conf rnd = Inr ck" "prErr r = ErrWrongLeader" "prServerId r = 0" "1 \<le> prLeaderId r"
  shows "debug_main W J rnd w = Inl IndexOutOfRange"
proof -
  have ck: "length (servers ck) = 1" "nextSendLocalId ck = 0" "sToc ck = [-1]" using assms(3) by (auto simp: clerk_of_def debug_conf_def MakeClerk_def)
  have p: "client_Put (w_write W w) (w_now W w) ''test-key'' ''test-value'' 0 ck = Inl IndexOutOfRange"
    using assms(1,2,4-) ck
    by (simp add: client_Put_def client_write_def eval_nat_numeral rotate_stuck_def go_nth_def write_lease_def the_conn_def up_conn_def
        note_server_def go_set_def write_reply_def follow_leader_def Let_def)
  then have s: "ks_Put (client_store W) (Inr (w, ck)) ''test-key'' ''test-value'' 0 = (Some RpcError, Inl IndexOutOfRange)"
    by (simp add: client_store_def on_session_def session_write_def)
  show ?thesis
    by (simp add: debug_main_def assms(3) s)
      (simp add: client_store_def on_session_def session_grant_def v3_Register_def v3_Get_def Let_def split: prod.splits)
qed

end
