(* ===== verification/RaftCrash.thy ===== *)
theory RaftCrash
  imports RaftElection RaftPersist
begin

text \<open>
  Elections in a cluster whose peers crash and start again: \<open>RaftElection\<close> with \<open>RaftPersist\<close>. A peer may crash between any
  two of its steps, which stands for stopping it as well, and comes back from its write-ahead log through \<^verbatim>\<open>Make\<close>; the election it was running is lost. No peer takes or
  installs a snapshot, because a snapshot forgets the vote (\<open>snapshot_forgets_state\<close>). Entries may conflict and be dropped:
  the log that comes back is then not the one the peer had, but the term and the vote are.
\<close>

section \<open>Definitions\<close>

text \<open>The operations of a peer that are not part of an election and take no snapshot, with any inputs.\<close>

inductive calm_step :: "codecs \<Rightarrow> raft \<Rightarrow> raft \<Rightarrow> bool" for C where
  appended: "AppendEntries C now args rf = Inr (r, rf') \<Longrightarrow> calm_step C rf rf'"
| started: "raft_Start C cmd rf = Inr (res, rf') \<Longrightarrow> calm_step C rf rf'"
| append_answered: "append_reply C server args reply rf = Inr (ares, rf') \<Longrightarrow> calm_step C rf rf'"
| beat: "appendEntries_turn now rf = Inr (ks, rf') \<Longrightarrow> calm_step C rf rf'"
| handed_over: "calm_step C rf (Applyer rf)"

inductive crash_step :: "codecs \<Rightarrow> nat \<Rightarrow> cluster \<Rightarrow> cluster \<Rightarrow> bool" for C n where
  election: "vote_step C n c c' \<Longrightarrow> crash_step C n c c'"
| other: "p < n \<Longrightarrow> calm_step C (node c p) rf' \<Longrightarrow> crash_step C n c (c\<lparr>node := (node c)(p := rf')\<rparr>)"
| restarts: "p < n \<Longrightarrow> raft_Make C now (int p) d n (disk (node c p)) = Inr rf' \<Longrightarrow> GetRaftStateSize (node c p) < 2 ^ 32 \<Longrightarrow>
    crash_step C n c (c\<lparr>node := (node c)(p := rf'), pending := (pending c)(p := None)\<rparr>)"

text \<open>The term and the vote of every peer are on its disk.\<close>

definition ballots_saved :: "codecs \<Rightarrow> nat \<Rightarrow> cluster \<Rightarrow> bool" where
  "ballots_saved C n c \<longleftrightarrow> (\<forall>p < n. vote_durable C (node c p))"

section \<open>Lemmas\<close>

lemma calm_step_other: "calm_step C rf rf' \<Longrightarrow> other_step C rf rf'"
  by (induction rule: calm_step.induct) (auto intro: other_step.intros)

lemma calm_step_ballot:
  assumes "calm_step C rf rf'" "codecs_ok C" "vote_durable C rf"
  shows "vote_durable C rf'"
  using assms
  by (cases rule: calm_step.cases) (auto intro: AppendEntries_vote_durable ballot.start_command [THEN mp]
    ballot.append_answer [THEN mp] ballot.heartbeat_turn [THEN mp] ballot.hand_over [THEN mp])

lemma vote_step_ballots:
  assumes "vote_step C n c c'" "codecs_ok C" "ballots_saved C n c"
  shows "ballots_saved C n c'"
  using assms
  by (induction rule: vote_step.induct)
    (auto simp: ballots_saved_def intro: ballot.begin_election [THEN mp] ballot.request_vote [THEN mp] ballot.end_election [THEN mp])

text \<open>What comes back: a follower with the term and the vote it had.\<close>

lemma restart_ballot:
  assumes "raft_Make C now m d n (disk rf) = Inr rf'" "GetRaftStateSize rf < 2 ^ 32" "vote_durable C rf"
  shows "me rf' = m" "peers rf' = n" "state rf' = Follower" "currentTerm rf' = currentTerm rf" "votedFor rf' = votedFor rf"
    "vote_durable C rf'"
proof -
  from assms(3) obtain l where s: "saved C (rwal rf) (disk rf) (currentTerm rf) (votedFor rf) l" by (auto simp: vote_durable_def)
  then have "active_bytes (rwal rf) (disk rf) < 2 ^ 32" using small_active [OF _ assms(2)] by (simp add: saved_def)
  from Make_saved [OF s this] assms(1)
  have r: "rf' = restarted now m d n (rwal rf) (disk rf) (currentTerm rf) (votedFor rf) l" by simp
  then show "me rf' = m" "peers rf' = n" "state rf' = Follower" "currentTerm rf' = currentTerm rf" "votedFor rf' = votedFor rf"
    by (simp_all add: restarted_def zero_raft_def)
  show "vote_durable C rf'" using s by (auto simp: r restarted_def zero_raft_def vote_durable_def)
qed

lemma restart_inv:
  assumes "cluster_inv n c" "p < n" "me rf' = int p" "peers rf' = n" "state rf' = Follower"
    "currentTerm rf' = currentTerm (node c p)" "votedFor rf' = votedFor (node c p)"
  shows "cluster_inv n (c\<lparr>node := (node c)(p := rf'), pending := (pending c)(p := None)\<rparr>)" (is "cluster_inv n ?c")
proof -
  have inv: "peers_inv n c" "pending_inv n c" "votes_inv n c" "elected_inv n c" using assms(1) by (simp_all add: cluster_inv_def)
  have s: "succeeds n p (node c p) rf'"
    using inv(1) assms(2-) by (auto simp: succeeds_def peers_inv_def voted_def reigns_def)
  have "peers_inv n ?c" by (rule peers_inv_update [OF inv(1) s]) simp
  moreover have "pending_inv n ?c" using inv(2) by (simp add: pending_inv_def)
  moreover have "votes_inv n ?c" by (rule votes_inv_update [OF inv(3) s]) simp_all
  moreover have "elected_inv n ?c" by (rule elected_inv_update [OF inv(4) s]) (simp_all add: assms(5))
  ultimately show ?thesis by (simp add: cluster_inv_def)
qed

lemma crash_step_inv:
  assumes "crash_step C n c c'" "codecs_ok C" "cluster_inv n c" "ballots_saved C n c"
  shows "cluster_inv n c' \<and> ballots_saved C n c'"
  using assms
proof (cases rule: crash_step.cases)
  case (other p rf')
  with assms calm_step_ballot [OF other(3) assms(2)] show ?thesis
    by (auto simp: ballots_saved_def intro: quiet_inv other_step_keeps_vote calm_step_other)
next
  case (restarts p now d rf')
  have "vote_durable C (node c p)" using assms(4) restarts(2) by (simp add: ballots_saved_def)
  note r = restart_ballot [OF restarts(3,4) this]
  show ?thesis using restart_inv [OF assms(3) restarts(2) r(1-5)] assms(4) r(6) by (simp add: restarts(1) ballots_saved_def)
qed (auto intro: vote_step_inv vote_step_ballots)

lemma crash_steps_inv:
  "(crash_step C n)\<^sup>*\<^sup>* c c' \<Longrightarrow> codecs_ok C \<Longrightarrow> cluster_inv n c \<Longrightarrow> ballots_saved C n c \<Longrightarrow> cluster_inv n c' \<and> ballots_saved C n c'"
  by (induction rule: rtranclp_induct) (auto dest: crash_step_inv)

section \<open>Properties\<close>

text \<open>
  C4: Election safety with crashes: in a cluster whose peers \<^verbatim>\<open>Make\<close> has started on empty directories and that take no snapshots, at
  most one peer ever becomes leader of a term, before or after crashes, and no two peers are leaders of the same term, whatever messages
  are lost, delayed, repeated or forged outside the elections, and however often peers crash and start again. The write-ahead log
  of a peer that restarts is smaller than 4 GiB.
\<close>

theorem election_safety_crashes:
  assumes "codecs_ok C" "cluster_start n c" "\<And>p. p < n \<Longrightarrow> raft_Make C (now p) (int p) (dirs p) n empty_fs = Inr (node c p)"
    "(crash_step C n)\<^sup>*\<^sup>* c c'"
  shows "(\<forall>T p p'. (T, p) \<in> elected c' \<and> (T, p') \<in> elected c' \<longrightarrow> p = p') \<and>
    (\<forall>p p'. p < n \<and> p' < n \<and> state (node c' p) = Leader \<and> state (node c' p') = Leader \<and>
       currentTerm (node c' p) = currentTerm (node c' p') \<longrightarrow> p = p')"
proof -
  have "ballots_saved C n c"
    using assms(3) fresh_durable by (fastforce simp: ballots_saved_def durable_def vote_durable_def)
  then have i: "cluster_inv n c'" using crash_steps_inv [OF assms(4,1) cluster_start_inv [OF assms(2)]] by blast
  moreover have "(currentTerm (node c' p), p) \<in> elected c'" if "p < n" "state (node c' p) = Leader" for p
    using i that by (simp add: cluster_inv_def elected_inv_def)
  ultimately show ?thesis using elected_unique by metis
qed

lemma demo_peer_made: "raft_Make C 0 (int p) (path_join ''data'' (''raft-'' @ itoa (int p))) 3 empty_fs = Inr (demo_peer p)"
  by (simp add: Make_fresh restarted_def demo_peer_def zero_raft_def fresh_wal_def numeral_3_eq_3)

lemma demo_peer_restarts: "raft_Make C 0 (int p) (path_join ''data'' (''raft-'' @ itoa (int p))) 3 (disk (demo_peer p)) = Inr (demo_peer p)"
  using demo_peer_made [of C p] by (simp add: Make_empty demo_peer_def zero_raft_def)

lemma demo_peer_size: "GetRaftStateSize (demo_peer p) = 0"
  by (simp add: GetRaftStateSize_def demo_peer_def zero_raft_def disk_of_fresh)

theorem election_safety_crashes_witness:
  "\<exists>b c. (crash_step count_codecs 3)\<^sup>*\<^sup>* demo_cluster b \<and> crash_step count_codecs 3 b c \<and> node c 2 = demo_peer 2 \<and> (1, 0) \<in> elected c \<and>
     (\<forall>p. (1, p) \<in> elected c \<longrightarrow> p = 0)"
proof -
  obtain b where b: "(vote_step count_codecs 3)\<^sup>*\<^sup>* demo_cluster b" "(1, 0) \<in> elected b" "demo_elected b" using demo_elects by blast
  have r: "(crash_step count_codecs 3)\<^sup>*\<^sup>* demo_cluster b" using b(1) mono_rtranclp [of "vote_step count_codecs 3"] crash_step.election by blast
  let ?c = "b\<lparr>node := (node b)(2 := demo_peer 2), pending := (pending b)(2 := None)\<rparr>"
  have "node b 2 = demo_peer 2" using b(3) by (simp add: demo_elected_def)
  then have s: "crash_step count_codecs 3 b ?c"
    using demo_peer_restarts [of count_codecs 2]
    by (intro restarts [where now = 0 and d = "path_join ''data'' (''raft-'' @ itoa 2)"])
      (simp_all add: demo_peer_size)
  have "cluster_start 3 demo_cluster" by (simp add: cluster_start_def demo_cluster_def demo_peer_def zero_raft_def)
  moreover have "raft_Make count_codecs 0 (int p) (path_join ''data'' (''raft-'' @ itoa (int p))) 3 empty_fs = Inr (node demo_cluster p)" for p
    unfolding demo_cluster_def cluster.simps by (rule demo_peer_made)
  ultimately have "\<forall>p. (1, p) \<in> elected ?c \<longrightarrow> p = 0"
    using election_safety_crashes [OF count_codecs_ok, of 3 demo_cluster "\<lambda>_. 0" "\<lambda>p. path_join ''data'' (''raft-'' @ itoa (int p))" ?c] r s b(2)
    by (auto intro: rtranclp.rtrancl_into_rtrancl)
  with r s b(2) show ?thesis by (intro exI [of _ b] exI [of _ ?c]) simp
qed

end
