(* ===== verification/Persister.thy ===== *)
theory Persister
  imports Wal Config
begin

text \<open>
  The storage code of the package \<^verbatim>\<open>raft\<close> that the peer no longer calls: \<^verbatim>\<open>src/raft/persister.go\<close>, two files that are
  replaced as a whole, and \<^verbatim>\<open>src/raft/wal.go\<close>, a copy of \<^verbatim>\<open>src/pkg/wal/wal.go\<close> whose \<^verbatim>\<open>Open\<close> also creates the
  directory. The rest of that copy is line by line the code of theory \<open>Wal\<close> (\<^verbatim>\<open>Size\<close> has another
  integer type), and is not defined a second time.

  The persister is modelled on a tree of files and directories. A path names the node its cleaned form names; there are
  no symbolic links. How a system call ends is given in advance for every call with its arguments, so a theorem for
  all trees covers every combination of failures; a crash of the process before a call leaves the files that a
  failure of this call leaves.
\<close>

section \<open>Definitions\<close>

subsection \<open>Files and directories\<close>

datatype fnode = FileNode bytes | DirNode

datatype sys_call = StatCall string | ReadCall string | MkdirCall string | RemoveCall string | WriteCall string | RenameCall string string

datatype errno = ENOENT | EEXIST | EIO

record tree =
  nodes :: "string \<rightharpoonup> fnode"
  dirSize :: "string \<Rightarrow> nat"
  callEnds :: "sys_call \<Rightarrow> write_outcome"

text \<open>\<^verbatim>\<open>os.IsNotExist\<close> and \<^verbatim>\<open>os.IsExist\<close> of an error that may be nil.\<close>

definition IsNotExist :: "errno option \<Rightarrow> bool" where
  "IsNotExist e \<longleftrightarrow> e = Some ENOENT"

definition IsExist :: "errno option \<Rightarrow> bool" where
  "IsExist e \<longleftrightarrow> e = Some EEXIST"

text \<open>A path that can name a regular file, the directory a cleaned path is in, and the node at a path.\<close>

definition names_file :: "string \<Rightarrow> bool" where
  "names_file p \<longleftrightarrow> last (split_slash p) \<notin> {[], ''.'', ''..''}"

definition dir_of :: "string \<Rightarrow> string" where
  "dir_of k = Clean (rev (dropWhile (\<lambda>c. c \<noteq> CHR ''/'') (rev k)))"

definition in_dir :: "tree \<Rightarrow> string \<Rightarrow> bool" where
  "in_dir t p \<longleftrightarrow> p \<noteq> [] \<and> nodes t (dir_of (Clean p)) = Some DirNode"

definition node_at :: "tree \<Rightarrow> string \<Rightarrow> fnode option" where
  "node_at t p =
     (case nodes t (Clean p) of
        Some (FileNode b) \<Rightarrow> if names_file p then Some (FileNode b) else None
      | n \<Rightarrow> if p = [] then None else n)"

text \<open>
  The system calls. \<^verbatim>\<open>os.WriteFile\<close> that fails may have truncated the file or written a part; the others fail without
  an effect.
\<close>

definition sys_stat :: "tree \<Rightarrow> string \<Rightarrow> errno + nat" where
  "sys_stat t p =
     (if callEnds t (StatCall p) \<noteq> Written then Inl EIO
      else case node_at t p of
        None \<Rightarrow> Inl ENOENT
      | Some (FileNode b) \<Rightarrow> Inr (length b)
      | Some DirNode \<Rightarrow> Inr (dirSize t (Clean p)))"

definition stat_err :: "tree \<Rightarrow> string \<Rightarrow> errno option" where
  "stat_err t p = (case sys_stat t p of Inl e \<Rightarrow> Some e | Inr _ \<Rightarrow> None)"

definition sys_read :: "tree \<Rightarrow> string \<Rightarrow> errno + bytes" where
  "sys_read t p =
     (if callEnds t (ReadCall p) \<noteq> Written then Inl EIO
      else case node_at t p of
        None \<Rightarrow> Inl ENOENT
      | Some (FileNode b) \<Rightarrow> Inr b
      | Some DirNode \<Rightarrow> Inl EIO)"

definition sys_mkdir :: "tree \<Rightarrow> string \<Rightarrow> tree \<times> errno option" where
  "sys_mkdir t p =
     (if callEnds t (MkdirCall p) \<noteq> Written \<or> \<not> in_dir t p then (t, Some EIO)
      else if nodes t (Clean p) \<noteq> None then (t, Some EEXIST)
      else (t\<lparr>nodes := (nodes t)(Clean p \<mapsto> DirNode)\<rparr>, None))"

definition sys_remove :: "tree \<Rightarrow> string \<Rightarrow> tree \<times> errno option" where
  "sys_remove t p =
     (if callEnds t (RemoveCall p) \<noteq> Written then (t, Some EIO)
      else case node_at t p of
        None \<Rightarrow> (t, Some ENOENT)
      | Some (FileNode b) \<Rightarrow> (t\<lparr>nodes := (nodes t)(Clean p := None)\<rparr>, None)
      | Some DirNode \<Rightarrow> (t, Some EIO))"

definition sys_write :: "tree \<Rightarrow> string \<Rightarrow> bytes \<Rightarrow> tree \<times> errno option" where
  "sys_write t p b =
     (if \<not> names_file p \<or> \<not> in_dir t p \<or> nodes t (Clean p) = Some DirNode then (t, Some EIO)
      else case callEnds t (WriteCall p) of
        Written \<Rightarrow> (t\<lparr>nodes := (nodes t)(Clean p \<mapsto> FileNode b)\<rparr>, None)
      | Partial n \<Rightarrow> (t\<lparr>nodes := (nodes t)(Clean p \<mapsto> FileNode (take n b))\<rparr>, Some EIO)
      | Refused \<Rightarrow> (t, Some EIO))"

text \<open>\<^verbatim>\<open>os.Rename\<close> of a regular file; the only sources of the code are files it has just written.\<close>

definition sys_rename :: "tree \<Rightarrow> string \<Rightarrow> string \<Rightarrow> tree \<times> errno option" where
  "sys_rename t p q =
     (if callEnds t (RenameCall p q) \<noteq> Written \<or> \<not> names_file q \<or> \<not> in_dir t q \<or> nodes t (Clean q) = Some DirNode then (t, Some EIO)
      else case node_at t p of
        Some (FileNode b) \<Rightarrow> (t\<lparr>nodes := (nodes t)(Clean p := None, Clean q \<mapsto> FileNode b)\<rparr>, None)
      | Some DirNode \<Rightarrow> (t, Some EIO)
      | None \<Rightarrow> (t, Some ENOENT))"

subsection \<open>The persister\<close>

record Persister =
  raftstatePath :: string
  snapshotPath :: string
  basePath :: string

definition MakePersister :: "string \<Rightarrow> string \<Rightarrow> string \<Rightarrow> Persister" where
  "MakePersister rp sp bp = \<lparr>raftstatePath = rp, snapshotPath = sp, basePath = bp\<rparr>"

definition persister_Copy :: "Persister \<Rightarrow> Persister" where
  "persister_Copy ps = MakePersister (raftstatePath ps) (snapshotPath ps) (basePath ps)"

definition ReadRaftState :: "Persister \<Rightarrow> tree \<Rightarrow> bytes" where
  "ReadRaftState ps t = (case sys_read t (basePath ps @ raftstatePath ps) of Inl _ \<Rightarrow> [] | Inr data \<Rightarrow> data)"

definition RaftStateSize :: "Persister \<Rightarrow> tree \<Rightarrow> int res" where
  "RaftStateSize ps t = (case sys_stat t (basePath ps @ raftstatePath ps) of Inl _ \<Rightarrow> Inl LoggerPanic | Inr n \<Rightarrow> Inr (int n))"

definition ReadSnapshot :: "Persister \<Rightarrow> tree \<Rightarrow> bytes" where
  "ReadSnapshot ps t = (case sys_read t (basePath ps @ snapshotPath ps) of Inl _ \<Rightarrow> [] | Inr data \<Rightarrow> data)"

definition SnapshotSize :: "Persister \<Rightarrow> tree \<Rightarrow> int" where
  "SnapshotSize ps t = (case sys_stat t (basePath ps @ snapshotPath ps) of Inl _ \<Rightarrow> 0 | Inr n \<Rightarrow> int n)"

text \<open>\<^verbatim>\<open>if err != nil { Panicln }\<close> after a call, and the two guarded calls whose errors are only logged.\<close>

definition or_panic :: "tree \<times> errno option \<Rightarrow> (tree \<Rightarrow> tree \<times> unit res) \<Rightarrow> tree \<times> unit res" where
  "or_panic r f = (if snd r \<noteq> None then (fst r, Inl LoggerPanic) else f (fst r))"

definition make_base :: "string \<Rightarrow> tree \<Rightarrow> tree" where
  "make_base p t = (if IsNotExist (stat_err t p) then fst (sys_mkdir t p) else t)"

definition drop_tmp :: "string \<Rightarrow> tree \<Rightarrow> tree" where
  "drop_tmp p t = (if IsExist (stat_err t p) then fst (sys_remove t p) else t)"

definition persister_Save :: "Persister \<Rightarrow> bytes \<Rightarrow> bytes \<Rightarrow> tree \<Rightarrow> tree \<times> unit res" where
  "persister_Save ps raftstate snapshot t =
     (let raftstateTmpPath = basePath ps @ raftstatePath ps @ ''.tmp'';
          snapshotTmpPath = basePath ps @ snapshotPath ps @ ''.tmp'';
          t = drop_tmp snapshotTmpPath (drop_tmp raftstateTmpPath (make_base (basePath ps) t))
      in or_panic (sys_write t raftstateTmpPath raftstate) (\<lambda>t.
         or_panic (sys_write t snapshotTmpPath snapshot) (\<lambda>t.
         or_panic (sys_rename t raftstateTmpPath (basePath ps @ raftstatePath ps)) (\<lambda>t.
         or_panic (sys_rename t snapshotTmpPath (basePath ps @ snapshotPath ps)) (\<lambda>t. (t, Inr ()))))))"

subsection \<open>The copy of the write-ahead log\<close>

text \<open>\<^verbatim>\<open>Open\<close> creates the directory before it lists it.\<close>

definition raft_wal_Open :: "string \<Rightarrow> fs \<Rightarrow> wal_error + wal \<times> fs" where
  "raft_wal_Open d f = (if io_fail f then Inl ErrIO else wal_Open d (f\<lparr>dir_exists := True\<rparr>))"

definition raft_wal_Create :: "string \<Rightarrow> fs \<Rightarrow> wal_error + wal \<times> fs" where
  "raft_wal_Create d f = (if io_fail f then Inl ErrIO else raft_wal_Open d (f\<lparr>dir_exists := True\<rparr>))"

definition raft_log_reopen :: "wal \<times> fs \<Rightarrow> wal_error + wal \<times> fs" where
  "raft_log_reopen s = raft_wal_Open (dir (fst s)) (snd s)"

subsection \<open>Notions the lemmas use\<close>

definition file_at :: "tree \<Rightarrow> string \<Rightarrow> bytes option" where
  "file_at t k = (case nodes t k of Some (FileNode b) \<Rightarrow> Some b | _ \<Rightarrow> None)"

text \<open>The two files and their temporary names, cleaned.\<close>

definition persister_keys :: "Persister \<Rightarrow> string list" where
  "persister_keys ps = map (\<lambda>p. Clean (basePath ps @ p))
     [raftstatePath ps, snapshotPath ps, raftstatePath ps @ ''.tmp'', snapshotPath ps @ ''.tmp'']"

text \<open>The four paths are files of the base directory, which is there or can be created, and none is a directory.\<close>

definition persister_ready :: "Persister \<Rightarrow> tree \<Rightarrow> bool" where
  "persister_ready ps t \<longleftrightarrow>
     distinct (persister_keys ps) \<and> Clean (basePath ps) \<notin> set (persister_keys ps) \<and>
     (\<forall>p \<in> {raftstatePath ps, snapshotPath ps, raftstatePath ps @ ''.tmp'', snapshotPath ps @ ''.tmp''}.
        names_file (basePath ps @ p) \<and> dir_of (Clean (basePath ps @ p)) = Clean (basePath ps)) \<and>
     (\<forall>k \<in> set (persister_keys ps). nodes t k \<noteq> Some DirNode) \<and>
     (nodes t (Clean (basePath ps)) = Some DirNode \<or> nodes t (Clean (basePath ps)) = None \<and> in_dir t (basePath ps))"

section \<open>Lemmas\<close>

subsection \<open>The system calls\<close>

text \<open>\<^verbatim>\<open>os.Stat\<close> never reports that a file exists as an error: the files that are left of an earlier save are not removed.\<close>

lemma drop_tmp_nothing [simp]: "drop_tmp p t = t"
  by (auto simp: drop_tmp_def IsExist_def stat_err_def sys_stat_def split: option.splits fnode.splits)

lemma callEnds_kept [frame_simps]:
  "callEnds (make_base p t) = callEnds t"
  "callEnds (fst (sys_write t p b)) = callEnds t"
  "callEnds (fst (sys_rename t p q)) = callEnds t"
  by (auto simp: make_base_def sys_mkdir_def sys_write_def sys_rename_def split: option.splits fnode.splits write_outcome.splits)

lemma make_base_file [frame_simps]: "file_at (make_base p t) k = file_at t k"
  by (auto simp: make_base_def sys_mkdir_def file_at_def)

lemma write_frame: "k \<noteq> Clean p \<Longrightarrow> file_at (fst (sys_write t p b)) k = file_at t k"
  by (auto simp: sys_write_def file_at_def split: write_outcome.splits)

lemma write_content: "snd (sys_write t p b) = None \<Longrightarrow> file_at (fst (sys_write t p b)) (Clean p) = Some b"
  by (auto simp: sys_write_def file_at_def split: write_outcome.splits if_splits)

lemma rename_failed: "snd (sys_rename t p q) \<noteq> None \<Longrightarrow> fst (sys_rename t p q) = t"
  by (auto simp: sys_rename_def split: option.splits fnode.splits)

lemma names_file_empty [simp]: "\<not> names_file []"
  by (simp add: names_file_def)

lemma node_at_file: "node_at t p = Some (FileNode b) \<longleftrightarrow> nodes t (Clean p) = Some (FileNode b) \<and> names_file p"
  by (auto simp: node_at_def split: option.splits fnode.splits if_splits)

lemma rename_effect:
  assumes "snd (sys_rename t p q) = None"
  obtains b where "nodes t (Clean p) = Some (FileNode b)" "names_file q"
    "fst (sys_rename t p q) = t\<lparr>nodes := (nodes t)(Clean p := None, Clean q \<mapsto> FileNode b)\<rparr>"
  using assms by (auto simp: sys_rename_def dest!: node_at_file [THEN iffD1] split: option.splits fnode.splits if_splits)

lemma rename_done:
  assumes "snd (sys_rename t p q) = None" "Clean p \<noteq> Clean q"
  shows "file_at (fst (sys_rename t p q)) k = (if k = Clean q then file_at t (Clean p) else if k = Clean p then None else file_at t k)"
    and "names_file q"
  by (rule rename_effect [OF assms(1)], simp add: file_at_def)+

text \<open>What the readers of the two files see.\<close>

lemma read_or_nil:
  "(case sys_read t p of Inl _ \<Rightarrow> [] | Inr b \<Rightarrow> b) =
     (if callEnds t (ReadCall p) = Written \<and> names_file p then case file_at t (Clean p) of None \<Rightarrow> [] | Some b \<Rightarrow> b else [])"
  by (auto simp: sys_read_def node_at_def file_at_def split: option.split fnode.split)

text \<open>The size of a file that is there, as \<^verbatim>\<open>os.Stat\<close> has it.\<close>

lemma stat_file:
  assumes "callEnds t (StatCall p) = Written" "names_file p" "file_at t (Clean p) = Some b"
  shows "sys_stat t p = Inr (length b)"
  using assms by (auto simp: sys_stat_def node_at_def file_at_def split: option.splits fnode.splits)

subsection \<open>Saving\<close>

lemma or_panic_cases:
  assumes "or_panic r f = (t', res)"
  obtains (panics) e where "snd r = Some e" "t' = fst r" "res = Inl LoggerPanic" | (goes_on) "snd r = None" "f (fst r) = (t', res)"
  using assms by (cases "snd r") (auto simp: or_panic_def)

lemma Save_files:
  assumes "persister_Save ps x y t = (t', res)" "distinct (persister_keys ps)"
    and k: "r = Clean (basePath ps @ raftstatePath ps)" "s = Clean (basePath ps @ snapshotPath ps)"
  shows "(res = Inr () \<and> file_at t' r = Some x \<and> file_at t' s = Some y \<and> names_file (basePath ps @ raftstatePath ps) \<and>
       names_file (basePath ps @ snapshotPath ps) \<or>
     res = Inl LoggerPanic \<and> file_at t' s = file_at t s \<and>
       (file_at t' r = file_at t r \<or> file_at t' r = Some x \<and> names_file (basePath ps @ raftstatePath ps))) \<and>
     callEnds t' = callEnds t \<and> (\<forall>l. l \<notin> set (persister_keys ps) \<longrightarrow> file_at t' l = file_at t l)"
  using assms(1,2) unfolding persister_Save_def Let_def drop_tmp_nothing persister_keys_def
  by (elim or_panic_cases) (auto simp: frame_simps write_frame write_content rename_failed rename_done k)

lemma make_base_dir:
  assumes "persister_ready ps t" "callEnds t (StatCall (basePath ps)) = Written" "callEnds t (MkdirCall (basePath ps)) = Written"
  shows "nodes (make_base (basePath ps) t) = (nodes t)(Clean (basePath ps) \<mapsto> DirNode)"
proof (cases "nodes t (Clean (basePath ps))")
  case None
  with assms show ?thesis
    by (auto simp: persister_ready_def make_base_def IsNotExist_def stat_err_def sys_stat_def node_at_def sys_mkdir_def)
next
  case (Some n)
  with assms have "n = DirNode" by (simp add: persister_ready_def)
  with Some assms(2) show ?thesis
    by (auto simp: make_base_def IsNotExist_def stat_err_def sys_stat_def node_at_def sys_mkdir_def in_dir_def)
qed

lemma write_served:
  assumes "names_file p" "nodes t (dir_of (Clean p)) = Some DirNode" "nodes t (Clean p) \<noteq> Some DirNode" "callEnds t (WriteCall p) = Written"
  shows "sys_write t p b = (t\<lparr>nodes := (nodes t)(Clean p \<mapsto> FileNode b)\<rparr>, None)"
  using assms by (auto simp: sys_write_def in_dir_def)

lemma rename_served:
  assumes "names_file p" "names_file q" "nodes t (dir_of (Clean q)) = Some DirNode" "nodes t (Clean q) \<noteq> Some DirNode"
    "nodes t (Clean p) = Some (FileNode b)"
  shows "sys_rename t p q = (if callEnds t (RenameCall p q) = Written
    then (t\<lparr>nodes := (nodes t)(Clean p := None, Clean q \<mapsto> FileNode b)\<rparr>, None) else (t, Some EIO))"
  using assms by (auto simp: sys_rename_def in_dir_def node_at_def)

text \<open>The calls of a save on a directory that is ready, up to the last rename.\<close>

lemma save_calls:
  assumes names: "\<forall>p \<in> {r, s, rt, st}. names_file p \<and> dir_of (Clean p) = b \<and> Clean p \<noteq> b \<and> nodes t (Clean p) \<noteq> Some DirNode"
    and b: "nodes t b = Some DirNode" and d: "distinct [Clean r, Clean s, Clean rt, Clean st]"
    and served: "callEnds t (WriteCall rt) = Written" "callEnds t (WriteCall st) = Written" "callEnds t (RenameCall rt r) = Written"
    and "or_panic (sys_write t rt x) (\<lambda>t. or_panic (sys_write t st y) (\<lambda>t. or_panic (sys_rename t rt r) (\<lambda>t.
      or_panic (sys_rename t st s) (\<lambda>t. (t, Inr ()))))) = (t', res)"
  shows "file_at t' (Clean r) = Some x" "res = Inr () \<longleftrightarrow> callEnds t (RenameCall st s) = Written"
proof -
  define t1 where "t1 = t\<lparr>nodes := (nodes t)(Clean rt \<mapsto> FileNode x)\<rparr>"
  define t2 where "t2 = t1\<lparr>nodes := (nodes t1)(Clean st \<mapsto> FileNode y)\<rparr>"
  define t3 where "t3 = t2\<lparr>nodes := (nodes t2)(Clean rt := None, Clean r \<mapsto> FileNode x)\<rparr>"
  have "sys_write t rt x = (t1, None)" unfolding t1_def using names b served by (intro write_served) auto
  moreover have "sys_write t1 st y = (t2, None)" unfolding t2_def using names b d served by (intro write_served) (auto simp: t1_def)
  moreover have "sys_rename t2 rt r = (t3, None)"
    using names b d served by (subst rename_served [where b = x]) (auto simp: t1_def t2_def t3_def)
  moreover have "sys_rename t3 st s = (if callEnds t3 (RenameCall st s) = Written
      then (t3\<lparr>nodes := (nodes t3)(Clean st := None, Clean s \<mapsto> FileNode y)\<rparr>, None) else (t3, Some EIO))"
    using names b d by (intro rename_served) (auto simp: t1_def t2_def t3_def)
  moreover have "callEnds t3 = callEnds t" "nodes t3 (Clean r) = Some (FileNode x)" by (simp_all add: t1_def t2_def t3_def)
  ultimately show "file_at t' (Clean r) = Some x" "res = Inr () \<longleftrightarrow> callEnds t (RenameCall st s) = Written"
    using assms(7) d by (auto simp: or_panic_def file_at_def split: if_splits)
qed

lemma Save_served:
  assumes ready: "persister_ready ps t"
    and served: "\<forall>c. c \<noteq> RenameCall (basePath ps @ snapshotPath ps @ ''.tmp'') (basePath ps @ snapshotPath ps) \<longrightarrow> callEnds t c = Written"
    and "persister_Save ps x y t = (t', res)"
  shows "file_at t' (Clean (basePath ps @ raftstatePath ps)) = Some x"
    and "res = Inr () \<longleftrightarrow> callEnds t (RenameCall (basePath ps @ snapshotPath ps @ ''.tmp'') (basePath ps @ snapshotPath ps)) = Written"
proof -
  let ?t = "make_base (basePath ps) t"
  note call = assms(3) [unfolded persister_Save_def Let_def drop_tmp_nothing]
  have base: "nodes ?t = (nodes t)(Clean (basePath ps) \<mapsto> DirNode)" using make_base_dir [OF ready] served by simp
  have d: "distinct [Clean (basePath ps @ raftstatePath ps), Clean (basePath ps @ snapshotPath ps),
      Clean (basePath ps @ raftstatePath ps @ ''.tmp''), Clean (basePath ps @ snapshotPath ps @ ''.tmp'')]"
    using ready by (simp add: persister_ready_def persister_keys_def)
  then have "raftstatePath ps \<noteq> snapshotPath ps" by auto
  then have w: "callEnds ?t (RenameCall (basePath ps @ raftstatePath ps @ ''.tmp'') (basePath ps @ raftstatePath ps)) = Written"
    using served by (simp add: frame_simps)
  have b: "nodes ?t (Clean (basePath ps)) = Some DirNode" by (simp add: base)
  have n: "\<forall>p \<in> {basePath ps @ raftstatePath ps, basePath ps @ snapshotPath ps, basePath ps @ raftstatePath ps @ ''.tmp'',
      basePath ps @ snapshotPath ps @ ''.tmp''}. names_file p \<and> dir_of (Clean p) = Clean (basePath ps) \<and> Clean p \<noteq> Clean (basePath ps) \<and>
      nodes ?t (Clean p) \<noteq> Some DirNode"
    using ready by (auto simp: persister_ready_def persister_keys_def base)
  show "file_at t' (Clean (basePath ps @ raftstatePath ps)) = Some x"
    using save_calls(1) [OF n b d _ _ w call] served by (simp add: frame_simps)
  show "res = Inr () \<longleftrightarrow> callEnds t (RenameCall (basePath ps @ snapshotPath ps @ ''.tmp'') (basePath ps @ snapshotPath ps)) = Written"
    using save_calls(2) [OF n b d _ _ w call] served by (simp add: frame_simps)
qed

subsection \<open>The copy of the write-ahead log\<close>

text \<open>On a directory that exists the two \<^verbatim>\<open>Open\<close> are the same, so the copy is a recoverable log as well.\<close>

lemma raft_wal_Open_there: "dir_exists f \<Longrightarrow> raft_wal_Open d f = wal_Open d f"
proof -
  assume "dir_exists f"
  then have "f\<lparr>dir_exists := True\<rparr> = f" by (cases f) simp
  then show ?thesis by (simp add: raft_wal_Open_def) (simp add: wal_Open_def listLogFiles_def)
qed

lemma raft_log_reopen_ok: "log_ok s \<Longrightarrow> raft_log_reopen s = log_reopen s"
  by (simp add: raft_log_reopen_def log_reopen_def log_ok_def wal_wf_def raft_wal_Open_there)

interpretation raft_wlog: recoverable_log log_append log_replay log_ok log_fits raft_log_reopen
  using wlog.reopen_succeeds wlog.reopen_replay by unfold_locales (auto simp: raft_log_reopen_ok)

text \<open>Records written before a restart are read back by the copy too, and it needs no \<^verbatim>\<open>Create\<close> where there is no directory.\<close>

theorem raft_wal_recovers:
  assumes "log_ok s" "list_all log_fits rs" "log_replay s = Inr old" "append_all log_append s rs = Inr s'"
  shows "\<exists>s''. raft_log_reopen s' = Inr s'' \<and> log_ok s'' \<and> log_replay s'' = Inr (old @ rs)"
  by (rule raft_wlog.append_reopen_replay [OF assms])

theorem raft_wal_Open_creates:
  assumes "\<not> io_fail f" "\<not> dir_exists f"
  shows "raft_wal_Open d f = wal_Create d f" and "wal_Open d f = Inl ErrIO"
  using assms by (simp_all add: raft_wal_Open_def wal_Create_def wal_Open_def listLogFiles_def newLogFile_def)

section \<open>Properties\<close>

text \<open>
  Whatever system calls fail, a save leaves each file old or new as a whole, never a part of it; the snapshot
  is new only together with the state, and when \<^verbatim>\<open>Save\<close> returns both are new. No other file changes.
\<close>

theorem save_old_or_new:
  assumes "persister_Save ps x y t = (t', res)" "distinct (persister_keys ps)" "\<forall>p. callEnds t (ReadCall p) = Written"
  shows "(ReadRaftState ps t', ReadSnapshot ps t') \<in> {(ReadRaftState ps t, ReadSnapshot ps t), (x, ReadSnapshot ps t), (x, y)}"
    and "res = Inr () \<Longrightarrow> ReadRaftState ps t' = x \<and> ReadSnapshot ps t' = y"
    and "k \<notin> set (persister_keys ps) \<Longrightarrow> file_at t' k = file_at t k"
  using Save_files [OF assms(1,2) refl refl] assms(3) by (auto simp: ReadRaftState_def ReadSnapshot_def read_or_nil)

theorem save_old_or_new_witness:
  "\<exists>t t'. callEnds t (WriteCall ''data/snap.tmp'') = Partial 1 \<and>
     persister_Save (MakePersister ''state'' ''snap'' ''data/'') ''ab'' ''cd'' t = (t', Inl LoggerPanic) \<and>
     ReadRaftState (MakePersister ''state'' ''snap'' ''data/'') t' = [] \<and> file_at t' ''data/other'' = Some ''z''"
proof -
  let ?t = "\<lparr>nodes = [''data'' \<mapsto> DirNode, ''data/other'' \<mapsto> FileNode ''z''], dirSize = (\<lambda>_. 0),
    callEnds = (\<lambda>c. if c = WriteCall ''data/snap.tmp'' then Partial 1 else Written)\<rparr>"
  let ?ps = "MakePersister ''state'' ''snap'' ''data/''"
  let ?t' = "?t\<lparr>nodes := (nodes ?t)(''data/state.tmp'' \<mapsto> FileNode ''ab'', ''data/snap.tmp'' \<mapsto> FileNode ''c'')\<rparr>"
  have c: "Clean ''data/'' = ''data''" "Clean ''data/state'' = ''data/state''" "Clean ''data/snap'' = ''data/snap''"
    "Clean ''data/state.tmp'' = ''data/state.tmp''" "Clean ''data/snap.tmp'' = ''data/snap.tmp''" by code_simp+
  have d: "dir_of ''data/state.tmp'' = ''data''" "dir_of ''data/snap.tmp'' = ''data''" "names_file ''data/state.tmp''" "names_file ''data/snap.tmp''"
    by code_simp+
  have s: "persister_Save ?ps ''ab'' ''cd'' ?t = (?t', Inl LoggerPanic)"
    by (simp add: persister_Save_def MakePersister_def make_base_def IsNotExist_def stat_err_def sys_stat_def node_at_def
        or_panic_def sys_write_def in_dir_def Let_def c d)
  have k: "distinct (persister_keys ?ps)" by (simp add: persister_keys_def MakePersister_def c)
  have "ReadRaftState ?ps ?t' = []" by (simp add: ReadRaftState_def MakePersister_def sys_read_def node_at_def c)
  moreover have "file_at ?t' ''data/other'' = file_at ?t ''data/other''"
    by (rule save_old_or_new(3) [OF s k]) (simp_all add: persister_keys_def MakePersister_def c)
  ultimately show ?thesis using s by (intro exI [of _ ?t] exI [of _ ?t']) (simp add: file_at_def)
qed

text \<open>
  A save on a directory that is ready returns, and what was saved is read back with its size. A crash between the two
  renames leaves the new state with the old snapshot, although the temporary files are there \<^verbatim>\<open>to ensure atomicity\<close>.
\<close>

theorem save_read_back:
  assumes "persister_ready ps t" "\<forall>c. callEnds t c = Written" "persister_Save ps x y t = (t', res)"
  shows "res = Inr () \<and> ReadRaftState ps t' = x \<and> ReadSnapshot ps t' = y \<and>
    RaftStateSize ps t' = Inr (int (length x)) \<and> SnapshotSize ps t' = int (length y)"
proof -
  have "res = Inr ()" using Save_served(2) [OF assms(1) _ assms(3)] assms(2) by simp
  moreover have "distinct (persister_keys ps)" using assms(1) by (simp add: persister_ready_def)
  ultimately show ?thesis
    using Save_files [OF assms(3) _ refl refl] assms(2)
    by (auto simp: ReadRaftState_def ReadSnapshot_def read_or_nil RaftStateSize_def SnapshotSize_def stat_file)
qed

theorem save_torn:
  assumes "persister_ready ps t" "persister_Save ps x y t = (t', res)"
    "\<forall>c. callEnds t c = Written \<longleftrightarrow> c \<noteq> RenameCall (basePath ps @ snapshotPath ps @ ''.tmp'') (basePath ps @ snapshotPath ps)"
  shows "res = Inl LoggerPanic \<and> ReadRaftState ps t' = x \<and> ReadSnapshot ps t' = ReadSnapshot ps t"
proof -
  have "names_file (basePath ps @ raftstatePath ps)" "distinct (persister_keys ps)" using assms(1) by (auto simp: persister_ready_def)
  then show ?thesis
    using Save_served [OF assms(1) _ assms(2)] Save_files [OF assms(2) _ refl refl] assms(3)
    by (auto simp: ReadRaftState_def ReadSnapshot_def read_or_nil)
qed

text \<open>Without a state on disk \<^verbatim>\<open>RaftStateSize\<close> ends the process, where \<^verbatim>\<open>ReadRaftState\<close> and \<^verbatim>\<open>SnapshotSize\<close> go on.\<close>

theorem size_of_nothing_panics:
  assumes "nodes t (Clean (basePath ps @ raftstatePath ps)) = None"
  shows "RaftStateSize ps t = Inl LoggerPanic \<and> ReadRaftState ps t = []"
  using assms by (auto simp: RaftStateSize_def ReadRaftState_def sys_stat_def sys_read_def node_at_def)

end
