(* ===== verification/Locks.thy ===== *)
theory Locks
  imports Client Replica
begin

text \<open>
  The locks of the client (\<^verbatim>\<open>Lock\<close> and \<^verbatim>\<open>Unlock\<close> of \<^verbatim>\<open>src/client/client.go\<close>) on the replicated state machine of the servers: a
  compare-and-swap of the key from empty to an identifier, and back. Among the committed commands the locks exclude each
  other; the answers of \<^verbatim>\<open>PutAppend\<close> do not keep that promise.
\<close>

section \<open>Definitions\<close>

text \<open>A compare-and-swap that a server has recorded as successful, as its client has to understand it.\<close>

datatype lock_event = Acquired int bytes | Released int bytes

definition event_of :: "op \<Rightarrow> lock_event" where
  "event_of o' = (if Value (OpEntry o') = [] then Released (ClientId o') (OriValue o') else Acquired (ClientId o') (Value (OpEntry o')))"

text \<open>
  What happened to the lock \<open>k\<close> on a server while its loop applied messages, by the result that
  \<^verbatim>\<open>duplicateMap\<close> holds for the handlers: the compare-and-swaps on \<open>k\<close> that were new and succeeded.
\<close>

fun lock_history :: "'d db_ops \<Rightarrow> kv_codecs \<Rightarrow> string \<Rightarrow> apply_msg list \<Rightarrow> 'd kvserver \<Rightarrow> lock_event list" where
  "lock_history D K k [] kv = []"
| "lock_history D K k (m # ms) kv =
     (case HandleApplych D K m kv of
        Inl p \<Rightarrow> []
      | Inr kv' \<Rightarrow>
          (case dec (opC (raftC K)) (Command m) of
             None \<Rightarrow> []
           | Some o' \<Rightarrow>
               if OpType o' = CAST \<and> Key o' = k \<and> sint (dOffset (dup_of kv (ClientId o'))) < sint (Offset o') \<and>
                 CASResult (dup_of kv' (ClientId o'))
               then [event_of o'] else [])
          @ lock_history D K k ms kv')"

text \<open>The holder of a lock after the events: a free lock is acquired, and it is released with the identifier it was acquired with.\<close>

fun holder_after :: "bytes \<Rightarrow> lock_event list \<Rightarrow> bytes option" where
  "holder_after h [] = Some h"
| "holder_after h (Acquired c i # es) = (if h = [] \<and> i \<noteq> [] then holder_after i es else None)"
| "holder_after h (Released c i # es) = (if h = i \<and> i \<noteq> [] then holder_after [] es else None)"

text \<open>The commands a key that is used as a lock may see: those of \<^verbatim>\<open>Lock\<close> and \<^verbatim>\<open>Unlock\<close>, and those that leave the key alone.\<close>

definition simple_leaves :: "string \<Rightarrow> op \<Rightarrow> bool" where
  "simple_leaves k o' =
     (case OpType o' of
        PutT \<Rightarrow> Key o' \<noteq> k
      | AppendT \<Rightarrow> Key o' \<noteq> k
      | DelT \<Rightarrow> Key o' \<noteq> k
      | DelWithPrefixT \<Rightarrow> \<not> prefix (Key o') k
      | _ \<Rightarrow> True)"

definition lock_op :: "op list codec \<Rightarrow> string \<Rightarrow> op \<Rightarrow> bool" where
  "lock_op bc k o' =
     (case OpType o' of
        CAST \<Rightarrow> Key o' = k \<longrightarrow> (OriValue o' = []) \<noteq> (Value (OpEntry o') = [])
      | BatchT \<Rightarrow> (case dec bc (Value (OpEntry o')) of None \<Rightarrow> True | Some os \<Rightarrow> list_all (simple_leaves k) os)
      | _ \<Rightarrow> simple_leaves k o')"

definition lock_command :: "kv_codecs \<Rightarrow> string \<Rightarrow> bytes \<Rightarrow> bool" where
  "lock_command K k c \<longleftrightarrow> (case dec (opC (raftC K)) c of None \<Rightarrow> True | Some o' \<Rightarrow> lock_op (batchC K) k o')"

section \<open>The interface of a lock\<close>

text \<open>Steps with at most one event each, and the events of a sequence of steps.\<close>

fun history :: "('o \<Rightarrow> 's \<Rightarrow> 's) \<Rightarrow> ('o \<Rightarrow> 's \<Rightarrow> lock_event option) \<Rightarrow> 'o list \<Rightarrow> 's \<Rightarrow> lock_event list" where
  "history step event [] s = []"
| "history step event (x # xs) s =
     (case event x s of None \<Rightarrow> [] | Some e \<Rightarrow> [e]) @ history step event xs (step x s)"

lemma holder_after_split: "holder_after h (us @ vs) = Some h' \<Longrightarrow> \<exists>h0. holder_after h0 vs = Some h'"
  by (induction h us rule: holder_after.induct) (auto split: if_splits)

lemma held_until_released:
  assumes "holder_after h (us @ Acquired c i # vs @ Acquired c' i' # ws) = Some h'"
  shows "\<exists>c''. Released c'' i \<in> set vs"
proof -
  have "holder_after i (vs @ Acquired c' i' # ws) = Some h'" "i \<noteq> []" using holder_after_split [OF assms] by (auto split: if_splits)
  then show ?thesis by (cases vs rule: list.exhaust, simp, cases "hd vs") (auto split: if_splits)
qed

locale lock_register =
  fixes step :: "'o \<Rightarrow> 's \<Rightarrow> 's"
    and event :: "'o \<Rightarrow> 's \<Rightarrow> lock_event option"
    and holder :: "'s \<Rightarrow> bytes"
    and good :: "'o \<Rightarrow> bool"
  assumes acquires: "good x \<Longrightarrow> event x s = Some (Acquired c i) \<Longrightarrow> holder s = [] \<and> i \<noteq> [] \<and> holder (step x s) = i"
    and releases: "good x \<Longrightarrow> event x s = Some (Released c i) \<Longrightarrow> holder s = i \<and> i \<noteq> [] \<and> holder (step x s) = []"
    and quiet: "good x \<Longrightarrow> event x s = None \<Longrightarrow> holder (step x s) = holder s"
begin

lemma holder_history: "list_all good xs \<Longrightarrow> holder_after (holder s) (history step event xs s) = Some (holder (fold step xs s))"
proof (induction xs arbitrary: s)
  case (Cons x xs)
  show ?case
  proof (cases "event x s")
    case None
    with Cons.prems quiet [of x s] Cons.IH [of "step x s"] show ?thesis by simp
  next
    case (Some e)
    with Cons.prems acquires [of x s] releases [of x s] Cons.IH [of "step x s"] show ?thesis by (cases e) auto
  qed
qed simp

text \<open>Two acquisitions have a release between them, with the identifier of the first.\<close>

lemma exclusion:
  assumes "list_all good xs" "history step event xs s = us @ Acquired c i # vs @ Acquired c' i' # ws"
  shows "\<exists>c''. Released c'' i \<in> set vs"
  using holder_history [OF assms(1), of s] assms(2) by (auto intro: held_until_released)

end

section \<open>Locks on the specification\<close>

text \<open>A command and its event on the specification of the server.\<close>

definition spec_cmd :: "kv_codecs \<Rightarrow> bytes \<Rightarrow> kv_map \<times> (int \<Rightarrow> duplicateType) \<Rightarrow> kv_map \<times> (int \<Rightarrow> duplicateType)" where
  "spec_cmd K c s = (case dec (opC (raftC K)) c of None \<Rightarrow> s | Some o' \<Rightarrow> spec_apply (batchC K) o' s)"

definition spec_event :: "kv_codecs \<Rightarrow> string \<Rightarrow> bytes \<Rightarrow> kv_map \<times> (int \<Rightarrow> duplicateType) \<Rightarrow> lock_event option" where
  "spec_event K k c s =
     (case dec (opC (raftC K)) c of
        None \<Rightarrow> None
      | Some o' \<Rightarrow>
          if cas_succeeds o' (fst s) \<and> Key o' = k \<and> sint (dOffset (snd s (ClientId o'))) < sint (Offset o') then Some (event_of o') else None)"

lemma spec_stream_fold: "spec_stream K cs s = fold (spec_cmd K) cs s"
  by (induction cs arbitrary: s) (simp_all add: spec_cmd_def)

lemma simple_leaves_key: "simple_leaves k o' \<Longrightarrow> spec_simple o' m k = m k"
  by (auto simp: simple_leaves_def spec_simple_def split: optype.splits)

lemma fold_leaves_key: "list_all (simple_leaves k) os \<Longrightarrow> fold spec_simple os m k = m k"
  by (induction os arbitrary: m) (simp_all add: simple_leaves_key)

lemma lock_op_leaves:
  assumes "lock_op bc k o'" "\<not> (cas_succeeds o' m \<and> Key o' = k)"
  shows "spec_op bc o' m k = m k"
  using assms
  by (auto simp: lock_op_def spec_op_def cas_succeeds_def simple_leaves_key fold_leaves_key split: optype.splits option.splits)

lemma lock_op_swaps:
  assumes "cas_succeeds o' m" "Key o' = k"
  shows "val_of (spec_op bc o' m) k = Value (OpEntry o')" "val_of m k = OriValue o'"
  using assms by (auto simp: spec_op_def cas_succeeds_def val_of_def)

interpretation spec_lock: lock_register "spec_cmd K" "spec_event K k" "\<lambda>s. val_of (fst s) k" "lock_command K k"
  for K :: kv_codecs and k :: string
proof
  fix c s u i
  assume good: "lock_command K k c"
  have ev: "\<exists>o'. dec (opC (raftC K)) c = Some o' \<and> val_of (fst s) k = OriValue o' \<and> val_of (fst (spec_cmd K c s)) k = Value (OpEntry o') \<and>
      (OriValue o' = []) \<noteq> (Value (OpEntry o') = []) \<and> e = event_of o'" if "spec_event K k c s = Some e" for e
  proof -
    from that obtain o' where o': "dec (opC (raftC K)) c = Some o'" "cas_succeeds o' (fst s)" "Key o' = k"
      "sint (dOffset (snd s (ClientId o'))) < sint (Offset o')" "e = event_of o'"
      by (auto simp: spec_event_def split: option.splits if_splits)
    then have "lock_op (batchC K) k o'" "OpType o' = CAST" using good by (auto simp: lock_command_def cas_succeeds_def)
    then have "(OriValue o' = []) \<noteq> (Value (OpEntry o') = [])" using o'(3) by (simp add: lock_op_def)
    moreover have "fst (spec_cmd K c s) = spec_op (batchC K) o' (fst s)" using o' \<open>OpType o' = CAST\<close> by (simp add: spec_cmd_def spec_apply_def)
    ultimately show ?thesis using o' lock_op_swaps [OF o'(2,3)] by auto
  qed
  show "val_of (fst s) k = [] \<and> i \<noteq> [] \<and> val_of (fst (spec_cmd K c s)) k = i" if "spec_event K k c s = Some (Acquired u i)"
    using ev [OF that] by (auto simp: event_of_def split: if_splits)
  show "val_of (fst s) k = i \<and> i \<noteq> [] \<and> val_of (fst (spec_cmd K c s)) k = []" if "spec_event K k c s = Some (Released u i)"
    using ev [OF that] by (auto simp: event_of_def split: if_splits)
  show "val_of (fst (spec_cmd K c s)) k = val_of (fst s) k" if "spec_event K k c s = None"
    using that good lock_op_leaves [of "batchC K" k _ "fst s"]
    by (auto simp: spec_event_def spec_cmd_def lock_command_def spec_apply_def val_of_def split: option.splits if_splits)
qed

section \<open>Locks on the servers\<close>

context kv_store
begin

lemma lock_history_spec:
  assumes "serving ok n kv" "list_all CommandValid ms" "stream_from n ms = Some k'" "stream_fits fits K (map Command ms) (kv_abs view kv)"
  shows "lock_history D K k ms kv = history (spec_cmd K) (spec_event K k) (map Command ms) (kv_abs view kv)"
  using assms
proof (induction ms arbitrary: n kv)
  case (Cons m ms)
  from Cons.prems obtain o' where o': "dec (opC (raftC K)) (Command m) = Some o'" "op_fits fits (batchC K) o' (view (db kv))"
    "stream_fits fits K (map Command ms) (spec_apply (batchC K) o' (kv_abs view kv))"
    by (auto simp: kv_abs_def split: option.splits)
  from Cons.prems have m: "CommandValid m" "CommandIndex m = n + 1" "stream_from (n + 1) ms = Some k'" "list_all CommandValid ms"
    by (auto split: if_splits)
  from apply_one [OF Cons.prems(1) m(1,2) o'(1,2)] obtain kv1 where kv1: "HandleApplych D K m kv = Inr kv1" "serving ok (n + 1) kv1"
    "kv_abs view kv1 = spec_apply (batchC K) o' (kv_abs view kv)" by blast
  have "CASResult (dup_of kv1 (ClientId o')) = cas_succeeds o' (view (db kv))"
    if "OpType o' = CAST" "sint (dOffset (dup_of kv (ClientId o'))) < sint (Offset o')"
  proof -
    have "dup_of kv1 (ClientId o') = snd (spec_apply (batchC K) o' (kv_abs view kv)) (ClientId o')" using arg_cong [OF kv1(3), of snd] by (simp add: kv_abs_def)
    then show ?thesis using that by (simp add: spec_apply_def kv_abs_def)
  qed
  then show ?case
    using Cons.IH [OF kv1(2) m(4,3)] o' kv1 by (auto simp: spec_event_def spec_cmd_def kv_abs_def cas_succeeds_def)
qed simp

end

section \<open>Properties\<close>



text \<open>
  C33: \<^verbatim>\<open>Lock\<close> is granted while the lock is held. On a leader that has applied its whole log \<^verbatim>\<open>PutAppend\<close> answers a compare-and-swap
  with \<^verbatim>\<open>ErrOK\<close> before it is committed. So a client that asks such a leader for a lock gets its identifier, whoever holds the
  lock; when the command is applied later it fails, and the key still has the identifier of the holder.
\<close>

theorem lock_granted_while_held:
  assumes "client_inv ck" "lease_granted l (nextSendLocalId ck) (length (servers ck)) (ge (go_quot ttl Millisecond))"
    and a: "a = write_args now key (itoa l) [] 0 CAST ck"
    and "served_by K later kv (nextSendLocalId ck) (env 0)" "0 \<le> kv_me kv" "kv_me kv < int (length (servers ck))"
    and "PutAppend K a later kv = Inr (r, kv1)" "state (kv_rf kv) = Leader" "\<not> kv_dead kv" "lastAppliedIndex kv = lastIndex (kv_rf kv) + 1"
    and "sint (dOffset (dup_of kv (clientId ck))) < sint (LatestOffset ck)"
    and "codec_ok (opC (raftC K))" "kv_good (db_ok B G cnt at) kv" "entry_fits G key (OpEntry (put_op a))"
    and held: "val_of (db_map cnt G (db kv)) key = h" "h \<noteq> []"
    and m: "Command m = op_Marshal (opC (raftC K)) (put_op a)"
  shows "\<exists>sent ck2 evs kv2. Lock ge env re now key ttl ck = Inr (Inr (itoa l), sent, ck2) \<and>
    HandleApplychCommand (bolt_ops B G path) K m kv1 = Inr (evs, kv2) \<and>
    val_of (db_map cnt G (db kv2)) key = h \<and> \<not> CASResult (dup_of kv2 (clientId ck))"
proof -
  let ?ck = "ck\<lparr>servers := ltServers (ge (go_quot ttl Millisecond))\<rparr>"
  have "put_duplicate a kv = None" using assms(11) by (auto simp: put_duplicate_def a write_args_def Let_def)
  note p = PutAppend_at_once [OF assms(7-9) this assms(10)]
  have inv: "client_inv ?ck" "length (servers ?ck) = length (servers ck)"
    using assms(1,2) by (simp_all add: client_inv_def lease_granted_def table_ok_def)
  have "a = write_args now key (itoa l) [] 0 CAST ?ck" by (simp add: a write_args_def)
  then obtain ck2 where "client_write env now key (itoa l) [] 0 CAST ?ck = Inr (None, [(nextSendLocalId ck, a)], ck2)"
    using write_first_turn [OF inv(1), of K later kv env 0 a] assms(4-7) p(1) inv(2) by (auto simp: client_write_def)
  then have L: "Lock ge env re now key ttl ck = Inr (Inr (itoa l), [(nextSendLocalId ck, a)], ck2)"
    using LeaseGrant_granted [where e = ge and ttl = ttl, OF assms(1,2)] by (simp add: Lock_def client_CAS_def)
  have same: "kv_abs (db_map cnt G) kv1 = kv_abs (db_map cnt G) kv" "kv_good (db_ok B G cnt at) kv1"
    using p(2) assms(13) by (auto simp: kv_abs_def kv_good_def dup_of_def fun_eq_iff)
  have o': "dec (opC (raftC K)) (Command m) = Some (put_op a)" using m assms(12) by (simp add: op_Marshal_def)
  have "op_fits (entry_fits G) (batchC K) (put_op a) (db_map cnt G (db kv1))" using assms(14) by (simp add: op_fits_def a put_op_def write_args_def)
  from bdb.command_refines [OF same(2) o' this, of path] obtain evs kv2 where
    "HandleApplychCommand (bolt_ops B G path) K m kv1 = Inr (evs, kv2)"
    "kv_abs (db_map cnt G) kv2 = spec_apply (batchC K) (put_op a) (kv_abs (db_map cnt G) kv)" by (auto simp: same(1))
  moreover have "spec_apply (batchC K) (put_op a) (kv_abs (db_map cnt G) kv)
      = (db_map cnt G (db kv), (dup_of kv)(clientId ck := \<lparr>dOffset = LatestOffset ck, CASResult = False\<rparr>))"
    using held assms(11) by (simp add: spec_apply_def kv_abs_def spec_op_def cas_succeeds_def a put_op_def write_args_def)
  ultimately show ?thesis using L held(1) by (auto simp: kv_abs_def)
qed

theorem lock_granted_while_held_witness:
  "\<exists>kv sent ck2 r kv1 evs kv2.
     Lock (\<lambda>_. \<lparr>ltServers = [up_conn], ltAnswer = (\<lambda>_. Inr 1)\<rparr>)
       (\<lambda>_. \<lparr>wtServers = [up_conn], wtGrant = (\<lambda>i ms. None), wtReply = (\<lambda>i a. case PutAppend demo_K a [] kv of Inl p \<Rightarrow> None | Inr (r, kv') \<Rightarrow> Some r)\<rparr>)
       (\<lambda>_. \<lparr>ltServers = [], ltAnswer = (\<lambda>_. Inr ())\<rparr>) 0 ''k'' (10 * Second) (demo_ck1\<lparr>clientId := 8\<rparr>) = Inr (Inr ''1'', sent, ck2) \<and>
     PutAppend demo_K (write_args 0 ''k'' ''1'' [] 0 CAST (demo_ck1\<lparr>clientId := 8\<rparr>)) [] kv = Inr (r, kv1) \<and>
     val_of (db_map sorted_list_of_fmap (pin_codec [OpEntry (put_op demo_put), \<lparr>Value = ''1'', DeadTime = 0\<rparr>]) (db kv)) ''k'' = ''v'' \<and>
     HandleApplychCommand (bolt_ops fm_bolt (pin_codec [OpEntry (put_op demo_put), \<lparr>Value = ''1'', DeadTime = 0\<rparr>]) ''p'') demo_K
       (demo_msg (put_op (write_args 0 ''k'' ''1'' [] 0 CAST (demo_ck1\<lparr>clientId := 8\<rparr>)))) kv1 = Inr (evs, kv2) \<and>
     val_of (db_map sorted_list_of_fmap (pin_codec [OpEntry (put_op demo_put), \<lparr>Value = ''1'', DeadTime = 0\<rparr>]) (db kv2)) ''k'' = ''v''"
proof -
  let ?G = "pin_codec [OpEntry (put_op demo_put), \<lparr>Value = ''1'', DeadTime = 0\<rparr>]"
  let ?ok = "db_ok fm_bolt ?G sorted_list_of_fmap (\<lambda>b c xs. c = xs)" and ?v = "db_map sorted_list_of_fmap ?G"
  let ?ck = "demo_ck1\<lparr>clientId := 8\<rparr>" and ?a = "write_args 0 ''k'' ''1'' [] 0 CAST (demo_ck1\<lparr>clientId := 8\<rparr>)"
  have one: "itoa 1 = ''1''" by code_simp
  have fits: "entry_fits ?G ''k'' e" if "e \<in> {OpEntry (put_op demo_put), \<lparr>Value = ''1'', DeadTime = 0\<rparr>}" for e
    using pin_codec_length [of e "[OpEntry (put_op demo_put), \<lparr>Value = ''1'', DeadTime = 0\<rparr>]"] that by (auto simp: entry_fits_def fits_bolt_def)
  have k: "OpType (put_op demo_put) = PutT" "Key (put_op demo_put) = ''k''" "ClientId (put_op demo_put) = 7" "Offset (put_op demo_put) = 1"
    "Value (OpEntry (put_op demo_put)) = ''v''" by (simp_all add: put_op_def demo_put_def)
  have "kv_good ?ok demo_kv" using fm_new_ok [of ?G "''p''"] by (simp add: kv_good_def demo_kv_def NewLeaseManager_def)
  moreover have "op_fits (entry_fits ?G) (batchC demo_K) (put_op demo_put) (?v (db demo_kv))" using fits by (simp add: op_fits_def simple_fits_def k)
  ultimately obtain kv where kv: "kv_good ?ok kv" "kv_abs ?v kv = spec_apply (batchC demo_K) (put_op demo_put) (kv_abs ?v demo_kv)" "data_only demo_kv kv"
    using bdb.command_refines [OF _ demo_put_hyps(2), of fm_bolt ?G sorted_list_of_fmap "\<lambda>b c xs. c = xs" demo_kv "''p''"] by blast
  then have held: "val_of (?v (db kv)) ''k'' = ''v''" "dOffset (dup_of kv 8) = 0"
    by (auto simp: kv_abs_def spec_apply_def spec_op_def spec_simple_def k val_of_def dup_of_def demo_kv_def prod_eq_iff fun_eq_iff)
  have f: "kv_rf kv = kv_rf demo_kv" "kv_me kv = 0" "lastAppliedIndex kv = 0" "\<not> kv_dead kv" using kv(3) by (simp_all add: data_only_def demo_kv_def)
  have rf: "state (kv_rf kv) = Leader" "lastIndex (kv_rf kv) = -1" by (simp_all add: f(1) demo_kv_def zero_raft_def lastIndex_def)
  have dup: "put_duplicate ?a kv = None" using held(2) by (simp add: put_duplicate_def write_args_def demo_ck1_def Let_def)
  then have "\<exists>x. PutAppend demo_K ?a [] kv = Inr x"
    by (simp add: PutAppend_def put_begin_def GetState_def f demo_kv_def Let_def raft_Start_def zero_raft_def persistEntry_def raft_write_def
        wal_Write_def fresh_wal_def SendAppendEntriesToAll_def upt_rec numeral_3_eq_3 go_nth_def)
  then obtain r kv1 where p: "PutAppend demo_K ?a [] kv = Inr (r, kv1)" by auto
  let ?ge = "\<lambda>_::int. \<lparr>ltServers = [up_conn], ltAnswer = (\<lambda>_. Inr 1)\<rparr> :: int lease_turn"
  let ?env = "\<lambda>_::nat. \<lparr>wtServers = [up_conn], wtGrant = (\<lambda>i ms. None), wtReply = (\<lambda>i a. case PutAppend demo_K a [] kv of Inl p \<Rightarrow> None | Inr (r, kv') \<Rightarrow> Some r)\<rparr>"
  have inv: "client_inv ?ck" by (simp add: client_inv_def table_ok_def local_ids_def demo_ck1_def up_conn_def)
  have g: "lease_granted 1 (nextSendLocalId ?ck) (length (servers ?ck)) (?ge (go_quot (10 * Second) Millisecond))"
    by (simp add: lease_granted_def table_ok_def demo_ck1_def up_conn_def)
  have sv: "served_by demo_K [] kv (nextSendLocalId ?ck) (?env 0)" by (simp add: served_by_def up_conn_def demo_ck1_def)
  have "\<exists>sent ck2 evs kv2. Lock ?ge ?env (\<lambda>_. \<lparr>ltServers = [], ltAnswer = (\<lambda>_. Inr ())\<rparr>) 0 ''k'' (10 * Second) ?ck = Inr (Inr (itoa 1), sent, ck2) \<and>
    HandleApplychCommand (bolt_ops fm_bolt ?G ''p'') demo_K (demo_msg (put_op ?a)) kv1 = Inr (evs, kv2) \<and>
    val_of (?v (db kv2)) ''k'' = ''v'' \<and> \<not> CASResult (dup_of kv2 (clientId ?ck))"
    by (rule lock_granted_while_held [OF inv g _ sv _ _ p rf(1) f(4) _ _ _ kv(1) _ held(1)])
      (use fits rf(2) f held(2) in \<open>simp_all add: one demo_ck1_def demo_K_def count_codecs_def demo_msg_def put_op_def write_args_def\<close>)
  with p held(1) show ?thesis unfolding one by blast
qed

text \<open>The key of a lock is written without its lease: it does not go away with the lease, or ever, when its holder is gone.\<close>

theorem lock_not_leased:
  assumes "client_inv ck" "lease_granted l (nextSendLocalId ck) (length (servers ck)) (ge (go_quot ttl Millisecond))"
    "write_env (length (servers ck)) env" "Lock ge env re now key ttl ck = Inr (r, reqs, ck')" "(i, a) \<in> set reqs"
  shows "paLeaseId a = 0 \<and> paDeadTime a = 0"
proof -
  let ?ck = "ck\<lparr>servers := ltServers (ge (go_quot ttl Millisecond))\<rparr>"
  have inv: "client_inv ?ck" "length (servers ?ck) = length (servers ck)"
    using assms(1,2) by (simp_all add: client_inv_def lease_granted_def table_ok_def)
  then obtain res sent' ck2 where w: "client_write env now key (itoa l) [] 0 CAST ?ck = Inr (res, sent', ck2)"
    "\<forall>(i, a) \<in> set sent'. a = (write_args now key (itoa l) [] 0 CAST ?ck)\<lparr>paLeaseId := 0\<rparr>"
    using client_write_ran [OF inv(1), of env 0 now key "itoa l" "[]" CAST] assms(3) by (fastforce simp: write_ran_def write_args_def)
  then have "reqs = sent'"
    using assms(4) LeaseGrant_granted [where e = ge and ttl = ttl, OF assms(1,2)]
    by (auto simp: Lock_def client_CAS_def res_bind_Inr_iff split: if_splits option.splits prod.splits)
  with w(2) assms(5) show ?thesis by (auto simp: write_args_def)
qed

end
