(* ===== verification/Spec2Isabelle.thy ===== *)
theory Spec2Isabelle
  imports Startup Debugging RaftCrash Persister Locks
begin

text \<open>
  A verification development of firEtcd, a replicated key-value store: the Go sources under
  \<^verbatim>\<open>src/\<close>, translated by hand into functions on explicit states, and the theorems about them.

  The parts of the program and how they interact. A client of \<^verbatim>\<open>src/client\<close> keeps a table of connections
  and sends a request to one server after the other until the leader answers. A server of \<^verbatim>\<open>src/kvraft\<close>
  hands a write to its Raft peer (\<^verbatim>\<open>src/raft\<close>) and waits until the peer has applied it; the peers agree
  on a log, each writes its log and its term to a write-ahead log (\<^verbatim>\<open>src/pkg/wal\<close>), and each sends
  the committed entries in order over \<^verbatim>\<open>applyCh\<close> to its server. The server applies an entry to its store
  (\<^verbatim>\<open>src/pkg/bboltdb\<close>), keeps the leases (\<^verbatim>\<open>src/pkg/lease\<close>) and notifies the watchers. The service registry of
  \<^verbatim>\<open>src/client\<close> and the HTTP gateway of \<^verbatim>\<open>src/gateway\<close> are built on the client.

  The theories, in the order of their imports.

  \<^item> \<open>Prelude\<close>: Go's strings, slices, integers and errors; the generic lemmas.
  \<^item> \<open>Types\<close>: \<^verbatim>\<open>src/common/common.go\<close>, \<^verbatim>\<open>src/raft/common.go\<close> and the messages of \<^verbatim>\<open>src/proto/pb/pb.proto\<close>.
    The encoding of the messages, which is library code, is a codec: a pair of functions with a law.
  \<^item> \<open>Wal\<close>: \<^verbatim>\<open>src/pkg/wal/wal.go\<close> down to the bytes of a record. Recovery returns the records that were
    written; a flipped byte and a torn record are reported; segment names sort by their numbers;
    what \<^verbatim>\<open>Truncate\<close> and \<^verbatim>\<open>Open\<close> do where they go wrong. The locale \<open>recoverable_log\<close> states what its
    clients rely on, and \<open>wlog\<close> interprets it on the log.
  \<^item> \<open>RaftNode\<close>: the peer of \<^verbatim>\<open>src/raft/raft.go\<close>. Every section of the code that runs under the lock of
    the peer is one function of the record \<open>raft\<close>; a function of the source that releases the lock in
    between (\<^verbatim>\<open>electionLoop\<close>, \<^verbatim>\<open>SendAppendEntriesToPeerId\<close>, \<^verbatim>\<open>sendInstallSnapshotToPeerId\<close>) is the function
    up to the remote call and the one after it.
  \<^item> \<open>RaftLog\<close>: one message at a time. What \<^verbatim>\<open>AppendEntries\<close> does to the log on each branch, a whole
    round of replication between a leader and a follower, and what a commit requires.
  \<^item> \<open>RaftSteps\<close>: a peer for ever. \<open>node_step\<close> is any of its operations with any message; the commit
    index and the term never move back, committed entries stay, and the messages to the state machine
    are the committed log in order.
  \<^item> \<open>RaftElection\<close>: a cluster of peers with a network that loses, delays, reorders and repeats vote
    requests and replies. Two leaders of one term are one peer.
  \<^item> \<open>RaftSpec\<close>: log replication as an abstract protocol of peers with a term, a log and a number of committed entries, with its
    history. Its invariant gives log matching, leader completeness and the agreement of committed prefixes.
  \<^item> \<open>RaftCluster\<close>: a cluster of peers with the vote and log messages, all of which may be lost, delayed, reordered and repeated
    (\<open>net_step\<close>). The locale \<open>forward_simulation\<close>, interpreted as \<open>raft_sim\<close>, carries the properties of the protocol over to
    the code: log matching, leader completeness and state machine safety for an odd number of peers without restarts and
    snapshots. A step of a peer in the cluster meets the side conditions of \<open>node_step\<close>.
  \<^item> \<open>RaftPersist\<close>: what a peer finds in its write-ahead log when it starts again, with crashes and restarts as
    steps. It comes back with its term, vote and log; the two cases where it does not (a snapshot was taken, entries
    were dropped for a conflict) are theorems of their own. The locale \<open>persistence\<close> states what every operation keeps
    on disk once, for the whole state (\<open>dur\<close>) and for the term and the vote (\<open>ballot\<close>).
  \<^item> \<open>RaftCrash\<close>: the elections of \<open>RaftElection\<close> in a cluster whose peers crash and start again; there is still at most one
    leader of a term as long as no snapshot is taken.
  \<^item> \<open>Store\<close>, \<open>BoltDB\<close>: the interface \<^verbatim>\<open>common.DB\<close> as a record of operations with the laws of the
    locale \<open>kv_store\<close>, and \<^verbatim>\<open>src/pkg/bboltdb/bboltdb.go\<close>, which provides it (interpretation \<open>bdb\<close>), on a
    bbolt database that is a parameter.
  \<^item> \<open>Lease\<close>: \<^verbatim>\<open>src/pkg/lease/manager.go\<close> and \<^verbatim>\<open>src/kvraft/lease_service.go\<close>; the goroutine \<^verbatim>\<open>run\<close> is the
    step relation \<open>lease_step\<close>.
  \<^item> \<open>Watch\<close>: \<^verbatim>\<open>WatcherManager\<close> of \<^verbatim>\<open>src/kvraft/server.go\<close> with the channels of the watchers.
  \<^item> \<open>KVServer\<close>: the rest of \<^verbatim>\<open>src/kvraft/server.go\<close>. Applying a command refines a map with at-most-once
    requests; a snapshot carries the whole state; what \<^verbatim>\<open>Get\<close> and \<^verbatim>\<open>PutAppend\<close> answer.
  \<^item> \<open>Replica\<close>: a server fed by its peer. \<open>apply_stream\<close> is the loop \<^verbatim>\<open>HandleApplych\<close> over the messages of the peer; two
    servers of a cluster are in the same state at the same index, the one the specification reaches with the log.
  \<^item> \<open>Pipe\<close>, \<open>Client\<close>: \<^verbatim>\<open>src/client/pipe.go\<close> and \<^verbatim>\<open>src/client/client.go\<close>. The servers and the network are an
    environment, a state with the functions that answer a call, so the theorems on the retry loops hold
    for every behaviour of the servers and those on reads and repeated writes for the servers' own
    handlers.
  \<^item> \<open>Locks\<close>: \<^verbatim>\<open>Lock\<close> and \<^verbatim>\<open>Unlock\<close> of the client on the replicated state machine. Among the committed commands the locks exclude
    each other (locale \<open>lock_register\<close>, interpreted on the specification of the server); the answers of \<^verbatim>\<open>PutAppend\<close> grant
    locks that are held.
  \<^item> \<open>Discovery\<close>: \<^verbatim>\<open>src/client/naming.go\<close> and \<^verbatim>\<open>src/client/service_discovery.go\<close> over the interface \<^verbatim>\<open>KVStore\<close>, a record of
    operations with the laws of the locale \<open>registry_store\<close>; the interpretation \<open>reg\<close> is on the storage and the
    lease manager of a server. A registered service is discovered, and no other service is touched.
  \<^item> \<open>Interfaces\<close>: the interfaces of \<^verbatim>\<open>src/client/interface.go\<close> with the client as their implementation, in a world that answers its calls. The
    locales \<open>blind_store\<close> and \<open>write_only_store\<close> are what registry and discovery do on a store whose reads fail; they are interpreted
    on the client, because its reads do fail.
  \<^item> \<open>Gateway\<close>: \<^verbatim>\<open>src/gateway\<close>, every handler as a function of the request, the client and the response written so far;
    the headers of a response are fixed by its first \<^verbatim>\<open>WriteHeader\<close>.
  \<^item> \<open>Config\<close>: \<^verbatim>\<open>src/pkg/firconfig\<close>: the structures, their defaults and validation, the configuration file and the overrides from
    the environment, whose recursion over reflected values is the field by field override. The locale \<open>configuration\<close> is the
    interface \<^verbatim>\<open>Firconfig\<close>, interpreted for servers, gateways, clerks and endpoints.
  \<^item> \<open>Tls\<close>: \<^verbatim>\<open>src/pkg/tls/utils.go\<close> and the credentials of clients, servers and the gateway: which versions a validated
    section gives, and which client completes a handshake with a server.
  \<^item> \<open>Persister\<close>: \<^verbatim>\<open>src/raft/persister.go\<close> and \<^verbatim>\<open>src/raft/wal.go\<close>, which the peer no longer calls. Whatever calls fail, a save
    leaves each file old or new; the copy of the log is a \<open>recoverable_log\<close> too (interpretation \<open>raft_wlog\<close>).
  \<^item> \<open>Startup\<close>: \<^verbatim>\<open>src/cmd\<close>, and the parts of \<^verbatim>\<open>raft.Make\<close> and \<^verbatim>\<open>StartKVServer\<close> that listen and connect. \<^verbatim>\<open>main\<close> starts only
    servers of an odd number of peers, and a cluster of such servers on empty directories is one the theorems of
    \<open>RaftCluster\<close> speak of.
  \<^item> \<open>Demo\<close>: \<^verbatim>\<open>src/demo\<close>, the example services with their routes, the API gateway in front of them and the client. A user service
    that has started is found and called; what the API gateway and the order service get wrong.
  \<^item> \<open>Debugging\<close>: \<^verbatim>\<open>src/demo/debug_connection.go\<close>, what it prints and when it panics.

  Bounds. The retry loops \<^verbatim>\<open>read\<close> and \<^verbatim>\<open>write\<close> of the client count the connections that failed and stop
  after at most 6n turns for n servers, so they are structurally recursive on that number. The loops over
  logs, cursors and records recurse on what is left of them. The background loops of the
  goroutines, which never end, are step functions: one turn is one step. The loop of \<^verbatim>\<open>WaitConnect\<close> that tries again until it
  has a connection is a partial function, \<open>None\<close> when it never has.
  Lengths and indexes of Go's \<^verbatim>\<open>int\<close> are \<open>nat\<close> or \<open>int\<close>; the fields that wrap (the header of a log record,
  its checksum, request numbers, lease durations) are words or carry their \<open>mod\<close>. What bounds the log in
  \<open>RaftPersist\<close> is the 32-bit length of a record: 4 GiB.

  What the theorems assume of code outside the repository is explicit: JSON, gob and protobuf are codecs, mostly with the
  law that decoding undoes encoding; bbolt is the record \<open>bolt\<close> with the laws \<open>bolt_laws\<close>; the file system may fail at any
  call. YAML is the record \<open>yaml\<close> with the law \<open>yaml_ok\<close>, and certificates are parsed and verified by the parameter \<open>x509\<close>.
  The theorems on one peer alone (\<open>RaftSteps\<close>) assume in the side conditions of \<open>node_step\<close> what the protocol guarantees;
  \<open>RaftCluster\<close> discharges them for clusters without restarts and snapshots. The size of the cluster must be odd there, because the
  median that \<^verbatim>\<open>updateCommitIndex\<close> takes is reached by half of the peers only when their number is even; snapshots and restarts are left
  out because with them the property does not hold (\<open>install_drops_committed_entries\<close>, \<open>dropped_entries_return\<close>,
  \<open>snapshot_forgets_state\<close>).

  Not modelled: gRPC and HTTP themselves and logging; the generated code of
  \<^verbatim>\<open>src/proto\<close> and the mocks; the logger of \<^verbatim>\<open>src/pkg/firlog\<close>, which only
  configures a library; the functions of \<^verbatim>\<open>src/raft/wal.go\<close> that are the same lines as those of \<^verbatim>\<open>src/pkg/wal/wal.go\<close>.
\<close>

end
